(* ===== verification/Prelude.thy ===== *)
theory Prelude
  imports Main "HOL-Library.Word"
begin

text \<open>
  Shared vocabulary of the development: names for the emulator's machine integers
  (\<open>Bit8u\<close>, \<open>Bit16u\<close>, \<open>Bit32u\<close> of config.h), the collections of rewrite rules the
  component theories extend, and the facts on bits, carries and borrows that more than
  one component needs.
\<close>

unbundle bit_operations_syntax

type_synonym Bit8u = "8 word"
type_synonym Bit16u = "16 word"
type_synonym Bit32u = "32 word"
type_synonym Bit64u = "64 word"

text \<open>C's shifts of an unsigned value by an amount below its width.\<close>

abbreviation shl :: "'a::len word \<Rightarrow> nat \<Rightarrow> 'a word" where
  "shl w n \<equiv> push_bit n w"

abbreviation shr :: "'a::len word \<Rightarrow> nat \<Rightarrow> 'a word" where
  "shr w n \<equiv> drop_bit n w"

named_theorems bitlevel \<open>bit of a word expression, for arguments by cases on the bit index\<close>
named_theorems cpu_simps \<open>unfolding rules of the register file and the flag accessors\<close>
named_theorems pic_defs \<open>unfolding rules of the interrupt controller\<close>
named_theorems pit_defs \<open>unfolding rules of the interval timer\<close>

lemmas [bitlevel] = bit_simps

section \<open>Carries and borrows\<close>

text \<open>
  The carry into position \<open>Suc n\<close> of an addition and the borrow into position
  \<open>Suc n\<close> of a subtraction, each read off the operands' low \<open>Suc n\<close> bits.
\<close>

lemma int_div_split:
  fixes a :: int
  shows "a = 2 ^ n * (a div 2 ^ n) + take_bit n a"
  by (simp add: take_bit_eq_mod)

lemma take_bit_Suc_int:
  fixes a :: int
  shows "take_bit (Suc n) a = take_bit n a + 2 ^ n * of_bool (bit a n)"
  by (simp add: take_bit_Suc_from_most ac_simps)

lemma take_bit_int_range:
  fixes a :: int
  shows "0 \<le> take_bit n a" and "take_bit n a < 2 ^ n"
  by simp_all

lemma of_bool_int_range:
  shows "0 \<le> (of_bool c :: int)" and "of_bool c \<le> (1 :: int)"
  by simp_all

lemma sum_low_range:
  fixes a b :: int
  shows "0 \<le> take_bit n a + take_bit n b + of_bool c"
    and "take_bit n a + take_bit n b + of_bool c < 2 * 2 ^ n"
proof -
  show "0 \<le> take_bit n a + take_bit n b + of_bool c"
    by simp
  show "take_bit n a + take_bit n b + of_bool c < 2 * 2 ^ n"
    using take_bit_int_range(2) [of n a] take_bit_int_range(2) [of n b] of_bool_int_range(2) [of c]
    by linarith
qed

lemma diff_low_range:
  fixes a b :: int
  shows "- (2 ^ n) \<le> take_bit n a - take_bit n b - of_bool c"
    and "take_bit n a - take_bit n b - of_bool c < 2 ^ n"
proof -
  note r = take_bit_int_range [of n a] take_bit_int_range [of n b] of_bool_int_range [of c]
  show "- (2 ^ n) \<le> take_bit n a - take_bit n b - of_bool c"
    using r by linarith
  show "take_bit n a - take_bit n b - of_bool c < 2 ^ n"
    using r by linarith
qed

lemma bit_take_bit_split:
  fixes a :: int
  shows "bit a n \<longleftrightarrow> 2 ^ n \<le> take_bit (Suc n) a"
proof (cases "bit a n")
  case True
  then show ?thesis by (simp add: take_bit_Suc_int)
next
  case False
  then show ?thesis
    using take_bit_int_range(2) [of n a]
    by (simp only: take_bit_Suc_int of_bool_eq mult_zero_right add_0_right flip: not_le)
qed

text \<open>Quotient of a value below twice the divisor.\<close>

lemma small_div:
  fixes s p :: int
  assumes "0 \<le> s" and "s < 2 * p"
  shows "s div p = of_bool (p \<le> s)"
proof (cases "p \<le> s")
  case True
  with assms have "s div p = 1"
    by (intro int_div_pos_eq [where r = "s - p"]) auto
  with True show ?thesis by simp
next
  case False
  with assms show ?thesis by simp
qed

lemma small_neg_div:
  fixes s p :: int
  assumes "- p \<le> s" and "s < p"
  shows "s div p = - of_bool (s < 0)"
proof (cases "s < 0")
  case True
  with assms have "s div p = - 1"
    by (intro int_div_pos_eq [where r = "s + p"]) auto
  with True show ?thesis by simp
next
  case False
  with assms show ?thesis by simp
qed

lemma odd_add_of_bool:
  fixes x y :: int
  shows "odd (x + y + of_bool k) \<longleftrightarrow> (odd x \<noteq> odd y) \<noteq> k"
    and "odd (x - y + - of_bool k) \<longleftrightarrow> (odd x \<noteq> odd y) \<noteq> k"
  by (cases k; auto)+

text \<open>Bit \<open>n\<close> of a sum with a carry in, and of a difference with a borrow in.\<close>

lemma int_sum_bit:
  fixes a b :: int
  shows "bit (a + b + of_bool c) n \<longleftrightarrow> (bit a n \<noteq> bit b n) \<noteq>
    (2 ^ n \<le> take_bit n a + take_bit n b + of_bool c)"
proof -
  let ?s = "take_bit n a + take_bit n b + of_bool c"
  note low = sum_low_range [of n a b c]
  have "a + b + of_bool c = ?s + (a div 2 ^ n + b div 2 ^ n) * 2 ^ n"
    using int_div_split [of a n] int_div_split [of b n] by (simp add: algebra_simps)
  then have "(a + b + of_bool c) div 2 ^ n = a div 2 ^ n + b div 2 ^ n + ?s div 2 ^ n"
    by (simp only: div_mult_self1 power_not_zero) simp
  then show ?thesis
    unfolding bit_iff_odd small_div [OF low] by (simp only: odd_add_of_bool)
qed

lemma int_diff_bit:
  fixes a b :: int
  shows "bit (a - b - of_bool c) n \<longleftrightarrow> (bit a n \<noteq> bit b n) \<noteq>
    (take_bit n a < take_bit n b + of_bool c)"
proof -
  let ?s = "take_bit n a - take_bit n b - of_bool c"
  note low = diff_low_range [of n a b c]
  have "a - b - of_bool c = ?s + (a div 2 ^ n - b div 2 ^ n) * 2 ^ n"
    using int_div_split [of a n] int_div_split [of b n] by (simp add: algebra_simps)
  then have "(a - b - of_bool c) div 2 ^ n = a div 2 ^ n - b div 2 ^ n + ?s div 2 ^ n"
    by (simp only: div_mult_self1 power_not_zero) simp
  then show ?thesis
    unfolding bit_iff_odd small_neg_div [OF low] by (simp only: odd_add_of_bool) linarith
qed

text \<open>
  The carry vector \<open>(x & y) | ((x | y) & ~r)\<close> of an addition with result \<open>r\<close> holds at
  position \<open>n\<close> the carry out of that position; likewise the borrow vector of a subtraction.
\<close>

lemma carry_out_int:
  fixes a b :: int
  assumes "r \<longleftrightarrow> bit (a + b + of_bool c) n"
  shows "(bit a n \<and> bit b n) \<or> ((bit a n \<or> bit b n) \<and> \<not> r) \<longleftrightarrow>
    2 ^ Suc n \<le> take_bit (Suc n) a + take_bit (Suc n) b + of_bool c"
proof -
  show ?thesis
    using sum_low_range [of n a b c]
    unfolding assms int_sum_bit take_bit_Suc_int power_Suc
    by (cases "bit a n"; cases "bit b n"; simp; linarith)
qed

lemma borrow_out_int:
  fixes a b :: int
  assumes "r \<longleftrightarrow> bit (a - b - of_bool c) n"
  shows "(\<not> bit a n \<and> bit b n) \<or> ((\<not> bit a n) \<noteq> bit b n) \<and> r \<longleftrightarrow>
    take_bit (Suc n) a < take_bit (Suc n) b + of_bool c"
proof -
  show ?thesis
    using diff_low_range [of n a b c]
    unfolding assms int_diff_bit take_bit_Suc_int
    by (cases "bit a n"; cases "bit b n"; simp; linarith)
qed

text \<open>Signed overflow is the disagreement of the last two carries, or borrows.\<close>

lemma signed_take_bit_split:
  fixes a :: int
  shows "signed_take_bit n a = take_bit n a - 2 ^ n * of_bool (bit a n)"
  by (simp add: signed_take_bit_eq_take_bit_minus take_bit_Suc_int)

lemma add_overflow_cases:
  fixes x y p :: int
  assumes "0 \<le> x" "x < p" "0 \<le> y" "y < p"
  shows "(2 * p \<le> (x + p * of_bool A) + (y + p * of_bool B) + of_bool c) \<noteq>
      (p \<le> x + y + of_bool c) \<longleftrightarrow>
    (x - p * of_bool A) + (y - p * of_bool B) + of_bool c < - p \<or>
    p \<le> (x - p * of_bool A) + (y - p * of_bool B) + of_bool c"
  using assms by (cases A; cases B; cases c; auto)

lemma add_overflow_int:
  fixes a b :: int and c :: bool and n :: nat
  defines "s \<equiv> signed_take_bit n a + signed_take_bit n b + of_bool c"
  shows "(2 ^ Suc n \<le> take_bit (Suc n) a + take_bit (Suc n) b + of_bool c) \<noteq>
    (2 ^ n \<le> take_bit n a + take_bit n b + of_bool c) \<longleftrightarrow>
    s < - (2 ^ n) \<or> 2 ^ n \<le> s"
  unfolding s_def signed_take_bit_split take_bit_Suc_int power_Suc
  by (rule add_overflow_cases) (rule take_bit_int_range)+

lemma sub_overflow_int:
  fixes a b :: int and c :: bool and n :: nat
  defines "s \<equiv> signed_take_bit n a - signed_take_bit n b - of_bool c"
  shows "(take_bit (Suc n) a < take_bit (Suc n) b + of_bool c) \<noteq>
    (take_bit n a < take_bit n b + of_bool c) \<longleftrightarrow>
    s < - (2 ^ n) \<or> 2 ^ n \<le> s"
proof -
  show ?thesis
    using diff_low_range [of n a b c] take_bit_int_range [of n a] take_bit_int_range [of n b]
    unfolding s_def signed_take_bit_split take_bit_Suc_int
    by (cases "bit a n"; cases "bit b n"; simp; linarith)
qed

section \<open>Booleans and bits of words\<close>

lemma bool_eq_assoc: "((a = b) = c) = (a = (b = (c :: bool)))"
  by (cases a; cases b) simp_all

lemma bool_eq_comm: "(a = b) = (b = (a :: bool))"
  by blast

lemma bool_eq_left_comm: "(a = (b = c)) = (b = (a = (c :: bool)))"
  by (cases a; cases b) simp_all

lemma not_eq_left: "((\<not> a) = b) = (\<not> (a = b))"
  by blast

lemma not_eq_right: "(a = (\<not> b)) = (\<not> (a = b))"
  by blast

lemma bool_eq_cancel: "(a = (a = b)) = (b :: bool)"
  by blast

lemmas bool_xor_ac = bool_eq_cancel not_eq_left not_eq_right not_not bool_eq_assoc bool_eq_comm bool_eq_left_comm

lemma bit_word_uint: "bit w n = bit (uint w) n" for w :: "'a::len word"
  using bit_imp_le_length [of w n] by (auto simp: bit_uint_iff)

lemma bit_word_add:
  fixes a b :: "'a::len word"
  shows "bit (a + b + of_bool c) n \<longleftrightarrow> n < LENGTH('a) \<and> bit (uint a + uint b + of_bool c) n"
proof -
  have "uint (a + b + of_bool c) = take_bit LENGTH('a) (uint a + uint b + of_bool c)"
    by (cases c) (simp_all add: uint_word_ariths take_bit_eq_mod mod_simps)
  then show ?thesis
    by (simp add: bit_word_uint bit_take_bit_iff)
qed

lemma bit_word_sub:
  fixes a b :: "'a::len word"
  shows "bit (a - b - of_bool c) n \<longleftrightarrow> n < LENGTH('a) \<and> bit (uint a - uint b - of_bool c) n"
proof -
  have "uint (a - b - of_bool c) = take_bit LENGTH('a) (uint a - uint b - of_bool c)"
    by (cases c) (simp_all add: uint_word_ariths take_bit_eq_mod mod_simps)
  then show ?thesis
    by (simp add: bit_word_uint bit_take_bit_iff)
qed

lemma bit_and_one: "(w :: 'a::len word) AND 1 = of_bool (bit w 0)"
  by (simp add: and_one_eq mod2_eq_if bit_0)

lemma bit_xor_shr:
  fixes t :: "'a::len word"
  shows "bit (t XOR shr t k) n \<longleftrightarrow> bit t n \<noteq> bit t (n + k)"
  by (simp add: bit_xor_iff bit_drop_bit_eq ac_simps)

section \<open>Truncation to an operand size\<close>

lemma ucast_arith:
  fixes a b :: Bit32u
  assumes "LENGTH('n) \<le> 32"
  shows "(ucast (a + b) :: 'n::len word) = ucast a + ucast b"
    and "(ucast (a - b) :: 'n word) = ucast a - ucast b"
    and "(ucast (- a) :: 'n word) = - ucast a"
    and "(ucast (a * b) :: 'n::len word) = ucast a * ucast b"
proof -
  have t: "take_bit LENGTH('n) (take_bit 32 x) = take_bit LENGTH('n) x" for x :: int
    using assms by (simp add: min_absorb1)
  have h: "(ucast w :: 'n word) = word_of_int (uint w)" for w :: Bit32u
    by (rule bit_word_eqI) (simp add: bit_ucast_iff bit_word_of_int_iff bit_word_uint)
  have c: "(word_of_int (take_bit 32 x) :: 'n word) = word_of_int x" for x
    unfolding word_of_int_eq_iff by (rule t)
  have u: "uint (a + b) = take_bit 32 (uint a + uint b)" "uint (a - b) = take_bit 32 (uint a - uint b)"
    "uint (- a) = take_bit 32 (- uint a)" "uint (a * b) = take_bit 32 (uint a * uint b)"
    by (simp_all only: uint_word_arith_bintrs len_bit0 len_num1)
       (simp_all)
  show "(ucast (a + b) :: 'n word) = ucast a + ucast b"
    "(ucast (a - b) :: 'n word) = ucast a - ucast b"
    "(ucast (- a) :: 'n word) = - ucast a"
    "(ucast (a * b) :: 'n word) = ucast a * ucast b"
    by (simp_all only: h u c of_int_mult of_int_add of_int_diff of_int_minus)
qed

lemma ucast_low [simp]:
  "(ucast (ucast x :: Bit32u) :: Bit8u) = x" "(ucast (ucast y :: Bit32u) :: Bit16u) = y"
  for x :: Bit8u and y :: Bit16u
  by (rule bit_word_eqI; simp add: bit_ucast_iff)+

lemma ucast_of_bool [simp]: "(ucast (of_bool c :: Bit32u) :: 'n::len word) = of_bool c"
  by (cases c) simp_all

lemmas ucast_alu = ucast_arith [where 'n = 8, simplified] ucast_arith [where 'n = 16, simplified]

lemma mod_once:
  fixes d :: int
  shows "- M \<le> d \<Longrightarrow> d < 0 \<Longrightarrow> d mod M = d + M" and "M \<le> d \<Longrightarrow> d < 2 * M \<Longrightarrow> d mod M = d - M"
proof -
  assume "- M \<le> d" "d < 0"
  then have "(d + M) mod M = d + M" by (intro mod_pos_pos_trivial) auto
  then show "d mod M = d + M" by simp
next
  assume "M \<le> d" "d < 2 * M"
  then have "(d - M) mod M = d - M" by (intro mod_pos_pos_trivial) auto
  then show "d mod M = d - M" by simp
qed

end
