(* ===== verification/Lazy_Flags.thy ===== *)
theory Lazy_Flags
  imports Prelude
begin

text \<open>
  The lazy arithmetic flags of cpu/lazy_flags.h. The emulator does not keep CF, PF, AF,
  ZF, SF and OF: it keeps the sign-extended result of the last operation and a word of
  auxiliary bits, from which each flag is recomputed on demand. The configuration is the
  one of config.h (\<open>BX_SUPPORT_X86_64\<close> is 0), so \<open>bx_address\<close> is 32 bits wide and
  \<open>BX_LF_SIGN_BIT\<close> is 31. The theory models the accessors and the flag-setting
  macros, shows that the six flags behave as independent storage (locale \<open>flag_bank\<close>),
  and that after an addition, a subtraction or a logic operation at each operand size
  the recomputed flags are the ones of the reference arithmetic.
\<close>

section \<open>Layout of the auxiliary bits\<close>

definition BX_LF_SIGN_BIT :: nat where "BX_LF_SIGN_BIT = 31"

definition LF_BIT_SD :: nat where "LF_BIT_SD = 0"
definition LF_BIT_AF :: nat where "LF_BIT_AF = 3"
definition LF_BIT_PDB :: nat where "LF_BIT_PDB = 8"
definition LF_BIT_CF :: nat where "LF_BIT_CF = 31"
definition LF_BIT_PO :: nat where "LF_BIT_PO = 30"

definition LF_MASK_SD :: Bit32u where "LF_MASK_SD = shl 0x01 LF_BIT_SD"
definition LF_MASK_AF :: Bit32u where "LF_MASK_AF = shl 0x01 LF_BIT_AF"
definition LF_MASK_PDB :: Bit32u where "LF_MASK_PDB = shl 0xFF LF_BIT_PDB"
definition LF_MASK_CF :: Bit32u where "LF_MASK_CF = shl 0x01 LF_BIT_CF"
definition LF_MASK_PO :: Bit32u where "LF_MASK_PO = shl 0x01 LF_BIT_PO"

lemmas lf_bits = BX_LF_SIGN_BIT_def LF_BIT_SD_def LF_BIT_AF_def LF_BIT_PDB_def
  LF_BIT_CF_def LF_BIT_PO_def

lemmas lf_masks = LF_MASK_SD_def LF_MASK_AF_def LF_MASK_PDB_def LF_MASK_CF_def
  LF_MASK_PO_def

record bx_lazyflags_entry =
  lf_result :: Bit32u
  lf_auxbits :: Bit32u

section \<open>Accessors\<close>

definition set_flags_OxxxxC :: "Bit32u \<Rightarrow> Bit32u \<Rightarrow> bx_lazyflags_entry \<Rightarrow> bx_lazyflags_entry" where
  "set_flags_OxxxxC new_of new_cf e =
    (let temp_po = new_of XOR new_cf;
         aux = lf_auxbits e AND NOT (LF_MASK_PO OR LF_MASK_CF)
     in e\<lparr>lf_auxbits := aux OR (shl temp_po LF_BIT_PO OR shl new_cf LF_BIT_CF)\<rparr>)"

definition assert_flags_OxxxxC :: "bx_lazyflags_entry \<Rightarrow> bx_lazyflags_entry" where
  "assert_flags_OxxxxC = set_flags_OxxxxC 1 1"

definition getB_CF :: "bx_lazyflags_entry \<Rightarrow> Bit32u" where
  "getB_CF e = shr (lf_auxbits e) LF_BIT_CF AND 1"

definition get_CF :: "bx_lazyflags_entry \<Rightarrow> Bit32u" where
  "get_CF e = lf_auxbits e AND LF_MASK_CF"

definition getB_OF :: "bx_lazyflags_entry \<Rightarrow> Bit32u" where
  "getB_OF e = shr (lf_auxbits e + shl 1 LF_BIT_PO) LF_BIT_CF AND 1"

definition get_OF :: "bx_lazyflags_entry \<Rightarrow> Bit32u" where
  "get_OF e = (lf_auxbits e + shl 1 LF_BIT_PO) AND shl 1 LF_BIT_CF"

definition set_OF :: "Bit32u \<Rightarrow> bx_lazyflags_entry \<Rightarrow> bx_lazyflags_entry" where
  "set_OF val e = (let temp_cf = getB_CF e in set_flags_OxxxxC val temp_cf e)"

definition clear_OF :: "bx_lazyflags_entry \<Rightarrow> bx_lazyflags_entry" where
  "clear_OF e = (let temp_cf = getB_CF e in set_flags_OxxxxC 0 temp_cf e)"

definition assert_OF :: "bx_lazyflags_entry \<Rightarrow> bx_lazyflags_entry" where
  "assert_OF e = (let temp_cf = getB_CF e in set_flags_OxxxxC 1 temp_cf e)"

definition set_CF :: "Bit32u \<Rightarrow> bx_lazyflags_entry \<Rightarrow> bx_lazyflags_entry" where
  "set_CF val e = (let temp_of = getB_OF e in set_flags_OxxxxC temp_of val e)"

definition clear_CF :: "bx_lazyflags_entry \<Rightarrow> bx_lazyflags_entry" where
  "clear_CF e = (let temp_of = getB_OF e in set_flags_OxxxxC temp_of 0 e)"

definition assert_CF :: "bx_lazyflags_entry \<Rightarrow> bx_lazyflags_entry" where
  "assert_CF e = (let temp_of = getB_OF e in set_flags_OxxxxC temp_of 1 e)"

definition getB_SF :: "bx_lazyflags_entry \<Rightarrow> Bit32u" where
  "getB_SF e = (shr (lf_result e) BX_LF_SIGN_BIT XOR shr (lf_auxbits e) LF_BIT_SD) AND 1"

definition get_SF :: "bx_lazyflags_entry \<Rightarrow> Bit32u" where
  "get_SF e = getB_SF e"

definition set_SF :: "Bit32u \<Rightarrow> bx_lazyflags_entry \<Rightarrow> bx_lazyflags_entry" where
  "set_SF val e =
    (let temp_sf = getB_SF e
     in e\<lparr>lf_auxbits := lf_auxbits e XOR shl (temp_sf XOR val) LF_BIT_SD\<rparr>)"

definition clear_SF :: "bx_lazyflags_entry \<Rightarrow> bx_lazyflags_entry" where
  "clear_SF = set_SF 0"

definition assert_SF :: "bx_lazyflags_entry \<Rightarrow> bx_lazyflags_entry" where
  "assert_SF = set_SF 1"

definition getB_ZF :: "bx_lazyflags_entry \<Rightarrow> Bit32u" where
  "getB_ZF e = of_bool (0 = lf_result e)"

definition get_ZF :: "bx_lazyflags_entry \<Rightarrow> Bit32u" where
  "get_ZF e = getB_ZF e"

definition clear_ZF :: "bx_lazyflags_entry \<Rightarrow> bx_lazyflags_entry" where
  "clear_ZF e = e\<lparr>lf_result := lf_result e OR shl 1 8\<rparr>"

definition assert_ZF :: "bx_lazyflags_entry \<Rightarrow> bx_lazyflags_entry" where
  "assert_ZF e =
    (let e = e\<lparr>lf_auxbits := lf_auxbits e XOR
               shl (shr (lf_result e) BX_LF_SIGN_BIT AND 1) LF_BIT_SD\<rparr>;
         temp_pdb = 255 AND lf_result e;
         e = e\<lparr>lf_auxbits := lf_auxbits e XOR shl temp_pdb LF_BIT_PDB\<rparr>
     in e\<lparr>lf_result := 0\<rparr>)"

definition set_ZF :: "Bit32u \<Rightarrow> bx_lazyflags_entry \<Rightarrow> bx_lazyflags_entry" where
  "set_ZF val e = (if val \<noteq> 0 then assert_ZF e else clear_ZF e)"

definition getB_AF :: "bx_lazyflags_entry \<Rightarrow> Bit32u" where
  "getB_AF e = shr (lf_auxbits e) LF_BIT_AF AND 1"

definition get_AF :: "bx_lazyflags_entry \<Rightarrow> Bit32u" where
  "get_AF e = lf_auxbits e AND LF_MASK_AF"

definition set_AF :: "Bit32u \<Rightarrow> bx_lazyflags_entry \<Rightarrow> bx_lazyflags_entry" where
  "set_AF val e =
    (let aux = lf_auxbits e AND NOT LF_MASK_AF
     in e\<lparr>lf_auxbits := aux OR shl val LF_BIT_AF\<rparr>)"

definition clear_AF :: "bx_lazyflags_entry \<Rightarrow> bx_lazyflags_entry" where
  "clear_AF e = e\<lparr>lf_auxbits := lf_auxbits e AND NOT LF_MASK_AF\<rparr>"

definition assert_AF :: "bx_lazyflags_entry \<Rightarrow> bx_lazyflags_entry" where
  "assert_AF e = e\<lparr>lf_auxbits := lf_auxbits e OR LF_MASK_AF\<rparr>"

definition getB_PF :: "bx_lazyflags_entry \<Rightarrow> Bit32u" where
  "getB_PF e =
    (let temp = 255 AND lf_result e;
         temp = temp XOR (255 AND shr (lf_auxbits e) LF_BIT_PDB);
         temp = (temp XOR shr temp 4) AND 0x0F
     in shr 0x9669 (unat temp) AND 1)"

definition get_PF :: "bx_lazyflags_entry \<Rightarrow> Bit32u" where
  "get_PF e = getB_PF e"

definition set_PF :: "Bit32u \<Rightarrow> bx_lazyflags_entry \<Rightarrow> bx_lazyflags_entry" where
  "set_PF val e =
    (let temp_pdb = (255 AND lf_result e) XOR of_bool (val = 0);
         aux = lf_auxbits e AND NOT LF_MASK_PDB
     in e\<lparr>lf_auxbits := aux OR shl temp_pdb LF_BIT_PDB\<rparr>)"

definition clear_PF :: "bx_lazyflags_entry \<Rightarrow> bx_lazyflags_entry" where
  "clear_PF = set_PF 0"

definition assert_PF :: "bx_lazyflags_entry \<Rightarrow> bx_lazyflags_entry" where
  "assert_PF = set_PF 1"

section \<open>The accessors on the level of bits\<close>


lemma nibble_bits:
  fixes w :: "32 word"
  shows "unat (w AND 0xF) = of_bool (bit w 0) + 2 * of_bool (bit w 1) + 4 * of_bool (bit w 2) + 8 * of_bool (bit w 3)"
proof -
  have "w AND 0xF = take_bit 4 w"
    by (simp add: take_bit_eq_mask mask_eq_exp_minus_1)
  then have m: "unat (w AND 0xF) = take_bit 4 (unat w)"
    by (simp add: unsigned_take_bit_eq)
  have b: "bit (unat w) n = bit w n" for n
    by (simp add: bit_unsigned_iff)
  have s: "take_bit 4 (unat w) = 8 * of_bool (bit w 3) + take_bit 3 (unat w)"
          "take_bit 3 (unat w) = 4 * of_bool (bit w 2) + take_bit 2 (unat w)"
          "take_bit 2 (unat w) = 2 * of_bool (bit w 1) + take_bit 1 (unat w)"
          "take_bit 1 (unat w) = of_bool (bit w 0)"
    using take_bit_Suc_from_most [of 3 "unat w"] take_bit_Suc_from_most [of 2 "unat w"]
      take_bit_Suc_from_most [of 1 "unat w"] take_bit_Suc_from_most [of 0 "unat w"]
    unfolding b by (simp_all add: eval_nat_numeral)
  show ?thesis
    unfolding m s by (simp only: ac_simps)
qed

lemma parity_table:
  fixes w :: "32 word"
  shows "shr (0x9669 :: 32 word) (unat (w AND 0xF)) AND 1 =
    of_bool ((bit w 0 = bit w 1) = (bit w 2 = bit w 3))"
  unfolding nibble_bits
  by (cases "bit w 0"; cases "bit w 1"; cases "bit w 2"; cases "bit w 3") simp_all

definition odd_parity_at :: "Bit32u \<Rightarrow> nat \<Rightarrow> bool" where
  "odd_parity_at w k = odd (length (filter (bit w) [k..<k + 8]))"

lemma odd_parity_at_bits:
  "odd_parity_at w k =
    (((bit w k \<noteq> bit w (k + 1)) \<noteq> (bit w (k + 2) \<noteq> bit w (k + 3))) \<noteq>
     ((bit w (k + 4) \<noteq> bit w (k + 5)) \<noteq> (bit w (k + 6) \<noteq> bit w (k + 7))))"
proof -
  have "[k..<k + 8] = [k, k + 1, k + 2, k + 3, k + 4, k + 5, k + 6, k + 7]"
    by (simp add: upt_rec)
  then show ?thesis
    by (auto simp: odd_parity_at_def)
qed

lemma carry_top2:
  fixes a :: "32 word"
  shows "bit (a + 0x40000000) 31 \<longleftrightarrow> bit a 31 \<noteq> bit a 30"
proof -
  have "bit (a + 0x40000000) 31 = bit (uint a + 0x40000000) 31"
    using bit_word_add [of a "0x40000000" False 31] by simp
  also have "\<dots> = (bit (uint a) 31 \<noteq> (2 ^ 31 \<le> take_bit 31 (uint a) + 2 ^ 30))"
    using int_sum_bit [of "uint a" "0x40000000" False 31] by (simp add: take_bit_eq_mod)
  also have "(2 ^ 31 \<le> take_bit 31 (uint a) + 2 ^ 30) = (2 ^ 30 \<le> take_bit 31 (uint a))"
    by simp
  also have "\<dots> = bit (uint a) 30"
    using bit_take_bit_split [of "uint a" 30] by simp
  finally show ?thesis
    by (simp only: bit_word_uint)
qed

lemma getB_CF_bit: "getB_CF e = of_bool (bit (lf_auxbits e) 31)"
  by (simp add: getB_CF_def lf_bits bit_and_one bit_simps)

lemma getB_OF_bit: "getB_OF e = of_bool (bit (lf_auxbits e) 31 \<noteq> bit (lf_auxbits e) 30)"
  by (simp add: getB_OF_def lf_bits bit_and_one bit_simps carry_top2)

lemma getB_SF_bit: "getB_SF e = of_bool (bit (lf_result e) 31 \<noteq> bit (lf_auxbits e) 0)"
  by (simp add: getB_SF_def lf_bits bit_and_one bit_simps)

lemma getB_AF_bit: "getB_AF e = of_bool (bit (lf_auxbits e) 3)"
  by (simp add: getB_AF_def lf_bits bit_and_one bit_simps)

lemma bit_255: "bit (255 :: 32 word) n \<longleftrightarrow> n < 8"
proof -
  have m: "(255 :: 32 word) = mask 8" by (simp add: mask_eq_exp_minus_1)
  show ?thesis unfolding m by (simp only: bit_mask_iff min_less_iff_conj len_num1 possible_bit_def) auto
qed

lemma bit_255_int: "bit (255 :: int) n \<longleftrightarrow> n < 8"
proof -
  have m: "(255 :: int) = mask 8" by (simp add: mask_eq_exp_minus_1)
  show ?thesis unfolding m by (simp only: bit_mask_iff possible_bit_int simp_thms)
qed

lemma bit_255_nat: "bit (255 :: nat) n \<longleftrightarrow> n < 8"
proof -
  have m: "(255 :: nat) = mask 8" by (simp add: mask_eq_exp_minus_1)
  show ?thesis unfolding m by (simp only: bit_mask_iff possible_bit_nat simp_thms)
qed

lemmas bit_255s = bit_255 bit_255_int bit_255_nat

lemma getB_PF_bit:
  "getB_PF e = of_bool (odd_parity_at (lf_result e) 0 = odd_parity_at (lf_auxbits e) 8)"
proof -
  let ?t = "(255 AND lf_result e) XOR (255 AND shr (lf_auxbits e) 8)"
  have b: "bit ?t n \<longleftrightarrow> n < 8 \<and> (bit (lf_result e) n \<noteq> bit (lf_auxbits e) (n + 8))" for n
    unfolding bit_xor_iff bit_and_iff bit_255 bit_drop_bit_eq o_def by (auto simp: ac_simps)
  have x: "bit (?t XOR shr ?t 4) n \<longleftrightarrow> bit ?t n \<noteq> bit ?t (n + 4)" for n
    by (rule bit_xor_shr)
  have "getB_PF e = shr 0x9669 (unat ((?t XOR shr ?t 4) AND 0xF)) AND 1"
    by (simp add: getB_PF_def Let_def lf_bits)
  also have "\<dots> = of_bool (odd_parity_at (lf_result e) 0 = odd_parity_at (lf_auxbits e) 8)"
    unfolding parity_table odd_parity_at_bits x b
    by (rule arg_cong [where f = of_bool])
       (simp flip: numeral_2_eq_2, simp only: bool_xor_ac)
  finally show ?thesis .
qed

lemmas lf_getters = getB_CF_bit getB_OF_bit getB_SF_bit getB_AF_bit getB_PF_bit getB_ZF_def

lemma of_bool_and_1 [simp]: "of_bool b AND (1 :: Bit32u) = of_bool b"
  by (cases b) simp_all

lemma bit_masks:
  "bit LF_MASK_SD n \<longleftrightarrow> n = 0" "bit LF_MASK_AF n \<longleftrightarrow> n = 3"
  "bit LF_MASK_CF n \<longleftrightarrow> n = 31" "bit LF_MASK_PO n \<longleftrightarrow> n = 30"
  "bit LF_MASK_PDB n \<longleftrightarrow> 8 \<le> n \<and> n < 16"
  unfolding lf_masks lf_bits bit_push_bit_iff bit_255 by (auto simp: bit_1_iff)

lemma bit_of_bool_word: "bit (of_bool b :: Bit32u) n \<longleftrightarrow> b \<and> n = 0"
  by (cases b) (simp_all add: bit_1_iff)

lemma aux_set_flags_OxxxxC:
  "bit (lf_auxbits (set_flags_OxxxxC (of_bool p) (of_bool q) e)) n \<longleftrightarrow>
    (if n = 31 then q else if n = 30 then p \<noteq> q else bit (lf_auxbits e) n)"
  using bit_imp_le_length [of "lf_auxbits e" n]
  by (auto simp: set_flags_OxxxxC_def Let_def bit_or_iff bit_and_iff bit_not_iff bit_masks
      lf_bits bit_push_bit_iff bit_xor_iff bit_of_bool_word)

lemma result_set_flags_OxxxxC [simp]: "lf_result (set_flags_OxxxxC p q e) = lf_result e"
  by (simp add: set_flags_OxxxxC_def Let_def)

lemma aux_set_SF:
  "bit (lf_auxbits (set_SF (of_bool v) e)) n \<longleftrightarrow>
    (if n = 0 then bit (lf_result e) 31 \<noteq> v else bit (lf_auxbits e) n)"
  by (auto simp: set_SF_def Let_def bit_xor_iff getB_SF_bit lf_bits bit_of_bool_word
      bit_push_bit_iff)

lemma aux_set_AF:
  "bit (lf_auxbits (set_AF (of_bool v) e)) n \<longleftrightarrow>
    (if n = 3 then v else bit (lf_auxbits e) n)"
  by (auto simp: set_AF_def Let_def bit_or_iff bit_and_iff bit_not_iff bit_masks
      lf_bits bit_push_bit_iff bit_of_bool_word dest: bit_imp_le_length)

lemma aux_set_PF:
  "bit (lf_auxbits (set_PF (of_bool v) e)) n \<longleftrightarrow>
    (if 8 \<le> n \<and> n < 16 then bit (lf_result e) (n - 8) \<noteq> (n = 8 \<and> \<not> v)
     else bit (lf_auxbits e) n)"
  by (auto simp: set_PF_def Let_def bit_or_iff bit_and_iff bit_not_iff bit_masks bit_xor_iff
      lf_bits bit_push_bit_iff bit_of_bool_word bit_255s simp del: push_bit_and dest: bit_imp_le_length)

lemma aux_assert_ZF:
  "bit (lf_auxbits (assert_ZF e)) n \<longleftrightarrow>
    (if n = 0 then bit (lf_auxbits e) 0 \<noteq> bit (lf_result e) 31
     else if 8 \<le> n \<and> n < 16 then bit (lf_auxbits e) n \<noteq> bit (lf_result e) (n - 8)
     else bit (lf_auxbits e) n)"
  by (auto simp: assert_ZF_def Let_def bit_xor_iff bit_and_iff lf_bits bit_push_bit_iff
      bit_drop_bit_eq bit_255s bit_and_one bit_of_bool_word simp del: push_bit_and dest: bit_imp_le_length)


section \<open>The six flags as storage\<close>


datatype eflag = Carry | Parity | Adjust | Zero | Sign | Overflow

fun lf_get :: "eflag \<Rightarrow> bx_lazyflags_entry \<Rightarrow> bool" where
  "lf_get Carry e = (getB_CF e \<noteq> 0)"
| "lf_get Parity e = (getB_PF e \<noteq> 0)"
| "lf_get Adjust e = (getB_AF e \<noteq> 0)"
| "lf_get Zero e = (getB_ZF e \<noteq> 0)"
| "lf_get Sign e = (getB_SF e \<noteq> 0)"
| "lf_get Overflow e = (getB_OF e \<noteq> 0)"

fun lf_put :: "eflag \<Rightarrow> bool \<Rightarrow> bx_lazyflags_entry \<Rightarrow> bx_lazyflags_entry" where
  "lf_put Carry v e = set_CF (of_bool v) e"
| "lf_put Parity v e = set_PF (of_bool v) e"
| "lf_put Adjust v e = set_AF (of_bool v) e"
| "lf_put Zero v e = set_ZF (of_bool v) e"
| "lf_put Sign v e = set_SF (of_bool v) e"
| "lf_put Overflow v e = set_OF (of_bool v) e"

lemma result_setters [simp]:
  "lf_result (set_OF v e) = lf_result e" "lf_result (set_CF v e) = lf_result e"
  "lf_result (set_SF v e) = lf_result e" "lf_result (set_AF v e) = lf_result e"
  "lf_result (set_PF v e) = lf_result e" "lf_result (assert_ZF e) = 0"
  "lf_result (clear_ZF e) = lf_result e OR 256" "lf_auxbits (clear_ZF e) = lf_auxbits e"
  by (simp_all add: set_OF_def set_CF_def set_SF_def set_AF_def set_PF_def assert_ZF_def
      clear_ZF_def Let_def)

lemma aux_set_OF:
  "bit (lf_auxbits (set_OF (of_bool v) e)) n \<longleftrightarrow>
    (if n = 30 then v \<noteq> bit (lf_auxbits e) 31 else bit (lf_auxbits e) n)"
  by (auto simp: set_OF_def Let_def getB_CF_bit aux_set_flags_OxxxxC)

lemma aux_set_CF:
  "bit (lf_auxbits (set_CF (of_bool v) e)) n \<longleftrightarrow>
    (if n = 31 then v
     else if n = 30 then (bit (lf_auxbits e) 31 \<noteq> bit (lf_auxbits e) 30) \<noteq> v
     else bit (lf_auxbits e) n)"
  by (auto simp: set_CF_def Let_def getB_OF_bit aux_set_flags_OxxxxC)

lemma bit_256: "bit (256 :: Bit32u) n \<longleftrightarrow> n = 8"
proof -
  have "(256 :: Bit32u) = 2 ^ 8" by simp
  then show ?thesis by (simp only: bit_exp_iff) (auto)
qed

lemma bit_256_int: "bit (256 :: int) n \<longleftrightarrow> n = 8"
proof -
  have "(256 :: int) = 2 ^ 8" by simp
  then show ?thesis by (simp only: bit_exp_iff) (auto)
qed

lemma or_256_nonzero: "w OR 256 \<noteq> (0 :: Bit32u)"
proof
  assume "w OR 256 = 0"
  then have "bit (w OR 256) 8 = bit (0 :: Bit32u) 8" by simp
  then show False by (simp add: bit_or_iff bit_256)
qed

lemma parity_after_PF:
  "odd_parity_at (lf_auxbits (set_PF (of_bool v) e)) 8 \<longleftrightarrow>
    odd_parity_at (lf_result e) 0 \<noteq> (\<not> v)"
  unfolding odd_parity_at_bits
  by (simp add: aux_set_PF flip: numeral_2_eq_2, simp only: bool_xor_ac)

lemma parity_after_assert_ZF:
  "odd_parity_at (lf_auxbits (assert_ZF e)) 8 \<longleftrightarrow>
    odd_parity_at (lf_auxbits e) 8 \<noteq> odd_parity_at (lf_result e) 0"
  unfolding odd_parity_at_bits
  by (simp add: aux_assert_ZF flip: numeral_2_eq_2, simp only: bool_xor_ac)

lemma odd_parity_cong:
  assumes "\<And>n. k \<le> n \<Longrightarrow> n < k + 8 \<Longrightarrow> bit v n = bit w n"
  shows "odd_parity_at v k = odd_parity_at w k"
  using assms by (simp add: odd_parity_at_bits)

lemma parity_unaffected:
  "odd_parity_at (lf_auxbits (set_OF (of_bool v) e)) 8 = odd_parity_at (lf_auxbits e) 8"
  "odd_parity_at (lf_auxbits (set_CF (of_bool v) e)) 8 = odd_parity_at (lf_auxbits e) 8"
  "odd_parity_at (lf_auxbits (set_AF (of_bool v) e)) 8 = odd_parity_at (lf_auxbits e) 8"
  "odd_parity_at (lf_auxbits (set_SF (of_bool v) e)) 8 = odd_parity_at (lf_auxbits e) 8"
  "odd_parity_at (lf_result e OR 256) 0 = odd_parity_at (lf_result e) 0"
  by (rule odd_parity_cong; simp add: aux_set_OF aux_set_CF aux_set_AF aux_set_SF bit_or_iff bit_256_int)+

lemma odd_parity_0 [simp]: "\<not> odd_parity_at 0 k"
  by (simp add: odd_parity_at_def)

lemma set_ZF_of_bool: "set_ZF (of_bool v) e = (if v then assert_ZF e else clear_ZF e)"
  by (simp add: set_ZF_def)

lemmas aux_setters = aux_set_OF aux_set_CF aux_set_SF aux_set_AF aux_set_PF aux_assert_ZF
  parity_after_PF parity_after_assert_ZF parity_unaffected or_256_nonzero set_ZF_of_bool

lemma lf_get_put: "lf_get f (lf_put g v e) = (if f = g then v else lf_get f e)"
  by (cases f; cases g; simp add: lf_getters aux_setters bit_or_iff bit_256 bit_256_int; blast)

lemma parity_set_flags_OxxxxC:
  "odd_parity_at (lf_auxbits (set_flags_OxxxxC (of_bool p) (of_bool q) e)) 8 =
    odd_parity_at (lf_auxbits e) 8"
  by (rule odd_parity_cong) (simp add: aux_set_flags_OxxxxC)

lemma lf_get_set_OC:
  "lf_get f (set_flags_OxxxxC (of_bool p) (of_bool q) e) =
    (if f = Carry then q else if f = Overflow then p else lf_get f e)"
  by (cases f) (auto simp: lf_getters aux_set_flags_OxxxxC parity_set_flags_OxxxxC)

lemma lf_get_assert_OC:
  "lf_get f (assert_flags_OxxxxC e) = (f = Carry \<or> f = Overflow \<or> lf_get f e)"
  using lf_get_set_OC [of f True True e] by (simp add: assert_flags_OxxxxC_def)

section \<open>Setting all flags after an operation\<close>


definition ADD_COUT_VEC :: "'a::len word \<Rightarrow> 'a word \<Rightarrow> 'a word \<Rightarrow> 'a word" where
  "ADD_COUT_VEC op1 op2 result = (op1 AND op2) OR ((op1 OR op2) AND NOT result)"

definition SUB_COUT_VEC :: "'a::len word \<Rightarrow> 'a word \<Rightarrow> 'a word \<Rightarrow> 'a word" where
  "SUB_COUT_VEC op1 op2 result = (NOT op1 AND op2) OR ((NOT op1 XOR op2) AND result)"

definition GET_ADD_OVERFLOW :: "'a::len word \<Rightarrow> 'a word \<Rightarrow> 'a word \<Rightarrow> 'a word \<Rightarrow> 'a word" where
  "GET_ADD_OVERFLOW op1 op2 result m = ((op1 XOR result) AND (op2 XOR result)) AND m"

text \<open>
  The macro is expanded for \<open>size\<close> 8, 16 and 32; the cast \<open>(Bit##size##s)\<close> keeps the
  low \<open>size\<close> bits and sign-extends.
\<close>

definition lf_aux_of_carries :: "nat \<Rightarrow> Bit32u \<Rightarrow> Bit32u" where
  "lf_aux_of_carries sz lf_carries =
    (let temp = (lf_carries AND LF_MASK_AF) OR shl (shr lf_carries (sz - 2)) LF_BIT_PO;
         temp = (if sz = 32 then lf_carries AND NOT (LF_MASK_PDB OR LF_MASK_SD) else temp);
         temp = (if sz = 16 then (lf_carries AND LF_MASK_AF) OR shl lf_carries 16 else temp);
         temp = (if sz = 8 then (lf_carries AND LF_MASK_AF) OR shl lf_carries 24 else temp)
     in temp)"

definition SET_FLAGS_OSZAPC_SIZE :: "nat \<Rightarrow> Bit32u \<Rightarrow> Bit32u \<Rightarrow> bx_lazyflags_entry \<Rightarrow> bx_lazyflags_entry" where
  "SET_FLAGS_OSZAPC_SIZE sz lf_carries res e =
    e\<lparr>lf_result := signed_take_bit (sz - 1) res,
      lf_auxbits := lf_aux_of_carries sz lf_carries\<rparr>"

definition SET_FLAGS_OSZAP_SIZE :: "nat \<Rightarrow> Bit32u \<Rightarrow> Bit32u \<Rightarrow> bx_lazyflags_entry \<Rightarrow> bx_lazyflags_entry" where
  "SET_FLAGS_OSZAP_SIZE sz lf_carries res e =
    (let temp = lf_aux_of_carries sz lf_carries;
         delta_c = (lf_auxbits e XOR temp) AND LF_MASK_CF;
         delta_c = delta_c XOR shr delta_c 1
     in e\<lparr>lf_result := signed_take_bit (sz - 1) res, lf_auxbits := temp XOR delta_c\<rparr>)"

definition SET_FLAGS_OSZAxC_LOGIC_SIZE :: "nat \<Rightarrow> Bit32u \<Rightarrow> bx_lazyflags_entry \<Rightarrow> bx_lazyflags_entry" where
  "SET_FLAGS_OSZAxC_LOGIC_SIZE sz res e =
    (let saved_PF = getB_PF e in set_PF saved_PF (SET_FLAGS_OSZAPC_SIZE sz 0 res e))"

fun ref_add :: "'n::len word \<Rightarrow> 'n word \<Rightarrow> bool \<Rightarrow> eflag \<Rightarrow> bool" where
  "ref_add x y c Carry = (2 ^ LENGTH('n) \<le> uint x + uint y + of_bool c)"
| "ref_add x y c Parity = even (length (filter (bit (x + y + of_bool c)) [0..<8]))"
| "ref_add x y c Adjust = (16 \<le> uint (x AND 15) + uint (y AND 15) + of_bool c)"
| "ref_add x y c Zero = (x + y + of_bool c = 0)"
| "ref_add x y c Sign = (sint (x + y + of_bool c) < 0)"
| "ref_add x y c Overflow =
    (sint x + sint y + of_bool c < - (2 ^ (LENGTH('n) - 1)) \<or>
     2 ^ (LENGTH('n) - 1) \<le> sint x + sint y + of_bool c)"

fun ref_sub :: "'n::len word \<Rightarrow> 'n word \<Rightarrow> bool \<Rightarrow> eflag \<Rightarrow> bool" where
  "ref_sub x y c Carry = (uint x < uint y + of_bool c)"
| "ref_sub x y c Parity = even (length (filter (bit (x - y - of_bool c)) [0..<8]))"
| "ref_sub x y c Adjust = (uint (x AND 15) < uint (y AND 15) + of_bool c)"
| "ref_sub x y c Zero = (x - y - of_bool c = 0)"
| "ref_sub x y c Sign = (sint (x - y - of_bool c) < 0)"
| "ref_sub x y c Overflow =
    (sint x - sint y - of_bool c < - (2 ^ (LENGTH('n) - 1)) \<or>
     2 ^ (LENGTH('n) - 1) \<le> sint x - sint y - of_bool c)"

fun ref_logic :: "'n::len word \<Rightarrow> eflag \<Rightarrow> bool" where
  "ref_logic r Parity = even (length (filter (bit r) [0..<8]))"
| "ref_logic r Zero = (r = 0)"
| "ref_logic r Sign = (sint r < 0)"
| "ref_logic r _ = False"

lemma bit_aux_of_carries:
  assumes "N \<in> {8, 16, 32}"
  shows "bit (lf_aux_of_carries N v) 31 = bit v (N - 1)"
    "bit (lf_aux_of_carries N v) 30 = bit v (N - 2)"
    "bit (lf_aux_of_carries N v) 3 = bit v 3"
    "bit (lf_aux_of_carries N v) 0 = False"
    "8 \<le> n \<Longrightarrow> n < 16 \<Longrightarrow> bit (lf_aux_of_carries N v) n = False"
  using assms
  by (auto simp: lf_aux_of_carries_def Let_def bit_or_iff bit_and_iff bit_not_iff bit_masks
      bit_push_bit_iff)

lemma aux_parity_of_carries:
  assumes "N \<in> {8, 16, 32}"
  shows "\<not> odd_parity_at (lf_aux_of_carries N v) 8"
  using odd_parity_cong [of 8 "lf_aux_of_carries N v" 0] bit_aux_of_carries(5) [OF assms]
  by (simp)

lemma bit_ucast_lt:
  fixes r :: Bit32u
  assumes "ucast r = (x :: 'n::len word)" and "LENGTH('n) \<le> 32" and "n < LENGTH('n)"
  shows "bit r n = bit x n"
  using assms by (auto simp: bit_ucast_iff)

lemma result_bit:
  fixes r :: Bit32u
  assumes "ucast r = (x :: 'n::len word)" and "LENGTH('n) \<le> 32" "n < 32"
  shows "bit (signed_take_bit (LENGTH('n) - 1) r) n = bit x (min n (LENGTH('n) - 1))"
proof -
  have "min n (LENGTH('n) - 1) < LENGTH('n)"
    by (simp add: min_less_iff_disj)
  with assms show ?thesis
    by (simp add: bit_signed_take_bit_iff min.commute bit_ucast_lt [OF assms(1,2)])
qed

lemma result_zero:
  fixes r :: Bit32u
  assumes "ucast r = (x :: 'n::len word)" and "LENGTH('n) \<le> 32"
  shows "signed_take_bit (LENGTH('n) - 1) r = 0 \<longleftrightarrow> x = 0"
proof
  assume z: "signed_take_bit (LENGTH('n) - 1) r = 0"
  show "x = 0"
  proof (rule bit_word_eqI)
    fix n assume "n < LENGTH('n)"
    with result_bit [OF assms, of n] z assms(2) show "bit x n = bit 0 n"
      by (simp add: min_def split: if_splits)
  qed
next
  assume "x = 0"
  show "signed_take_bit (LENGTH('n) - 1) r = 0"
    by (rule bit_word_eqI) (use result_bit [OF assms] \<open>x = 0\<close> in simp)
qed

lemma sign_bit: "sint x < 0 \<longleftrightarrow> bit x (LENGTH('n) - 1)" for x :: "'n::len word"
  by (simp add: sint_uint bit_word_uint)  


section \<open>The recomputed flags are the reference flags\<close>


lemma take_bit_uint_len [simp]: "take_bit LENGTH('n) (uint x) = uint x" for x :: "'n::len word"
  by (simp add: take_bit_eq_mod)

lemma sint_signed_take_bit: "sint x = signed_take_bit (LENGTH('n) - 1) (uint x)" for x :: "'n::len word"
  by (simp add: sint_uint)

lemma bit_15_int: "bit (15 :: int) n \<longleftrightarrow> n < 4"
proof -
  have m: "(15 :: int) = mask 4" by (simp add: mask_eq_exp_minus_1)
  show ?thesis unfolding m by (simp only: bit_mask_iff possible_bit_int simp_thms)
qed

lemma uint_and_15: "uint (x AND 15) = take_bit 4 (uint x)" for x :: "'n::len word"
proof (rule bit_eqI)
  fix n
  show "bit (uint (x AND 15)) n = bit (take_bit 4 (uint x)) n"
    using bit_imp_le_length [of x n]
    by (auto simp: bit_take_bit_iff bit_and_iff bit_15_int simp flip: bit_word_uint)
qed

lemma add_carry_bit:
  fixes a b r :: Bit32u and x y :: "'n::len word"
  assumes "ucast a = x" "ucast b = y" "ucast r = x + y + of_bool c"
    and len: "LENGTH('n) \<le> 32" and n: "n < LENGTH('n)"
  shows "bit (ADD_COUT_VEC a b r) n \<longleftrightarrow>
    2 ^ Suc n \<le> take_bit (Suc n) (uint x) + take_bit (Suc n) (uint y) + of_bool c"
proof -
  have r: "bit r n \<longleftrightarrow> bit (uint x + uint y + of_bool c) n"
    using bit_ucast_lt [OF assms(3) len n] n by (simp add: bit_word_add)
  have "bit (ADD_COUT_VEC a b r) n \<longleftrightarrow> (bit (uint x) n \<and> bit (uint y) n) \<or>
      ((bit (uint x) n \<or> bit (uint y) n) \<and> \<not> bit r n)"
    using n len by (simp add: ADD_COUT_VEC_def bit_or_iff bit_and_iff bit_not_iff
        bit_ucast_lt [OF assms(1) len n] bit_ucast_lt [OF assms(2) len n] flip: bit_word_uint)
  then show ?thesis
    by (simp only: carry_out_int [OF r])
qed

lemma sub_borrow_bit:
  fixes a b r :: Bit32u and x y :: "'n::len word"
  assumes "ucast a = x" "ucast b = y" "ucast r = x - y - of_bool c"
    and len: "LENGTH('n) \<le> 32" and n: "n < LENGTH('n)"
  shows "bit (SUB_COUT_VEC a b r) n \<longleftrightarrow>
    take_bit (Suc n) (uint x) < take_bit (Suc n) (uint y) + of_bool c"
proof -
  have r: "bit r n \<longleftrightarrow> bit (uint x - uint y - of_bool c) n"
    using bit_ucast_lt [OF assms(3) len n] n by (simp add: bit_word_sub)
  have "bit (SUB_COUT_VEC a b r) n \<longleftrightarrow> (\<not> bit (uint x) n \<and> bit (uint y) n) \<or>
      ((\<not> bit (uint x) n) \<noteq> bit (uint y) n) \<and> bit r n"
    using n len by (simp add: SUB_COUT_VEC_def bit_or_iff bit_and_iff bit_not_iff bit_xor_iff
        bit_ucast_lt [OF assms(1) len n] bit_ucast_lt [OF assms(2) len n] flip: bit_word_uint)
  then show ?thesis
    by (simp only: borrow_out_int [OF r])
qed

lemma lf_get_SIZE:
  fixes r v :: Bit32u and x :: "'n::len word" and e :: bx_lazyflags_entry
  assumes N: "LENGTH('n) \<in> {8, 16, 32}" and r: "ucast r = x"
  defines "e' \<equiv> SET_FLAGS_OSZAPC_SIZE LENGTH('n) v r e"
  shows "lf_get Carry e' \<longleftrightarrow> bit v (LENGTH('n) - 1)"
    and "lf_get Overflow e' \<longleftrightarrow> bit v (LENGTH('n) - 1) \<noteq> bit v (LENGTH('n) - 2)"
    and "lf_get Adjust e' \<longleftrightarrow> bit v 3"
    and "lf_get Zero e' \<longleftrightarrow> x = 0"
    and "lf_get Sign e' \<longleftrightarrow> sint x < 0"
    and "lf_get Parity e' \<longleftrightarrow> even (length (filter (bit x) [0..<8]))"
proof -
  have len: "LENGTH('n) \<le> 32" "8 \<le> LENGTH('n)" using N by auto
  note b = bit_aux_of_carries [OF N] aux_parity_of_carries [OF N]
  show "lf_get Carry e' \<longleftrightarrow> bit v (LENGTH('n) - 1)"
    and "lf_get Overflow e' \<longleftrightarrow> bit v (LENGTH('n) - 1) \<noteq> bit v (LENGTH('n) - 2)"
    and "lf_get Adjust e' \<longleftrightarrow> bit v 3"
    by (simp_all add: e'_def SET_FLAGS_OSZAPC_SIZE_def lf_getters b)
  show "lf_get Zero e' \<longleftrightarrow> x = 0"
    using result_zero [OF r len(1)]
    by (auto simp: e'_def SET_FLAGS_OSZAPC_SIZE_def lf_getters)
  show "lf_get Sign e' \<longleftrightarrow> sint x < 0"
    using result_bit [OF r len(1), of 31] min_absorb2 [of "LENGTH('n) - 1" 31] len
    by (simp add: e'_def SET_FLAGS_OSZAPC_SIZE_def lf_getters b sign_bit)
  have "odd_parity_at (signed_take_bit (LENGTH('n) - 1) r) 0 = odd (length (filter (bit x) [0..<8]))"
    unfolding odd_parity_at_def
    by (rule arg_cong [where f = "\<lambda>xs. odd (length xs)"], rule filter_cong)
       (use result_bit [OF r len(1)] len in \<open>auto simp: min_def\<close>)
  then show "lf_get Parity e' \<longleftrightarrow> even (length (filter (bit x) [0..<8]))"
    by (simp add: e'_def SET_FLAGS_OSZAPC_SIZE_def lf_getters b)
qed

lemma SIZE_ADD_ref:
  fixes a b r :: Bit32u and x y :: "'n::len word"
  assumes N: "LENGTH('n) \<in> {8, 16, 32}"
    and abr: "ucast a = x" "ucast b = y" "ucast r = x + y + of_bool c"
  shows "lf_get f (SET_FLAGS_OSZAPC_SIZE LENGTH('n) (ADD_COUT_VEC a b r) r e) = ref_add x y c f"
proof -
  have len: "LENGTH('n) \<le> 32" "8 \<le> LENGTH('n)" using N by auto
  note g = lf_get_SIZE [OF N abr(3)] and k = add_carry_bit [OF abr len(1)]
  have s: "Suc (LENGTH('n) - 1) = LENGTH('n)" "Suc (LENGTH('n) - 2) = LENGTH('n) - 1"
    using len by simp_all
  show ?thesis
  proof (cases f)
    case Carry
    show ?thesis using k [of "LENGTH('n) - 1"] len unfolding Carry g s by simp
  next
    case Adjust
    show ?thesis using k [of 3] len unfolding Adjust g by (simp add: uint_and_15)
  next
    case Overflow
    have "bit (ADD_COUT_VEC a b r) (LENGTH('n) - 1) \<noteq> bit (ADD_COUT_VEC a b r) (LENGTH('n) - 2)
      \<longleftrightarrow> (2 ^ Suc (LENGTH('n) - 1) \<le> take_bit (Suc (LENGTH('n) - 1)) (uint x) +
             take_bit (Suc (LENGTH('n) - 1)) (uint y) + of_bool c) \<noteq>
          (2 ^ (LENGTH('n) - 1) \<le> take_bit (LENGTH('n) - 1) (uint x) +
             take_bit (LENGTH('n) - 1) (uint y) + of_bool c)"
      using k [of "LENGTH('n) - 1"] k [of "LENGTH('n) - 2"] len unfolding s by simp
    then show ?thesis
      unfolding Overflow g add_overflow_int ref_add.simps sint_signed_take_bit by (simp only:)
  qed (simp_all only: g ref_add.simps)
qed

lemma SIZE_SUB_ref:
  fixes a b r :: Bit32u and x y :: "'n::len word"
  assumes N: "LENGTH('n) \<in> {8, 16, 32}"
    and abr: "ucast a = x" "ucast b = y" "ucast r = x - y - of_bool c"
  shows "lf_get f (SET_FLAGS_OSZAPC_SIZE LENGTH('n) (SUB_COUT_VEC a b r) r e) = ref_sub x y c f"
proof -
  have len: "LENGTH('n) \<le> 32" "8 \<le> LENGTH('n)" using N by auto
  note g = lf_get_SIZE [OF N abr(3)] and k = sub_borrow_bit [OF abr len(1)]
  have s: "Suc (LENGTH('n) - 1) = LENGTH('n)" "Suc (LENGTH('n) - 2) = LENGTH('n) - 1"
    using len by simp_all
  show ?thesis
  proof (cases f)
    case Carry
    show ?thesis using k [of "LENGTH('n) - 1"] len unfolding Carry g s by simp
  next
    case Adjust
    show ?thesis using k [of 3] len unfolding Adjust g by (simp add: uint_and_15)
  next
    case Overflow
    have "bit (SUB_COUT_VEC a b r) (LENGTH('n) - 1) \<noteq> bit (SUB_COUT_VEC a b r) (LENGTH('n) - 2)
      \<longleftrightarrow> (take_bit (Suc (LENGTH('n) - 1)) (uint x) <
             take_bit (Suc (LENGTH('n) - 1)) (uint y) + of_bool c) \<noteq>
          (take_bit (LENGTH('n) - 1) (uint x) <
             take_bit (LENGTH('n) - 1) (uint y) + of_bool c)"
      using k [of "LENGTH('n) - 1"] k [of "LENGTH('n) - 2"] len unfolding s by simp
    then show ?thesis
      unfolding Overflow g sub_overflow_int ref_sub.simps sint_signed_take_bit by (simp only:)
  qed (simp_all only: g ref_sub.simps)
qed

lemma SIZE_LOGIC_ref:
  fixes r :: Bit32u and x :: "'n::len word"
  assumes N: "LENGTH('n) \<in> {8, 16, 32}" and r: "ucast r = x"
  shows "lf_get f (SET_FLAGS_OSZAPC_SIZE LENGTH('n) 0 r e) = ref_logic x f"
  by (cases f) (simp_all only: lf_get_SIZE [OF N r] ref_logic.simps bit_0_eq bot_apply bot_bool_def simp_thms)

lemma OSZAP_get:
  assumes N: "N \<in> {8, 16, 32}"
  shows "lf_get f (SET_FLAGS_OSZAP_SIZE N v r e) =
    (if f = Carry then lf_get Carry e else lf_get f (SET_FLAGS_OSZAPC_SIZE N v r e))"
proof -
  have d: "bit (lf_auxbits (SET_FLAGS_OSZAP_SIZE N v r e)) n =
    (if n = 31 then bit (lf_auxbits e) 31
     else if n = 30 then bit (lf_aux_of_carries N v) 30 \<noteq>
       (bit (lf_auxbits e) 31 \<noteq> bit (lf_aux_of_carries N v) 31)
     else bit (lf_aux_of_carries N v) n)" if "n < 32" for n
    using that
    by (auto simp: SET_FLAGS_OSZAP_SIZE_def Let_def bit_xor_iff bit_and_iff bit_masks bit_drop_bit_eq)
  have "odd_parity_at (lf_auxbits (SET_FLAGS_OSZAP_SIZE N v r e)) 8 =
      odd_parity_at (lf_aux_of_carries N v) 8"
    by (rule odd_parity_cong) (simp add: d)
  then show ?thesis
    by (cases f) (auto simp: lf_getters d SET_FLAGS_OSZAPC_SIZE_def,
        auto simp: SET_FLAGS_OSZAP_SIZE_def Let_def)
qed


section \<open>The macros at each operand size\<close>

definition SET_FLAGS_OSZAPC_8 :: "Bit32u \<Rightarrow> Bit32u \<Rightarrow> bx_lazyflags_entry \<Rightarrow> bx_lazyflags_entry" where
  "SET_FLAGS_OSZAPC_8 carries res = SET_FLAGS_OSZAPC_SIZE 8 carries res"

definition SET_FLAGS_OSZAPC_ADD_8 ::
  "Bit32u \<Rightarrow> Bit32u \<Rightarrow> Bit32u \<Rightarrow> bx_lazyflags_entry \<Rightarrow> bx_lazyflags_entry" where
  "SET_FLAGS_OSZAPC_ADD_8 op1 op2 res =
    SET_FLAGS_OSZAPC_8 (ADD_COUT_VEC op1 op2 res) res"

definition SET_FLAGS_OSZAPC_SUB_8 ::
  "Bit32u \<Rightarrow> Bit32u \<Rightarrow> Bit32u \<Rightarrow> bx_lazyflags_entry \<Rightarrow> bx_lazyflags_entry" where
  "SET_FLAGS_OSZAPC_SUB_8 op1 op2 diff =
    SET_FLAGS_OSZAPC_8 (SUB_COUT_VEC op1 op2 diff) diff"

definition SET_FLAGS_OSZAP_8 :: "Bit32u \<Rightarrow> Bit32u \<Rightarrow> bx_lazyflags_entry \<Rightarrow> bx_lazyflags_entry" where
  "SET_FLAGS_OSZAP_8 carries res = SET_FLAGS_OSZAP_SIZE 8 carries res"

definition SET_FLAGS_OSZAP_ADD_8 ::
  "Bit32u \<Rightarrow> Bit32u \<Rightarrow> Bit32u \<Rightarrow> bx_lazyflags_entry \<Rightarrow> bx_lazyflags_entry" where
  "SET_FLAGS_OSZAP_ADD_8 op1 op2 res =
    SET_FLAGS_OSZAP_8 (ADD_COUT_VEC op1 op2 res) res"

definition SET_FLAGS_OSZAP_SUB_8 ::
  "Bit32u \<Rightarrow> Bit32u \<Rightarrow> Bit32u \<Rightarrow> bx_lazyflags_entry \<Rightarrow> bx_lazyflags_entry" where
  "SET_FLAGS_OSZAP_SUB_8 op1 op2 diff =
    SET_FLAGS_OSZAP_8 (SUB_COUT_VEC op1 op2 diff) diff"

definition SET_FLAGS_OSZAPC_LOGIC_8 :: "Bit32u \<Rightarrow> bx_lazyflags_entry \<Rightarrow> bx_lazyflags_entry" where
  "SET_FLAGS_OSZAPC_LOGIC_8 res = SET_FLAGS_OSZAPC_8 0 res"

definition SET_FLAGS_OSZAPC_16 :: "Bit32u \<Rightarrow> Bit32u \<Rightarrow> bx_lazyflags_entry \<Rightarrow> bx_lazyflags_entry" where
  "SET_FLAGS_OSZAPC_16 carries res = SET_FLAGS_OSZAPC_SIZE 16 carries res"

definition SET_FLAGS_OSZAPC_ADD_16 ::
  "Bit32u \<Rightarrow> Bit32u \<Rightarrow> Bit32u \<Rightarrow> bx_lazyflags_entry \<Rightarrow> bx_lazyflags_entry" where
  "SET_FLAGS_OSZAPC_ADD_16 op1 op2 res =
    SET_FLAGS_OSZAPC_16 (ADD_COUT_VEC op1 op2 res) res"

definition SET_FLAGS_OSZAPC_SUB_16 ::
  "Bit32u \<Rightarrow> Bit32u \<Rightarrow> Bit32u \<Rightarrow> bx_lazyflags_entry \<Rightarrow> bx_lazyflags_entry" where
  "SET_FLAGS_OSZAPC_SUB_16 op1 op2 diff =
    SET_FLAGS_OSZAPC_16 (SUB_COUT_VEC op1 op2 diff) diff"

definition SET_FLAGS_OSZAP_16 :: "Bit32u \<Rightarrow> Bit32u \<Rightarrow> bx_lazyflags_entry \<Rightarrow> bx_lazyflags_entry" where
  "SET_FLAGS_OSZAP_16 carries res = SET_FLAGS_OSZAP_SIZE 16 carries res"

definition SET_FLAGS_OSZAP_ADD_16 ::
  "Bit32u \<Rightarrow> Bit32u \<Rightarrow> Bit32u \<Rightarrow> bx_lazyflags_entry \<Rightarrow> bx_lazyflags_entry" where
  "SET_FLAGS_OSZAP_ADD_16 op1 op2 res =
    SET_FLAGS_OSZAP_16 (ADD_COUT_VEC op1 op2 res) res"

definition SET_FLAGS_OSZAP_SUB_16 ::
  "Bit32u \<Rightarrow> Bit32u \<Rightarrow> Bit32u \<Rightarrow> bx_lazyflags_entry \<Rightarrow> bx_lazyflags_entry" where
  "SET_FLAGS_OSZAP_SUB_16 op1 op2 diff =
    SET_FLAGS_OSZAP_16 (SUB_COUT_VEC op1 op2 diff) diff"

definition SET_FLAGS_OSZAPC_LOGIC_16 :: "Bit32u \<Rightarrow> bx_lazyflags_entry \<Rightarrow> bx_lazyflags_entry" where
  "SET_FLAGS_OSZAPC_LOGIC_16 res = SET_FLAGS_OSZAPC_16 0 res"

definition SET_FLAGS_OSZAPC_32 :: "Bit32u \<Rightarrow> Bit32u \<Rightarrow> bx_lazyflags_entry \<Rightarrow> bx_lazyflags_entry" where
  "SET_FLAGS_OSZAPC_32 carries res = SET_FLAGS_OSZAPC_SIZE 32 carries res"

definition SET_FLAGS_OSZAPC_ADD_32 ::
  "Bit32u \<Rightarrow> Bit32u \<Rightarrow> Bit32u \<Rightarrow> bx_lazyflags_entry \<Rightarrow> bx_lazyflags_entry" where
  "SET_FLAGS_OSZAPC_ADD_32 op1 op2 res =
    SET_FLAGS_OSZAPC_32 (ADD_COUT_VEC op1 op2 res) res"

definition SET_FLAGS_OSZAPC_SUB_32 ::
  "Bit32u \<Rightarrow> Bit32u \<Rightarrow> Bit32u \<Rightarrow> bx_lazyflags_entry \<Rightarrow> bx_lazyflags_entry" where
  "SET_FLAGS_OSZAPC_SUB_32 op1 op2 diff =
    SET_FLAGS_OSZAPC_32 (SUB_COUT_VEC op1 op2 diff) diff"

definition SET_FLAGS_OSZAP_32 :: "Bit32u \<Rightarrow> Bit32u \<Rightarrow> bx_lazyflags_entry \<Rightarrow> bx_lazyflags_entry" where
  "SET_FLAGS_OSZAP_32 carries res = SET_FLAGS_OSZAP_SIZE 32 carries res"

definition SET_FLAGS_OSZAP_ADD_32 ::
  "Bit32u \<Rightarrow> Bit32u \<Rightarrow> Bit32u \<Rightarrow> bx_lazyflags_entry \<Rightarrow> bx_lazyflags_entry" where
  "SET_FLAGS_OSZAP_ADD_32 op1 op2 res =
    SET_FLAGS_OSZAP_32 (ADD_COUT_VEC op1 op2 res) res"

definition SET_FLAGS_OSZAP_SUB_32 ::
  "Bit32u \<Rightarrow> Bit32u \<Rightarrow> Bit32u \<Rightarrow> bx_lazyflags_entry \<Rightarrow> bx_lazyflags_entry" where
  "SET_FLAGS_OSZAP_SUB_32 op1 op2 diff =
    SET_FLAGS_OSZAP_32 (SUB_COUT_VEC op1 op2 diff) diff"

definition SET_FLAGS_OSZAPC_LOGIC_32 :: "Bit32u \<Rightarrow> bx_lazyflags_entry \<Rightarrow> bx_lazyflags_entry" where
  "SET_FLAGS_OSZAPC_LOGIC_32 res = SET_FLAGS_OSZAPC_32 0 res"

definition SET_FLAGS_OSZAxC_LOGIC_32 :: "Bit32u \<Rightarrow> bx_lazyflags_entry \<Rightarrow> bx_lazyflags_entry" where
  "SET_FLAGS_OSZAxC_LOGIC_32 res = SET_FLAGS_OSZAxC_LOGIC_SIZE 32 res"

lemmas flag_macros =
  SET_FLAGS_OSZAPC_8_def SET_FLAGS_OSZAPC_ADD_8_def SET_FLAGS_OSZAPC_SUB_8_def
  SET_FLAGS_OSZAP_8_def SET_FLAGS_OSZAP_ADD_8_def SET_FLAGS_OSZAP_SUB_8_def
  SET_FLAGS_OSZAPC_LOGIC_8_def SET_FLAGS_OSZAPC_16_def SET_FLAGS_OSZAPC_ADD_16_def
  SET_FLAGS_OSZAPC_SUB_16_def SET_FLAGS_OSZAP_16_def SET_FLAGS_OSZAP_ADD_16_def
  SET_FLAGS_OSZAP_SUB_16_def SET_FLAGS_OSZAPC_LOGIC_16_def SET_FLAGS_OSZAPC_32_def
  SET_FLAGS_OSZAPC_ADD_32_def SET_FLAGS_OSZAPC_SUB_32_def SET_FLAGS_OSZAP_32_def
  SET_FLAGS_OSZAP_ADD_32_def SET_FLAGS_OSZAP_SUB_32_def SET_FLAGS_OSZAPC_LOGIC_32_def

lemma ADD_8_ref:
  fixes a b r :: Bit32u and x y :: "8 word"
  assumes "ucast a = x" "ucast b = y" "ucast r = x + y + of_bool c"
  shows "lf_get f (SET_FLAGS_OSZAPC_ADD_8 a b r e) = ref_add x y c f"
    and "lf_get f (SET_FLAGS_OSZAP_ADD_8 a b r e) =
      (if f = Carry then lf_get Carry e else ref_add x y c f)"
  using SIZE_ADD_ref [OF _ assms, of f e] OSZAP_get [of 8 f _ r e]
  by (simp_all add: flag_macros)

lemma SUB_8_ref:
  fixes a b r :: Bit32u and x y :: "8 word"
  assumes "ucast a = x" "ucast b = y" "ucast r = x - y - of_bool c"
  shows "lf_get f (SET_FLAGS_OSZAPC_SUB_8 a b r e) = ref_sub x y c f"
    and "lf_get f (SET_FLAGS_OSZAP_SUB_8 a b r e) =
      (if f = Carry then lf_get Carry e else ref_sub x y c f)"
  using SIZE_SUB_ref [OF _ assms, of f e] OSZAP_get [of 8 f _ r e]
  by (simp_all add: flag_macros)

lemma LOGIC_8_ref:
  fixes r :: Bit32u and x :: "8 word"
  assumes "ucast r = x"
  shows "lf_get f (SET_FLAGS_OSZAPC_LOGIC_8 r e) = ref_logic x f"
  using SIZE_LOGIC_ref [OF _ assms, of f e] by (simp add: flag_macros)

lemma ADD_16_ref:
  fixes a b r :: Bit32u and x y :: "16 word"
  assumes "ucast a = x" "ucast b = y" "ucast r = x + y + of_bool c"
  shows "lf_get f (SET_FLAGS_OSZAPC_ADD_16 a b r e) = ref_add x y c f"
    and "lf_get f (SET_FLAGS_OSZAP_ADD_16 a b r e) =
      (if f = Carry then lf_get Carry e else ref_add x y c f)"
  using SIZE_ADD_ref [OF _ assms, of f e] OSZAP_get [of 16 f _ r e]
  by (simp_all add: flag_macros)

lemma SUB_16_ref:
  fixes a b r :: Bit32u and x y :: "16 word"
  assumes "ucast a = x" "ucast b = y" "ucast r = x - y - of_bool c"
  shows "lf_get f (SET_FLAGS_OSZAPC_SUB_16 a b r e) = ref_sub x y c f"
    and "lf_get f (SET_FLAGS_OSZAP_SUB_16 a b r e) =
      (if f = Carry then lf_get Carry e else ref_sub x y c f)"
  using SIZE_SUB_ref [OF _ assms, of f e] OSZAP_get [of 16 f _ r e]
  by (simp_all add: flag_macros)

lemma LOGIC_16_ref:
  fixes r :: Bit32u and x :: "16 word"
  assumes "ucast r = x"
  shows "lf_get f (SET_FLAGS_OSZAPC_LOGIC_16 r e) = ref_logic x f"
  using SIZE_LOGIC_ref [OF _ assms, of f e] by (simp add: flag_macros)

lemma ADD_32_ref:
  fixes a b r :: Bit32u and x y :: "32 word"
  assumes "ucast a = x" "ucast b = y" "ucast r = x + y + of_bool c"
  shows "lf_get f (SET_FLAGS_OSZAPC_ADD_32 a b r e) = ref_add x y c f"
    and "lf_get f (SET_FLAGS_OSZAP_ADD_32 a b r e) =
      (if f = Carry then lf_get Carry e else ref_add x y c f)"
  using SIZE_ADD_ref [OF _ assms, of f e] OSZAP_get [of 32 f _ r e]
  by (simp_all add: flag_macros)

lemma SUB_32_ref:
  fixes a b r :: Bit32u and x y :: "32 word"
  assumes "ucast a = x" "ucast b = y" "ucast r = x - y - of_bool c"
  shows "lf_get f (SET_FLAGS_OSZAPC_SUB_32 a b r e) = ref_sub x y c f"
    and "lf_get f (SET_FLAGS_OSZAP_SUB_32 a b r e) =
      (if f = Carry then lf_get Carry e else ref_sub x y c f)"
  using SIZE_SUB_ref [OF _ assms, of f e] OSZAP_get [of 32 f _ r e]
  by (simp_all add: flag_macros)

lemma LOGIC_32_ref:
  fixes r :: Bit32u and x :: "32 word"
  assumes "ucast r = x"
  shows "lf_get f (SET_FLAGS_OSZAPC_LOGIC_32 r e) = ref_logic x f"
  using SIZE_LOGIC_ref [OF _ assms, of f e] by (simp add: flag_macros)

section \<open>The flags as a bank of independent cells\<close>

text \<open>
  The interface the instruction handlers rely on: a flag reads back as written and no
  write disturbs another flag.
\<close>

locale flag_bank =
  fixes get :: "'f \<Rightarrow> 's \<Rightarrow> bool" and put :: "'f \<Rightarrow> bool \<Rightarrow> 's \<Rightarrow> 's"
  assumes get_put: "get f (put g v s) = (if f = g then v else get f s)"
begin

lemma put_commute: "f \<noteq> g \<Longrightarrow> get h (put f v (put g w s)) = get h (put g w (put f v s))"
  by (simp add: get_put)

lemma put_same: "get h (put f (get f s) s) = get h s"
  by (simp add: get_put)

lemma get_put_list:
  "get f (fold (\<lambda>(g, v). put g v) us s) =
    (case map_of (rev us) f of None \<Rightarrow> get f s | Some v \<Rightarrow> v)"
  by (induction us arbitrary: s)
     (auto simp: get_put map_add_def split: option.splits)

end

interpretation lazy: flag_bank lf_get lf_put
  by unfold_locales (rule lf_get_put)

declare lf_get.simps [simp del] lf_put.simps [simp del]

end
