(* ===== verification/Cpu_State.thy ===== *)
theory Cpu_State
  imports Lazy_Flags
begin

text \<open>
  The part of \<open>BX_CPU_C\<close> the arithmetic instructions work on: the eight general
  registers with the byte, word and dword views of the macros of cpu/cpu.h (the x86-32
  variants selected by config.h), the lazy flags, and the EFLAGS image that
  \<open>force_flags\<close> of cpu/flag_ctrl_pro.cc brings up to date; then the flag instructions
  of cpu/flag_ctrl.cc. The register views are shown to be independent cells (locale
  \<open>reg_file\<close>), the eight byte registers included, and reading EFLAGS after writing the
  arithmetic flags returns them.
\<close>

section \<open>State\<close>

record bx_cpu =
  gen_reg :: "nat \<Rightarrow> Bit32u"
  oszapc :: bx_lazyflags_entry
  eflags :: Bit32u

text \<open>Faults an instruction can raise here, with their error code.\<close>

datatype bx_exception = BX_DE_EXCEPTION nat

type_synonym cpu_result = "bx_exception + bx_cpu"

text \<open>
  The opcodes the shift handlers compare with, to choose between CL and the immediate as
  the count; \<open>BX_IA_OTHER\<close> stands for every other opcode.
\<close>

datatype bx_ia_opcode =
    BX_IA_SHLD_EdGd | BX_IA_SHRD_EdGd | BX_IA_ROL_Ed | BX_IA_ROR_Ed | BX_IA_RCL_Ed
  | BX_IA_RCR_Ed | BX_IA_SHL_Ed | BX_IA_SHR_Ed | BX_IA_SAR_Ed
  | BX_IA_SHLD_EwGw | BX_IA_SHRD_EwGw | BX_IA_ROL_Ew | BX_IA_ROR_Ew | BX_IA_RCL_Ew
  | BX_IA_RCR_Ew | BX_IA_SHL_Ew | BX_IA_SHR_Ew | BX_IA_SAR_Ew
  | BX_IA_ROL_Eb | BX_IA_ROR_Eb | BX_IA_RCL_Eb | BX_IA_RCR_Eb | BX_IA_SHL_Eb
  | BX_IA_SHR_Eb | BX_IA_SAR_Eb | BX_IA_OTHER

record bxInstruction =
  i_op :: bx_ia_opcode
  i_dst :: nat
  i_src :: nat
  i_Ib :: Bit8u
  i_Iw :: Bit16u
  i_Id :: Bit32u

section \<open>Register views\<close>

text \<open>\<open>word.byte.rl\<close>, \<open>word.byte.rh\<close>, \<open>word.rx\<close> of a register, read and written.\<close>

definition byte_rl :: "Bit32u \<Rightarrow> Bit8u" where "byte_rl w = ucast w"
definition byte_rh :: "Bit32u \<Rightarrow> Bit8u" where "byte_rh w = ucast (shr w 8)"
definition word_rx :: "Bit32u \<Rightarrow> Bit16u" where "word_rx w = ucast w"

definition put_rl :: "Bit8u \<Rightarrow> Bit32u \<Rightarrow> Bit32u" where
  "put_rl v w = (w AND NOT 0xFF) OR ucast v"
definition put_rh :: "Bit8u \<Rightarrow> Bit32u \<Rightarrow> Bit32u" where
  "put_rh v w = (w AND NOT 0xFF00) OR shl (ucast v) 8"
definition put_rx :: "Bit16u \<Rightarrow> Bit32u \<Rightarrow> Bit32u" where
  "put_rx v w = (w AND NOT 0xFFFF) OR ucast v"

definition upd_reg :: "nat \<Rightarrow> (Bit32u \<Rightarrow> Bit32u) \<Rightarrow> bx_cpu \<Rightarrow> bx_cpu" where
  "upd_reg k f cpu = cpu\<lparr>gen_reg := (gen_reg cpu)(k := f (gen_reg cpu k))\<rparr>"

definition BX_READ_32BIT_REG :: "nat \<Rightarrow> bx_cpu \<Rightarrow> Bit32u" where
  "BX_READ_32BIT_REG index cpu = gen_reg cpu index"

definition BX_WRITE_32BIT_REGZ :: "nat \<Rightarrow> Bit32u \<Rightarrow> bx_cpu \<Rightarrow> bx_cpu" where
  "BX_WRITE_32BIT_REGZ index val cpu = upd_reg index (\<lambda>_. val) cpu"

text \<open>In the x86-32 build there is no upper half of a register to clear.\<close>

definition BX_CLEAR_64BIT_HIGH :: "nat \<Rightarrow> bx_cpu \<Rightarrow> bx_cpu" where
  "BX_CLEAR_64BIT_HIGH index cpu = cpu"

definition BX_READ_16BIT_REG :: "nat \<Rightarrow> bx_cpu \<Rightarrow> Bit16u" where
  "BX_READ_16BIT_REG index cpu = word_rx (gen_reg cpu index)"

definition BX_WRITE_16BIT_REG :: "nat \<Rightarrow> Bit16u \<Rightarrow> bx_cpu \<Rightarrow> bx_cpu" where
  "BX_WRITE_16BIT_REG index val cpu = upd_reg index (put_rx val) cpu"

definition BX_READ_8BIT_REG :: "nat \<Rightarrow> bx_cpu \<Rightarrow> Bit8u" where
  "BX_READ_8BIT_REG index cpu =
    (if index AND 4 \<noteq> 0 then byte_rh (gen_reg cpu (index - 4))
     else byte_rl (gen_reg cpu index))"

definition BX_WRITE_8BIT_REG :: "nat \<Rightarrow> Bit8u \<Rightarrow> bx_cpu \<Rightarrow> bx_cpu" where
  "BX_WRITE_8BIT_REG index val cpu =
    (if index AND 4 \<noteq> 0 then upd_reg (index - 4) (put_rh val) cpu
     else upd_reg index (put_rl val) cpu)"

abbreviation AL :: "bx_cpu \<Rightarrow> Bit8u" where "AL cpu \<equiv> byte_rl (gen_reg cpu 0)"
abbreviation AH :: "bx_cpu \<Rightarrow> Bit8u" where "AH cpu \<equiv> byte_rh (gen_reg cpu 0)"
abbreviation CL :: "bx_cpu \<Rightarrow> Bit8u" where "CL cpu \<equiv> byte_rl (gen_reg cpu 1)"
abbreviation AX :: "bx_cpu \<Rightarrow> Bit16u" where "AX cpu \<equiv> word_rx (gen_reg cpu 0)"
abbreviation DX :: "bx_cpu \<Rightarrow> Bit16u" where "DX cpu \<equiv> word_rx (gen_reg cpu 2)"
abbreviation EAX :: "bx_cpu \<Rightarrow> Bit32u" where "EAX cpu \<equiv> gen_reg cpu 0"
abbreviation EDX :: "bx_cpu \<Rightarrow> Bit32u" where "EDX cpu \<equiv> gen_reg cpu 2"

abbreviation set_AL :: "Bit8u \<Rightarrow> bx_cpu \<Rightarrow> bx_cpu" where "set_AL v \<equiv> upd_reg 0 (put_rl v)"
abbreviation set_AH :: "Bit8u \<Rightarrow> bx_cpu \<Rightarrow> bx_cpu" where "set_AH v \<equiv> upd_reg 0 (put_rh v)"
abbreviation set_AX :: "Bit16u \<Rightarrow> bx_cpu \<Rightarrow> bx_cpu" where "set_AX v \<equiv> upd_reg 0 (put_rx v)"
abbreviation set_DX :: "Bit16u \<Rightarrow> bx_cpu \<Rightarrow> bx_cpu" where "set_DX v \<equiv> upd_reg 2 (put_rx v)"
abbreviation set_EAX :: "Bit32u \<Rightarrow> bx_cpu \<Rightarrow> bx_cpu" where "set_EAX v \<equiv> upd_reg 0 (\<lambda>_. v)"
abbreviation set_EDX :: "Bit32u \<Rightarrow> bx_cpu \<Rightarrow> bx_cpu" where "set_EDX v \<equiv> upd_reg 2 (\<lambda>_. v)"

lemma mask_lits:
  "(0xFF :: Bit32u) = mask 8" "(0xFFFF :: Bit32u) = mask 16"
  "(0xFF00 :: Bit32u) = push_bit 8 (mask 8)"
  by (simp_all add: mask_eq_exp_minus_1)

lemma bit_put_rl: "bit (put_rl v w) n \<longleftrightarrow> (if n < 8 then bit v n else bit w n)"
  unfolding put_rl_def mask_lits
  by (auto simp: bit_or_iff bit_and_iff bit_not_iff bit_mask_iff bit_ucast_iff
      simp del: mask_numeral dest: bit_imp_le_length)

lemma bit_put_rh: "bit (put_rh v w) n \<longleftrightarrow> (if 8 \<le> n \<and> n < 16 then bit v (n - 8) else bit w n)"
  unfolding put_rh_def mask_lits
  by (auto simp: bit_or_iff bit_and_iff bit_not_iff bit_mask_iff bit_ucast_iff bit_push_bit_iff
      simp del: mask_numeral push_bit_mask_eq dest: bit_imp_le_length)

lemma bit_put_rx: "bit (put_rx v w) n \<longleftrightarrow> (if n < 16 then bit v n else bit w n)"
  unfolding put_rx_def mask_lits
  by (auto simp: bit_or_iff bit_and_iff bit_not_iff bit_mask_iff bit_ucast_iff
      simp del: mask_numeral dest: bit_imp_le_length)

lemma views [simp]:
  "byte_rl (put_rl v w) = v" "byte_rl (put_rh v w) = byte_rl w"
  "byte_rh (put_rh v w) = v" "byte_rh (put_rl v w) = byte_rh w"
  "word_rx (put_rx x w) = x"
  by (rule bit_word_eqI; simp add: byte_rl_def byte_rh_def word_rx_def bit_ucast_iff
      bit_drop_bit_eq bit_put_rl bit_put_rh bit_put_rx)+

lemma upd_reg_sel [simp]:
  "gen_reg (upd_reg k f cpu) = (gen_reg cpu)(k := f (gen_reg cpu k))"
  "oszapc (upd_reg k f cpu) = oszapc cpu" "eflags (upd_reg k f cpu) = eflags cpu"
  by (simp_all add: upd_reg_def)

section \<open>Register files as banks of cells\<close>

locale reg_file =
  fixes valid :: "nat \<Rightarrow> bool" and rd :: "nat \<Rightarrow> 's \<Rightarrow> 'w" and wr :: "nat \<Rightarrow> 'w \<Rightarrow> 's \<Rightarrow> 's"
  assumes rd_wr: "valid k \<Longrightarrow> valid m \<Longrightarrow> rd k (wr m v s) = (if k = m then v else rd k s)"
begin

text \<open>The order of XADD's two writes matters only when source and destination coincide.\<close>

lemma two_writes:
  "valid k \<Longrightarrow> valid m \<Longrightarrow> valid n \<Longrightarrow>
    rd n (wr k v (wr m u s)) = (if n = k then v else if n = m then u else rd n s)"
  by (simp add: rd_wr)

lemma exchange:
  "valid k \<Longrightarrow> valid m \<Longrightarrow> valid n \<Longrightarrow> n \<noteq> k \<Longrightarrow> n \<noteq> m \<Longrightarrow>
    rd n (wr k (rd m s) (wr m (rd k s) s)) = rd n s"
  by (simp add: rd_wr)

end

interpretation regs32: reg_file "\<lambda>_. True" BX_READ_32BIT_REG BX_WRITE_32BIT_REGZ
  by unfold_locales (simp add: BX_READ_32BIT_REG_def BX_WRITE_32BIT_REGZ_def)

interpretation regs16: reg_file "\<lambda>_. True" BX_READ_16BIT_REG BX_WRITE_16BIT_REG
  by unfold_locales (simp add: BX_READ_16BIT_REG_def BX_WRITE_16BIT_REG_def)

lemma and_4_nat:
  assumes "k < 8"
  shows "(k AND 4 = (0 :: nat)) = (k < 4)" and "(0 < k AND (4 :: nat)) = (4 \<le> k)"
proof -
  from assms have "k = 0 \<or> k = 1 \<or> k = 2 \<or> k = 3 \<or> k = 4 \<or> k = 5 \<or> k = 6 \<or> k = 7"
    by arith
  then show "(k AND 4 = (0 :: nat)) = (k < 4)" and "(0 < k AND (4 :: nat)) = (4 \<le> k)"
    by (elim disjE; simp)+
qed

interpretation regs8: reg_file "\<lambda>k. k < 8" BX_READ_8BIT_REG BX_WRITE_8BIT_REG
  by unfold_locales
     (auto simp: BX_READ_8BIT_REG_def BX_WRITE_8BIT_REG_def and_4_nat)

lemmas [cpu_simps] = BX_READ_32BIT_REG_def BX_WRITE_32BIT_REGZ_def BX_READ_16BIT_REG_def
  BX_WRITE_16BIT_REG_def BX_READ_8BIT_REG_def BX_WRITE_8BIT_REG_def BX_CLEAR_64BIT_HIGH_def

section \<open>EFLAGS\<close>

definition EFlagsCFMask :: Bit32u where "EFlagsCFMask = shl 1 0"
definition EFlagsPFMask :: Bit32u where "EFlagsPFMask = shl 1 2"
definition EFlagsAFMask :: Bit32u where "EFlagsAFMask = shl 1 4"
definition EFlagsZFMask :: Bit32u where "EFlagsZFMask = shl 1 6"
definition EFlagsSFMask :: Bit32u where "EFlagsSFMask = shl 1 7"
definition EFlagsOFMask :: Bit32u where "EFlagsOFMask = shl 1 11"

definition EFlagsOSZAPCMask :: Bit32u where
  "EFlagsOSZAPCMask = EFlagsCFMask OR EFlagsPFMask OR EFlagsAFMask OR EFlagsZFMask OR
    EFlagsSFMask OR EFlagsOFMask"

abbreviation upd_flags :: "(bx_lazyflags_entry \<Rightarrow> bx_lazyflags_entry) \<Rightarrow> bx_cpu \<Rightarrow> bx_cpu" where
  "upd_flags f cpu \<equiv> cpu\<lparr>oszapc := f (oszapc cpu)\<rparr>"

definition setEFlagsOSZAPC :: "Bit32u \<Rightarrow> bx_cpu \<Rightarrow> bx_cpu" where
  "setEFlagsOSZAPC flags32 cpu =
    (let cpu = upd_flags (set_OF (1 AND shr flags32 11)) cpu;
         cpu = upd_flags (set_SF (1 AND shr flags32 7)) cpu;
         cpu = upd_flags (set_ZF (1 AND shr flags32 6)) cpu;
         cpu = upd_flags (set_AF (1 AND shr flags32 4)) cpu;
         cpu = upd_flags (set_PF (1 AND shr flags32 2)) cpu;
         cpu = upd_flags (set_CF (1 AND shr flags32 0)) cpu
     in cpu)"

definition clearEFlagsOSZAPC :: "bx_cpu \<Rightarrow> bx_cpu" where
  "clearEFlagsOSZAPC cpu = upd_flags (SET_FLAGS_OSZAPC_LOGIC_32 1) cpu"

definition force_flags :: "bx_cpu \<Rightarrow> Bit32u \<times> bx_cpu" where
  "force_flags cpu =
    (let e = oszapc cpu;
         newflags = getB_CF e;
         newflags = newflags OR shl (getB_PF e) 2;
         newflags = newflags OR shl (getB_AF e) 4;
         newflags = newflags OR shl (getB_ZF e) 6;
         newflags = newflags OR shl (getB_SF e) 7;
         newflags = newflags OR shl (getB_OF e) 11;
         cpu = cpu\<lparr>eflags := (eflags cpu AND NOT EFlagsOSZAPCMask) OR
                 (newflags AND EFlagsOSZAPCMask)\<rparr>
     in (eflags cpu, cpu))"

definition read_eflags :: "bx_cpu \<Rightarrow> Bit32u \<times> bx_cpu" where
  "read_eflags = force_flags"

definition SAHF :: "bxInstruction \<Rightarrow> bx_cpu \<Rightarrow> bx_cpu" where
  "SAHF i cpu =
    (let cpu = upd_flags (set_SF (ucast (shr (AH cpu AND 0x80) 7))) cpu;
         cpu = upd_flags (set_ZF (ucast (shr (AH cpu AND 0x40) 6))) cpu;
         cpu = upd_flags (set_AF (ucast (shr (AH cpu AND 0x10) 4))) cpu;
         cpu = upd_flags (set_CF (ucast (AH cpu AND 0x01))) cpu;
         cpu = upd_flags (set_PF (ucast (shr (AH cpu AND 0x04) 2))) cpu
     in cpu)"

definition LAHF :: "bxInstruction \<Rightarrow> bx_cpu \<Rightarrow> bx_cpu" where
  "LAHF i cpu = (let (fl, cpu) = read_eflags cpu in set_AH (ucast (fl AND 0xFF)) cpu)"

definition CLC :: "bxInstruction \<Rightarrow> bx_cpu \<Rightarrow> bx_cpu" where
  "CLC i cpu = upd_flags clear_CF cpu"

definition STC :: "bxInstruction \<Rightarrow> bx_cpu \<Rightarrow> bx_cpu" where
  "STC i cpu = upd_flags assert_CF cpu"

definition CMC :: "bxInstruction \<Rightarrow> bx_cpu \<Rightarrow> bx_cpu" where
  "CMC i cpu = upd_flags (set_CF (of_bool (get_CF (oszapc cpu) = 0))) cpu"

definition CLD :: "bxInstruction \<Rightarrow> bx_cpu \<Rightarrow> bx_cpu" where
  "CLD i cpu = cpu\<lparr>eflags := eflags cpu AND NOT (shl 1 10)\<rparr>"

definition STD :: "bxInstruction \<Rightarrow> bx_cpu \<Rightarrow> bx_cpu" where
  "STD i cpu = cpu\<lparr>eflags := eflags cpu OR shl 1 10\<rparr>"

text \<open>The position of each arithmetic flag in EFLAGS.\<close>

fun eflags_bit :: "eflag \<Rightarrow> nat" where
  "eflags_bit Carry = 0"
| "eflags_bit Parity = 2"
| "eflags_bit Adjust = 4"
| "eflags_bit Zero = 6"
| "eflags_bit Sign = 7"
| "eflags_bit Overflow = 11"

lemma one_and_shr: "1 AND shr w k = (of_bool (bit w k) :: Bit32u)"
  by (simp add: bit_and_one and.commute [of 1] bit_drop_bit_eq)

lemma lf_put_shift:
  "set_OF (1 AND shr w k) = lf_put Overflow (bit w k)"
  "set_SF (1 AND shr w k) = lf_put Sign (bit w k)"
  "set_ZF (1 AND shr w k) = lf_put Zero (bit w k)"
  "set_AF (1 AND shr w k) = lf_put Adjust (bit w k)"
  "set_PF (1 AND shr w k) = lf_put Parity (bit w k)"
  "set_CF (1 AND shr w k) = lf_put Carry (bit w k)"
  by (simp_all add: fun_eq_iff one_and_shr lf_put.simps)

lemma lf_get_setEFlagsOSZAPC:
  "lf_get f (oszapc (setEFlagsOSZAPC w cpu)) = bit w (eflags_bit f)"
  unfolding setEFlagsOSZAPC_def Let_def lf_put_shift
  by (cases f) (simp_all add: lazy.get_put)

lemma getB_lf_get:
  "getB_CF e = of_bool (lf_get Carry e)" "getB_PF e = of_bool (lf_get Parity e)"
  "getB_AF e = of_bool (lf_get Adjust e)" "getB_ZF e = of_bool (lf_get Zero e)"
  "getB_SF e = of_bool (lf_get Sign e)" "getB_OF e = of_bool (lf_get Overflow e)"
  by (simp_all add: lf_get.simps lf_getters)

lemma bit_OSZAPCMask: "bit EFlagsOSZAPCMask n \<longleftrightarrow> n \<in> {0, 2, 4, 6, 7, 11}"
  by (auto simp: EFlagsOSZAPCMask_def EFlagsCFMask_def EFlagsPFMask_def EFlagsAFMask_def
      EFlagsZFMask_def EFlagsSFMask_def EFlagsOFMask_def bit_or_iff bit_push_bit_iff bit_1_iff
      simp del: push_bit_of_1)

lemma bit_eflag_position: "bit (shl (of_bool b :: Bit32u) k) n \<longleftrightarrow> b \<and> n = k \<and> k < 32"
  by (auto simp: bit_push_bit_iff bit_of_bool_word)

lemma bit_force_flags:
  "bit (fst (force_flags cpu)) n \<longleftrightarrow>
    (if n = 0 then lf_get Carry (oszapc cpu) else if n = 2 then lf_get Parity (oszapc cpu)
     else if n = 4 then lf_get Adjust (oszapc cpu) else if n = 6 then lf_get Zero (oszapc cpu)
     else if n = 7 then lf_get Sign (oszapc cpu) else if n = 11 then lf_get Overflow (oszapc cpu)
     else bit (eflags cpu) n)"
  by (auto simp: force_flags_def Let_def getB_lf_get bit_or_iff bit_and_iff bit_not_iff
      bit_OSZAPCMask bit_eflag_position bit_of_bool_word
      dest: bit_imp_le_length)

lemma eflags_bit_get: "bit (fst (force_flags cpu)) (eflags_bit f) = lf_get f (oszapc cpu)"
  by (cases f) (simp_all add: bit_force_flags)

text \<open>
  Writing the six arithmetic flags from an EFLAGS image and reading EFLAGS back gives
  the image's six bits and leaves every other bit of EFLAGS as it was: the lazy
  representation is a faithful store.
\<close>

theorem eflags_write_read:
  "fst (force_flags (setEFlagsOSZAPC w cpu)) =
    (eflags cpu AND NOT EFlagsOSZAPCMask) OR (w AND EFlagsOSZAPCMask)"
proof (rule bit_word_eqI)
  fix n
  have k: "eflags (setEFlagsOSZAPC w cpu) = eflags cpu"
    by (simp add: setEFlagsOSZAPC_def)
  show "bit (fst (force_flags (setEFlagsOSZAPC w cpu))) n =
      bit ((eflags cpu AND NOT EFlagsOSZAPCMask) OR (w AND EFlagsOSZAPCMask)) n"
    using bit_imp_le_length [of "eflags cpu" n]
    by (auto simp: bit_force_flags lf_get_setEFlagsOSZAPC k bit_or_iff bit_and_iff bit_not_iff
        bit_OSZAPCMask)
qed

section \<open>Outcome of an ALU instruction\<close>

abbreviation dst8 :: "bxInstruction \<Rightarrow> bx_cpu \<Rightarrow> Bit8u" where
  "dst8 i cpu \<equiv> BX_READ_8BIT_REG (i_dst i) cpu"
abbreviation src8 :: "bxInstruction \<Rightarrow> bx_cpu \<Rightarrow> Bit8u" where
  "src8 i cpu \<equiv> BX_READ_8BIT_REG (i_src i) cpu"
abbreviation dst16 :: "bxInstruction \<Rightarrow> bx_cpu \<Rightarrow> Bit16u" where
  "dst16 i cpu \<equiv> BX_READ_16BIT_REG (i_dst i) cpu"
abbreviation src16 :: "bxInstruction \<Rightarrow> bx_cpu \<Rightarrow> Bit16u" where
  "src16 i cpu \<equiv> BX_READ_16BIT_REG (i_src i) cpu"
abbreviation dst32 :: "bxInstruction \<Rightarrow> bx_cpu \<Rightarrow> Bit32u" where
  "dst32 i cpu \<equiv> BX_READ_32BIT_REG (i_dst i) cpu"
abbreviation src32 :: "bxInstruction \<Rightarrow> bx_cpu \<Rightarrow> Bit32u" where
  "src32 i cpu \<equiv> BX_READ_32BIT_REG (i_src i) cpu"
abbreviation CF :: "bx_cpu \<Rightarrow> bool" where
  "CF cpu \<equiv> lf_get Carry (oszapc cpu)"

text \<open>
  The outcome of an ALU instruction: the register file after the write \<open>wr\<close>, the six
  flags of \<open>fl\<close>, the stored EFLAGS image untouched.
\<close>

definition alu_step :: "(bx_cpu \<Rightarrow> bx_cpu) \<Rightarrow> (eflag \<Rightarrow> bool) \<Rightarrow> bx_cpu \<Rightarrow> bx_cpu \<Rightarrow> bool" where
  "alu_step wr fl cpu cpu' \<longleftrightarrow>
    gen_reg cpu' = gen_reg (wr cpu) \<and> eflags cpu' = eflags cpu \<and>
    (\<forall>f. lf_get f (oszapc cpu') = fl f)"

lemma write_sel [simp]:
  "oszapc (BX_WRITE_8BIT_REG k v8 cpu) = oszapc cpu" "eflags (BX_WRITE_8BIT_REG k v8 cpu) = eflags cpu"
  "oszapc (BX_WRITE_16BIT_REG k v16 cpu) = oszapc cpu" "eflags (BX_WRITE_16BIT_REG k v16 cpu) = eflags cpu"
  "oszapc (BX_WRITE_32BIT_REGZ k v32 cpu) = oszapc cpu" "eflags (BX_WRITE_32BIT_REGZ k v32 cpu) = eflags cpu"
  by (simp_all add: cpu_simps)

lemma read_upd_flags [simp]:
  "BX_READ_8BIT_REG k (upd_flags f cpu) = BX_READ_8BIT_REG k cpu"
  "BX_READ_16BIT_REG k (upd_flags f cpu) = BX_READ_16BIT_REG k cpu"
  "BX_READ_32BIT_REG k (upd_flags f cpu) = BX_READ_32BIT_REG k cpu"
  by (simp_all add: cpu_simps)

lemma write_upd_flags:
  "gen_reg (BX_WRITE_8BIT_REG k v8 (upd_flags f cpu)) = gen_reg (BX_WRITE_8BIT_REG k v8 cpu)"
  "gen_reg (BX_WRITE_16BIT_REG k v16 (upd_flags f cpu)) = gen_reg (BX_WRITE_16BIT_REG k v16 cpu)"
  "gen_reg (BX_WRITE_32BIT_REGZ k v32 (upd_flags f cpu)) = gen_reg (BX_WRITE_32BIT_REGZ k v32 cpu)"
  by (simp_all add: cpu_simps upd_reg_def)


abbreviation ZF :: "bx_cpu \<Rightarrow> bool" where "ZF cpu \<equiv> lf_get Zero (oszapc cpu)"
abbreviation SF :: "bx_cpu \<Rightarrow> bool" where "SF cpu \<equiv> lf_get Sign (oszapc cpu)"
abbreviation OVF :: "bx_cpu \<Rightarrow> bool" where "OVF cpu \<equiv> lf_get Overflow (oszapc cpu)"

lemma alu_stepD:
  assumes "alu_step wr fl cpu cpu'"
  shows "gen_reg cpu' = gen_reg (wr cpu)" "eflags cpu' = eflags cpu" "lf_get f (oszapc cpu') = fl f"
  using assms by (simp_all add: alu_step_def)

text \<open>A register file and instructions at which the theorems are applied.\<close>

definition sample_cpu :: bx_cpu where
  "sample_cpu = \<lparr>gen_reg = (\<lambda>_. 0)(0 := 0xFFFFFFFF, 1 := 1, 2 := 5, 3 := 7),
     oszapc = \<lparr>lf_result = 0, lf_auxbits = 0\<rparr>, eflags = 2\<rparr>"

definition sample_instr :: "nat \<Rightarrow> nat \<Rightarrow> bxInstruction" where
  "sample_instr d s = \<lparr>i_op = BX_IA_OTHER, i_dst = d, i_src = s, i_Ib = 1, i_Iw = 1, i_Id = 1\<rparr>"

end
