(* ===== verification/Arith.thy ===== *)
theory Arith
  imports Cpu_State
begin

text \<open>
  The register forms of the integer addition, subtraction, comparison, exchange and
  negation handlers of cpu/arith8.cc, cpu/arith16.cc and cpu/arith32.cc: each reads its
  operands through the register views, computes in C's 32-bit \<open>Bit32u\<close>, truncates on
  writing, and sets the lazy flags with the macro of its operand size. The theorems give
  each handler's destination register and its six flags in terms of the reference
  arithmetic on words of the operand size, and compose the carry chain of ADD and ADC.
  The forms with a memory operand (suffix \<open>M\<close>) go through the segmentation and paging
  code, which is not modelled here.
\<close>

section \<open>Handlers of cpu/arith8.cc, register forms\<close>

definition ADD_GbEbR :: "bxInstruction \<Rightarrow> bx_cpu \<Rightarrow> bx_cpu" where
  "ADD_GbEbR i cpu =
    (let op1 = ucast (BX_READ_8BIT_REG (i_dst i) cpu); op2 = ucast (BX_READ_8BIT_REG (i_src i) cpu);
         res = op1 + op2;
         cpu = BX_WRITE_8BIT_REG (i_dst i) (ucast res) cpu
     in upd_flags (SET_FLAGS_OSZAPC_ADD_8 op1 op2 res) cpu)"

definition ADC_GbEbR :: "bxInstruction \<Rightarrow> bx_cpu \<Rightarrow> bx_cpu" where
  "ADC_GbEbR i cpu =
    (let op1 = ucast (BX_READ_8BIT_REG (i_dst i) cpu); op2 = ucast (BX_READ_8BIT_REG (i_src i) cpu);
         res = op1 + op2 + getB_CF (oszapc cpu);
         cpu = BX_WRITE_8BIT_REG (i_dst i) (ucast res) cpu
     in upd_flags (SET_FLAGS_OSZAPC_ADD_8 op1 op2 res) cpu)"

definition SUB_GbEbR :: "bxInstruction \<Rightarrow> bx_cpu \<Rightarrow> bx_cpu" where
  "SUB_GbEbR i cpu =
    (let op1 = ucast (BX_READ_8BIT_REG (i_dst i) cpu); op2 = ucast (BX_READ_8BIT_REG (i_src i) cpu);
         diff = op1 - op2;
         cpu = BX_WRITE_8BIT_REG (i_dst i) (ucast diff) cpu
     in upd_flags (SET_FLAGS_OSZAPC_SUB_8 op1 op2 diff) cpu)"

definition SBB_GbEbR :: "bxInstruction \<Rightarrow> bx_cpu \<Rightarrow> bx_cpu" where
  "SBB_GbEbR i cpu =
    (let op1 = ucast (BX_READ_8BIT_REG (i_dst i) cpu); op2 = ucast (BX_READ_8BIT_REG (i_src i) cpu);
         diff = op1 - (op2 + getB_CF (oszapc cpu));
         cpu = BX_WRITE_8BIT_REG (i_dst i) (ucast diff) cpu
     in upd_flags (SET_FLAGS_OSZAPC_SUB_8 op1 op2 diff) cpu)"

definition CMP_GbEbR :: "bxInstruction \<Rightarrow> bx_cpu \<Rightarrow> bx_cpu" where
  "CMP_GbEbR i cpu =
    (let op1 = ucast (BX_READ_8BIT_REG (i_dst i) cpu); op2 = ucast (BX_READ_8BIT_REG (i_src i) cpu);
         diff = op1 - op2
     in upd_flags (SET_FLAGS_OSZAPC_SUB_8 op1 op2 diff) cpu)"

definition ADD_EbIbR :: "bxInstruction \<Rightarrow> bx_cpu \<Rightarrow> bx_cpu" where
  "ADD_EbIbR i cpu =
    (let op1 = ucast (BX_READ_8BIT_REG (i_dst i) cpu); op2 = ucast (i_Ib i);
         res = op1 + op2;
         cpu = BX_WRITE_8BIT_REG (i_dst i) (ucast res) cpu
     in upd_flags (SET_FLAGS_OSZAPC_ADD_8 op1 op2 res) cpu)"

definition ADC_EbIbR :: "bxInstruction \<Rightarrow> bx_cpu \<Rightarrow> bx_cpu" where
  "ADC_EbIbR i cpu =
    (let op1 = ucast (BX_READ_8BIT_REG (i_dst i) cpu); op2 = ucast (i_Ib i);
         res = op1 + op2 + getB_CF (oszapc cpu);
         cpu = BX_WRITE_8BIT_REG (i_dst i) (ucast res) cpu
     in upd_flags (SET_FLAGS_OSZAPC_ADD_8 op1 op2 res) cpu)"

definition SUB_EbIbR :: "bxInstruction \<Rightarrow> bx_cpu \<Rightarrow> bx_cpu" where
  "SUB_EbIbR i cpu =
    (let op1 = ucast (BX_READ_8BIT_REG (i_dst i) cpu); op2 = ucast (i_Ib i);
         diff = op1 - op2;
         cpu = BX_WRITE_8BIT_REG (i_dst i) (ucast diff) cpu
     in upd_flags (SET_FLAGS_OSZAPC_SUB_8 op1 op2 diff) cpu)"

definition SBB_EbIbR :: "bxInstruction \<Rightarrow> bx_cpu \<Rightarrow> bx_cpu" where
  "SBB_EbIbR i cpu =
    (let op1 = ucast (BX_READ_8BIT_REG (i_dst i) cpu); op2 = ucast (i_Ib i);
         diff = op1 - (op2 + getB_CF (oszapc cpu));
         cpu = BX_WRITE_8BIT_REG (i_dst i) (ucast diff) cpu
     in upd_flags (SET_FLAGS_OSZAPC_SUB_8 op1 op2 diff) cpu)"

definition CMP_EbIbR :: "bxInstruction \<Rightarrow> bx_cpu \<Rightarrow> bx_cpu" where
  "CMP_EbIbR i cpu =
    (let op1 = ucast (BX_READ_8BIT_REG (i_dst i) cpu); op2 = ucast (i_Ib i);
         diff = op1 - op2
     in upd_flags (SET_FLAGS_OSZAPC_SUB_8 op1 op2 diff) cpu)"

definition XADD_EbGbR :: "bxInstruction \<Rightarrow> bx_cpu \<Rightarrow> bx_cpu" where
  "XADD_EbGbR i cpu =
    (let op1 = ucast (BX_READ_8BIT_REG (i_dst i) cpu); op2 = ucast (BX_READ_8BIT_REG (i_src i) cpu); res = op1 + op2;
         cpu = BX_WRITE_8BIT_REG (i_src i) (ucast op1) cpu;
         cpu = BX_WRITE_8BIT_REG (i_dst i) (ucast res) cpu
     in upd_flags (SET_FLAGS_OSZAPC_ADD_8 op1 op2 res) cpu)"

definition INC_EbR :: "bxInstruction \<Rightarrow> bx_cpu \<Rightarrow> bx_cpu" where
  "INC_EbR i cpu =
    (let op1 = ucast (BX_READ_8BIT_REG (i_dst i) cpu); op1 = op1 + 1;
         cpu = BX_WRITE_8BIT_REG (i_dst i) (ucast op1) cpu
     in upd_flags (SET_FLAGS_OSZAP_ADD_8 (op1 - 1) 0 op1) cpu)"

definition DEC_EbR :: "bxInstruction \<Rightarrow> bx_cpu \<Rightarrow> bx_cpu" where
  "DEC_EbR i cpu =
    (let op1 = ucast (BX_READ_8BIT_REG (i_dst i) cpu); op1 = op1 - 1;
         cpu = BX_WRITE_8BIT_REG (i_dst i) (ucast op1) cpu
     in upd_flags (SET_FLAGS_OSZAP_SUB_8 (op1 + 1) 0 op1) cpu)"

definition NEG_EbR :: "bxInstruction \<Rightarrow> bx_cpu \<Rightarrow> bx_cpu" where
  "NEG_EbR i cpu =
    (let op1 = ucast (BX_READ_8BIT_REG (i_dst i) cpu) :: Bit32u; op1 = - scast (ucast op1 :: Bit8u);
         cpu = BX_WRITE_8BIT_REG (i_dst i) (ucast op1) cpu
     in upd_flags (SET_FLAGS_OSZAPC_SUB_8 0 (0 - op1) op1) cpu)"

definition CMPXCHG_EbGbR :: "bxInstruction \<Rightarrow> bx_cpu \<Rightarrow> bx_cpu" where
  "CMPXCHG_EbGbR i cpu =
    (let op1 = ucast (BX_READ_8BIT_REG (i_dst i) cpu) :: Bit32u; diff = ucast (AL cpu) - op1;
         cpu = upd_flags (SET_FLAGS_OSZAPC_SUB_8 (ucast (AL cpu)) op1 diff) cpu
     in if diff = 0 then
          (let op2 = ucast (BX_READ_8BIT_REG (i_src i) cpu) :: Bit32u
           in BX_WRITE_8BIT_REG (i_dst i) (ucast op2) cpu)
        else set_AL (ucast op1) cpu)"

section \<open>Handlers of cpu/arith16.cc, register forms\<close>

definition ADD_GwEwR :: "bxInstruction \<Rightarrow> bx_cpu \<Rightarrow> bx_cpu" where
  "ADD_GwEwR i cpu =
    (let op1 = ucast (BX_READ_16BIT_REG (i_dst i) cpu); op2 = ucast (BX_READ_16BIT_REG (i_src i) cpu);
         res = op1 + op2;
         cpu = BX_WRITE_16BIT_REG (i_dst i) (ucast res) cpu
     in upd_flags (SET_FLAGS_OSZAPC_ADD_16 op1 op2 res) cpu)"

definition ADC_GwEwR :: "bxInstruction \<Rightarrow> bx_cpu \<Rightarrow> bx_cpu" where
  "ADC_GwEwR i cpu =
    (let op1 = ucast (BX_READ_16BIT_REG (i_dst i) cpu); op2 = ucast (BX_READ_16BIT_REG (i_src i) cpu);
         res = op1 + op2 + getB_CF (oszapc cpu);
         cpu = BX_WRITE_16BIT_REG (i_dst i) (ucast res) cpu
     in upd_flags (SET_FLAGS_OSZAPC_ADD_16 op1 op2 res) cpu)"

definition SUB_GwEwR :: "bxInstruction \<Rightarrow> bx_cpu \<Rightarrow> bx_cpu" where
  "SUB_GwEwR i cpu =
    (let op1 = ucast (BX_READ_16BIT_REG (i_dst i) cpu); op2 = ucast (BX_READ_16BIT_REG (i_src i) cpu);
         diff = op1 - op2;
         cpu = BX_WRITE_16BIT_REG (i_dst i) (ucast diff) cpu
     in upd_flags (SET_FLAGS_OSZAPC_SUB_16 op1 op2 diff) cpu)"

definition SBB_GwEwR :: "bxInstruction \<Rightarrow> bx_cpu \<Rightarrow> bx_cpu" where
  "SBB_GwEwR i cpu =
    (let op1 = ucast (BX_READ_16BIT_REG (i_dst i) cpu); op2 = ucast (BX_READ_16BIT_REG (i_src i) cpu);
         diff = op1 - (op2 + getB_CF (oszapc cpu));
         cpu = BX_WRITE_16BIT_REG (i_dst i) (ucast diff) cpu
     in upd_flags (SET_FLAGS_OSZAPC_SUB_16 op1 op2 diff) cpu)"

definition CMP_GwEwR :: "bxInstruction \<Rightarrow> bx_cpu \<Rightarrow> bx_cpu" where
  "CMP_GwEwR i cpu =
    (let op1 = ucast (BX_READ_16BIT_REG (i_dst i) cpu); op2 = ucast (BX_READ_16BIT_REG (i_src i) cpu);
         diff = op1 - op2
     in upd_flags (SET_FLAGS_OSZAPC_SUB_16 op1 op2 diff) cpu)"

definition ADD_EwIwR :: "bxInstruction \<Rightarrow> bx_cpu \<Rightarrow> bx_cpu" where
  "ADD_EwIwR i cpu =
    (let op1 = ucast (BX_READ_16BIT_REG (i_dst i) cpu); op2 = ucast (i_Iw i);
         res = op1 + op2;
         cpu = BX_WRITE_16BIT_REG (i_dst i) (ucast res) cpu
     in upd_flags (SET_FLAGS_OSZAPC_ADD_16 op1 op2 res) cpu)"

definition ADC_EwIwR :: "bxInstruction \<Rightarrow> bx_cpu \<Rightarrow> bx_cpu" where
  "ADC_EwIwR i cpu =
    (let op1 = ucast (BX_READ_16BIT_REG (i_dst i) cpu); op2 = ucast (i_Iw i);
         res = op1 + op2 + getB_CF (oszapc cpu);
         cpu = BX_WRITE_16BIT_REG (i_dst i) (ucast res) cpu
     in upd_flags (SET_FLAGS_OSZAPC_ADD_16 op1 op2 res) cpu)"

definition SUB_EwIwR :: "bxInstruction \<Rightarrow> bx_cpu \<Rightarrow> bx_cpu" where
  "SUB_EwIwR i cpu =
    (let op1 = ucast (BX_READ_16BIT_REG (i_dst i) cpu); op2 = ucast (i_Iw i);
         diff = op1 - op2;
         cpu = BX_WRITE_16BIT_REG (i_dst i) (ucast diff) cpu
     in upd_flags (SET_FLAGS_OSZAPC_SUB_16 op1 op2 diff) cpu)"

definition SBB_EwIwR :: "bxInstruction \<Rightarrow> bx_cpu \<Rightarrow> bx_cpu" where
  "SBB_EwIwR i cpu =
    (let op1 = ucast (BX_READ_16BIT_REG (i_dst i) cpu); op2 = ucast (i_Iw i);
         diff = op1 - (op2 + getB_CF (oszapc cpu));
         cpu = BX_WRITE_16BIT_REG (i_dst i) (ucast diff) cpu
     in upd_flags (SET_FLAGS_OSZAPC_SUB_16 op1 op2 diff) cpu)"

definition CMP_EwIwR :: "bxInstruction \<Rightarrow> bx_cpu \<Rightarrow> bx_cpu" where
  "CMP_EwIwR i cpu =
    (let op1 = ucast (BX_READ_16BIT_REG (i_dst i) cpu); op2 = ucast (i_Iw i);
         diff = op1 - op2
     in upd_flags (SET_FLAGS_OSZAPC_SUB_16 op1 op2 diff) cpu)"

definition XADD_EwGwR :: "bxInstruction \<Rightarrow> bx_cpu \<Rightarrow> bx_cpu" where
  "XADD_EwGwR i cpu =
    (let op1 = ucast (BX_READ_16BIT_REG (i_dst i) cpu); op2 = ucast (BX_READ_16BIT_REG (i_src i) cpu); res = op1 + op2;
         cpu = BX_WRITE_16BIT_REG (i_src i) (ucast op1) cpu;
         cpu = BX_WRITE_16BIT_REG (i_dst i) (ucast res) cpu
     in upd_flags (SET_FLAGS_OSZAPC_ADD_16 op1 op2 res) cpu)"

definition INC_EwR :: "bxInstruction \<Rightarrow> bx_cpu \<Rightarrow> bx_cpu" where
  "INC_EwR i cpu =
    (let cpu = BX_WRITE_16BIT_REG (i_dst i) (BX_READ_16BIT_REG (i_dst i) cpu + 1) cpu;
         rx = ucast (BX_READ_16BIT_REG (i_dst i) cpu)
     in upd_flags (SET_FLAGS_OSZAP_ADD_16 (rx - 1) 0 rx) cpu)"

definition DEC_EwR :: "bxInstruction \<Rightarrow> bx_cpu \<Rightarrow> bx_cpu" where
  "DEC_EwR i cpu =
    (let cpu = BX_WRITE_16BIT_REG (i_dst i) (BX_READ_16BIT_REG (i_dst i) cpu - 1) cpu;
         rx = ucast (BX_READ_16BIT_REG (i_dst i) cpu)
     in upd_flags (SET_FLAGS_OSZAP_SUB_16 (rx + 1) 0 rx) cpu)"

definition NEG_EwR :: "bxInstruction \<Rightarrow> bx_cpu \<Rightarrow> bx_cpu" where
  "NEG_EwR i cpu =
    (let op1 = ucast (BX_READ_16BIT_REG (i_dst i) cpu) :: Bit32u; op1 = 0 - scast (ucast op1 :: Bit16u);
         cpu = BX_WRITE_16BIT_REG (i_dst i) (ucast op1) cpu
     in upd_flags (SET_FLAGS_OSZAPC_SUB_16 0 (0 - op1) op1) cpu)"

definition CMPXCHG_EwGwR :: "bxInstruction \<Rightarrow> bx_cpu \<Rightarrow> bx_cpu" where
  "CMPXCHG_EwGwR i cpu =
    (let op1 = BX_READ_16BIT_REG (i_dst i) cpu; diff = AX cpu - op1;
         cpu = upd_flags (SET_FLAGS_OSZAPC_SUB_16 (ucast (AX cpu)) (ucast op1) (ucast diff)) cpu
     in if diff = 0 then BX_WRITE_16BIT_REG (i_dst i) (BX_READ_16BIT_REG (i_src i) cpu) cpu
        else set_AX op1 cpu)"

definition CBW :: "bxInstruction \<Rightarrow> bx_cpu \<Rightarrow> bx_cpu" where
  "CBW i cpu = set_AX (scast (AL cpu)) cpu"

definition CWD :: "bxInstruction \<Rightarrow> bx_cpu \<Rightarrow> bx_cpu" where
  "CWD i cpu = (if AX cpu AND 0x8000 \<noteq> 0 then set_DX 0xFFFF cpu else set_DX 0x0000 cpu)"

section \<open>Handlers of cpu/arith32.cc, register forms\<close>

definition ADD_GdEdR :: "bxInstruction \<Rightarrow> bx_cpu \<Rightarrow> bx_cpu" where
  "ADD_GdEdR i cpu =
    (let op1 = BX_READ_32BIT_REG (i_dst i) cpu; op2 = BX_READ_32BIT_REG (i_src i) cpu;
         res = op1 + op2;
         cpu = BX_WRITE_32BIT_REGZ (i_dst i) res cpu
     in upd_flags (SET_FLAGS_OSZAPC_ADD_32 op1 op2 res) cpu)"

definition ADC_GdEdR :: "bxInstruction \<Rightarrow> bx_cpu \<Rightarrow> bx_cpu" where
  "ADC_GdEdR i cpu =
    (let op1 = BX_READ_32BIT_REG (i_dst i) cpu; op2 = BX_READ_32BIT_REG (i_src i) cpu;
         res = op1 + op2 + getB_CF (oszapc cpu);
         cpu = BX_WRITE_32BIT_REGZ (i_dst i) res cpu
     in upd_flags (SET_FLAGS_OSZAPC_ADD_32 op1 op2 res) cpu)"

definition SUB_GdEdR :: "bxInstruction \<Rightarrow> bx_cpu \<Rightarrow> bx_cpu" where
  "SUB_GdEdR i cpu =
    (let op1 = BX_READ_32BIT_REG (i_dst i) cpu; op2 = BX_READ_32BIT_REG (i_src i) cpu;
         diff = op1 - op2;
         cpu = BX_WRITE_32BIT_REGZ (i_dst i) diff cpu
     in upd_flags (SET_FLAGS_OSZAPC_SUB_32 op1 op2 diff) cpu)"

definition SBB_GdEdR :: "bxInstruction \<Rightarrow> bx_cpu \<Rightarrow> bx_cpu" where
  "SBB_GdEdR i cpu =
    (let op1 = BX_READ_32BIT_REG (i_dst i) cpu; op2 = BX_READ_32BIT_REG (i_src i) cpu;
         diff = op1 - (op2 + getB_CF (oszapc cpu));
         cpu = BX_WRITE_32BIT_REGZ (i_dst i) diff cpu
     in upd_flags (SET_FLAGS_OSZAPC_SUB_32 op1 op2 diff) cpu)"

definition CMP_GdEdR :: "bxInstruction \<Rightarrow> bx_cpu \<Rightarrow> bx_cpu" where
  "CMP_GdEdR i cpu =
    (let op1 = BX_READ_32BIT_REG (i_dst i) cpu; op2 = BX_READ_32BIT_REG (i_src i) cpu;
         diff = op1 - op2
     in upd_flags (SET_FLAGS_OSZAPC_SUB_32 op1 op2 diff) cpu)"

definition ADD_EdIdR :: "bxInstruction \<Rightarrow> bx_cpu \<Rightarrow> bx_cpu" where
  "ADD_EdIdR i cpu =
    (let op1 = BX_READ_32BIT_REG (i_dst i) cpu; op2 = i_Id i;
         res = op1 + op2;
         cpu = BX_WRITE_32BIT_REGZ (i_dst i) res cpu
     in upd_flags (SET_FLAGS_OSZAPC_ADD_32 op1 op2 res) cpu)"

definition ADC_EdIdR :: "bxInstruction \<Rightarrow> bx_cpu \<Rightarrow> bx_cpu" where
  "ADC_EdIdR i cpu =
    (let op1 = BX_READ_32BIT_REG (i_dst i) cpu; op2 = i_Id i;
         res = op1 + op2 + getB_CF (oszapc cpu);
         cpu = BX_WRITE_32BIT_REGZ (i_dst i) res cpu
     in upd_flags (SET_FLAGS_OSZAPC_ADD_32 op1 op2 res) cpu)"

definition SUB_EdIdR :: "bxInstruction \<Rightarrow> bx_cpu \<Rightarrow> bx_cpu" where
  "SUB_EdIdR i cpu =
    (let op1 = BX_READ_32BIT_REG (i_dst i) cpu; op2 = i_Id i;
         diff = op1 - op2;
         cpu = BX_WRITE_32BIT_REGZ (i_dst i) diff cpu
     in upd_flags (SET_FLAGS_OSZAPC_SUB_32 op1 op2 diff) cpu)"

definition SBB_EdIdR :: "bxInstruction \<Rightarrow> bx_cpu \<Rightarrow> bx_cpu" where
  "SBB_EdIdR i cpu =
    (let op1 = BX_READ_32BIT_REG (i_dst i) cpu; op2 = i_Id i;
         diff = op1 - (op2 + getB_CF (oszapc cpu));
         cpu = BX_WRITE_32BIT_REGZ (i_dst i) diff cpu
     in upd_flags (SET_FLAGS_OSZAPC_SUB_32 op1 op2 diff) cpu)"

definition CMP_EdIdR :: "bxInstruction \<Rightarrow> bx_cpu \<Rightarrow> bx_cpu" where
  "CMP_EdIdR i cpu =
    (let op1 = BX_READ_32BIT_REG (i_dst i) cpu; op2 = i_Id i;
         diff = op1 - op2
     in upd_flags (SET_FLAGS_OSZAPC_SUB_32 op1 op2 diff) cpu)"

definition XADD_EdGdR :: "bxInstruction \<Rightarrow> bx_cpu \<Rightarrow> bx_cpu" where
  "XADD_EdGdR i cpu =
    (let op1 = BX_READ_32BIT_REG (i_dst i) cpu; op2 = BX_READ_32BIT_REG (i_src i) cpu; res = op1 + op2;
         cpu = BX_WRITE_32BIT_REGZ (i_src i) op1 cpu;
         cpu = BX_WRITE_32BIT_REGZ (i_dst i) res cpu
     in upd_flags (SET_FLAGS_OSZAPC_ADD_32 op1 op2 res) cpu)"

definition INC_EdR :: "bxInstruction \<Rightarrow> bx_cpu \<Rightarrow> bx_cpu" where
  "INC_EdR i cpu =
    (let cpu = BX_WRITE_32BIT_REGZ (i_dst i) (BX_READ_32BIT_REG (i_dst i) cpu + 1) cpu;
         rx = BX_READ_32BIT_REG (i_dst i) cpu;
         cpu = upd_flags (SET_FLAGS_OSZAP_ADD_32 (rx - 1) 0 rx) cpu
     in BX_CLEAR_64BIT_HIGH (i_dst i) cpu)"

definition DEC_EdR :: "bxInstruction \<Rightarrow> bx_cpu \<Rightarrow> bx_cpu" where
  "DEC_EdR i cpu =
    (let cpu = BX_WRITE_32BIT_REGZ (i_dst i) (BX_READ_32BIT_REG (i_dst i) cpu - 1) cpu;
         rx = BX_READ_32BIT_REG (i_dst i) cpu;
         cpu = upd_flags (SET_FLAGS_OSZAP_SUB_32 (rx + 1) 0 rx) cpu
     in BX_CLEAR_64BIT_HIGH (i_dst i) cpu)"

definition NEG_EdR :: "bxInstruction \<Rightarrow> bx_cpu \<Rightarrow> bx_cpu" where
  "NEG_EdR i cpu =
    (let op1 = BX_READ_32BIT_REG (i_dst i) cpu; op1 = - op1;
         cpu = BX_WRITE_32BIT_REGZ (i_dst i) op1 cpu
     in upd_flags (SET_FLAGS_OSZAPC_SUB_32 0 (0 - op1) op1) cpu)"

definition CMPXCHG_EdGdR :: "bxInstruction \<Rightarrow> bx_cpu \<Rightarrow> bx_cpu" where
  "CMPXCHG_EdGdR i cpu =
    (let op1 = BX_READ_32BIT_REG (i_dst i) cpu; diff = EAX cpu - op1;
         cpu = upd_flags (SET_FLAGS_OSZAPC_SUB_32 (EAX cpu) op1 diff) cpu
     in if diff = 0 then BX_WRITE_32BIT_REGZ (i_dst i) (BX_READ_32BIT_REG (i_src i) cpu) cpu
        else set_EAX op1 cpu)"

definition CWDE :: "bxInstruction \<Rightarrow> bx_cpu \<Rightarrow> bx_cpu" where
  "CWDE i cpu = set_EAX (scast (AX cpu)) cpu"

definition CDQ :: "bxInstruction \<Rightarrow> bx_cpu \<Rightarrow> bx_cpu" where
  "CDQ i cpu = (if EAX cpu AND 0x80000000 \<noteq> 0 then set_EDX 0xFFFFFFFF cpu else set_EDX 0x00000000 cpu)"

section \<open>Outcome of the handlers\<close>

lemma arith8_handlers:
  "alu_step (BX_WRITE_8BIT_REG (i_dst i) (dst8 i cpu + src8 i cpu))
     (ref_add (dst8 i cpu) (src8 i cpu) False) cpu (ADD_GbEbR i cpu)"
  "alu_step (BX_WRITE_8BIT_REG (i_dst i) (dst8 i cpu + src8 i cpu + of_bool (CF cpu)))
     (ref_add (dst8 i cpu) (src8 i cpu) (CF cpu)) cpu (ADC_GbEbR i cpu)"
  "alu_step (BX_WRITE_8BIT_REG (i_dst i) (dst8 i cpu - src8 i cpu))
     (ref_sub (dst8 i cpu) (src8 i cpu) False) cpu (SUB_GbEbR i cpu)"
  "alu_step (BX_WRITE_8BIT_REG (i_dst i) (dst8 i cpu - src8 i cpu - of_bool (CF cpu)))
     (ref_sub (dst8 i cpu) (src8 i cpu) (CF cpu)) cpu (SBB_GbEbR i cpu)"
  "alu_step (\<lambda>c. c)
     (ref_sub (dst8 i cpu) (src8 i cpu) False) cpu (CMP_GbEbR i cpu)"
  "alu_step (BX_WRITE_8BIT_REG (i_dst i) (dst8 i cpu + i_Ib i))
     (ref_add (dst8 i cpu) (i_Ib i) False) cpu (ADD_EbIbR i cpu)"
  "alu_step (BX_WRITE_8BIT_REG (i_dst i) (dst8 i cpu + i_Ib i + of_bool (CF cpu)))
     (ref_add (dst8 i cpu) (i_Ib i) (CF cpu)) cpu (ADC_EbIbR i cpu)"
  "alu_step (BX_WRITE_8BIT_REG (i_dst i) (dst8 i cpu - i_Ib i))
     (ref_sub (dst8 i cpu) (i_Ib i) False) cpu (SUB_EbIbR i cpu)"
  "alu_step (BX_WRITE_8BIT_REG (i_dst i) (dst8 i cpu - i_Ib i - of_bool (CF cpu)))
     (ref_sub (dst8 i cpu) (i_Ib i) (CF cpu)) cpu (SBB_EbIbR i cpu)"
  "alu_step (\<lambda>c. c)
     (ref_sub (dst8 i cpu) (i_Ib i) False) cpu (CMP_EbIbR i cpu)"
  by (simp_all add: alu_step_def ADD_GbEbR_def ADC_GbEbR_def SUB_GbEbR_def SBB_GbEbR_def CMP_GbEbR_def ADD_EbIbR_def ADC_EbIbR_def SUB_EbIbR_def SBB_EbIbR_def CMP_EbIbR_def
      Let_def getB_lf_get ucast_alu ADD_8_ref(1) SUB_8_ref(1) diff_diff_eq)

lemma arith16_handlers:
  "alu_step (BX_WRITE_16BIT_REG (i_dst i) (dst16 i cpu + src16 i cpu))
     (ref_add (dst16 i cpu) (src16 i cpu) False) cpu (ADD_GwEwR i cpu)"
  "alu_step (BX_WRITE_16BIT_REG (i_dst i) (dst16 i cpu + src16 i cpu + of_bool (CF cpu)))
     (ref_add (dst16 i cpu) (src16 i cpu) (CF cpu)) cpu (ADC_GwEwR i cpu)"
  "alu_step (BX_WRITE_16BIT_REG (i_dst i) (dst16 i cpu - src16 i cpu))
     (ref_sub (dst16 i cpu) (src16 i cpu) False) cpu (SUB_GwEwR i cpu)"
  "alu_step (BX_WRITE_16BIT_REG (i_dst i) (dst16 i cpu - src16 i cpu - of_bool (CF cpu)))
     (ref_sub (dst16 i cpu) (src16 i cpu) (CF cpu)) cpu (SBB_GwEwR i cpu)"
  "alu_step (\<lambda>c. c)
     (ref_sub (dst16 i cpu) (src16 i cpu) False) cpu (CMP_GwEwR i cpu)"
  "alu_step (BX_WRITE_16BIT_REG (i_dst i) (dst16 i cpu + i_Iw i))
     (ref_add (dst16 i cpu) (i_Iw i) False) cpu (ADD_EwIwR i cpu)"
  "alu_step (BX_WRITE_16BIT_REG (i_dst i) (dst16 i cpu + i_Iw i + of_bool (CF cpu)))
     (ref_add (dst16 i cpu) (i_Iw i) (CF cpu)) cpu (ADC_EwIwR i cpu)"
  "alu_step (BX_WRITE_16BIT_REG (i_dst i) (dst16 i cpu - i_Iw i))
     (ref_sub (dst16 i cpu) (i_Iw i) False) cpu (SUB_EwIwR i cpu)"
  "alu_step (BX_WRITE_16BIT_REG (i_dst i) (dst16 i cpu - i_Iw i - of_bool (CF cpu)))
     (ref_sub (dst16 i cpu) (i_Iw i) (CF cpu)) cpu (SBB_EwIwR i cpu)"
  "alu_step (\<lambda>c. c)
     (ref_sub (dst16 i cpu) (i_Iw i) False) cpu (CMP_EwIwR i cpu)"
  by (simp_all add: alu_step_def ADD_GwEwR_def ADC_GwEwR_def SUB_GwEwR_def SBB_GwEwR_def CMP_GwEwR_def ADD_EwIwR_def ADC_EwIwR_def SUB_EwIwR_def SBB_EwIwR_def CMP_EwIwR_def
      Let_def getB_lf_get ucast_alu ADD_16_ref(1) SUB_16_ref(1) diff_diff_eq)

lemma arith32_handlers:
  "alu_step (BX_WRITE_32BIT_REGZ (i_dst i) (dst32 i cpu + src32 i cpu))
     (ref_add (dst32 i cpu) (src32 i cpu) False) cpu (ADD_GdEdR i cpu)"
  "alu_step (BX_WRITE_32BIT_REGZ (i_dst i) (dst32 i cpu + src32 i cpu + of_bool (CF cpu)))
     (ref_add (dst32 i cpu) (src32 i cpu) (CF cpu)) cpu (ADC_GdEdR i cpu)"
  "alu_step (BX_WRITE_32BIT_REGZ (i_dst i) (dst32 i cpu - src32 i cpu))
     (ref_sub (dst32 i cpu) (src32 i cpu) False) cpu (SUB_GdEdR i cpu)"
  "alu_step (BX_WRITE_32BIT_REGZ (i_dst i) (dst32 i cpu - src32 i cpu - of_bool (CF cpu)))
     (ref_sub (dst32 i cpu) (src32 i cpu) (CF cpu)) cpu (SBB_GdEdR i cpu)"
  "alu_step (\<lambda>c. c)
     (ref_sub (dst32 i cpu) (src32 i cpu) False) cpu (CMP_GdEdR i cpu)"
  "alu_step (BX_WRITE_32BIT_REGZ (i_dst i) (dst32 i cpu + i_Id i))
     (ref_add (dst32 i cpu) (i_Id i) False) cpu (ADD_EdIdR i cpu)"
  "alu_step (BX_WRITE_32BIT_REGZ (i_dst i) (dst32 i cpu + i_Id i + of_bool (CF cpu)))
     (ref_add (dst32 i cpu) (i_Id i) (CF cpu)) cpu (ADC_EdIdR i cpu)"
  "alu_step (BX_WRITE_32BIT_REGZ (i_dst i) (dst32 i cpu - i_Id i))
     (ref_sub (dst32 i cpu) (i_Id i) False) cpu (SUB_EdIdR i cpu)"
  "alu_step (BX_WRITE_32BIT_REGZ (i_dst i) (dst32 i cpu - i_Id i - of_bool (CF cpu)))
     (ref_sub (dst32 i cpu) (i_Id i) (CF cpu)) cpu (SBB_EdIdR i cpu)"
  "alu_step (\<lambda>c. c)
     (ref_sub (dst32 i cpu) (i_Id i) False) cpu (CMP_EdIdR i cpu)"
  by (simp_all add: alu_step_def ADD_GdEdR_def ADC_GdEdR_def SUB_GdEdR_def SBB_GdEdR_def CMP_GdEdR_def ADD_EdIdR_def ADC_EdIdR_def SUB_EdIdR_def SBB_EdIdR_def CMP_EdIdR_def
      Let_def getB_lf_get ucast_alu ADD_32_ref(1) SUB_32_ref(1) diff_diff_eq)

lemma add_carry_value:
  "uint (x + y + of_bool c) + 2 ^ LENGTH('n) * of_bool (ref_add x y c Carry) =
    uint x + uint y + of_bool c" for x y :: "'n::len word"
proof -
  have b: "uint x + uint y + of_bool c < 2 * 2 ^ LENGTH('n)" "0 \<le> uint x + uint y + of_bool c"
    using uint_lt2p [of x] uint_lt2p [of y] uint_ge_0 [of x] uint_ge_0 [of y]
      of_bool_int_range [of c] by linarith+
  have "uint (x + y + of_bool c) = (uint x + uint y + of_bool c) mod 2 ^ LENGTH('n)"
    by (cases c) (simp_all add: uint_word_arith_bintrs take_bit_eq_mod mod_simps)
  also have "\<dots> = uint x + uint y + of_bool c - 2 ^ LENGTH('n) * of_bool (ref_add x y c Carry)"
    using b by (cases "2 ^ LENGTH('n) \<le> uint x + uint y + of_bool c") (simp_all add: mod_once)
  finally show ?thesis by simp
qed

lemma sub_borrow_value:
  "uint (x - y - of_bool c) - 2 ^ LENGTH('n) * of_bool (ref_sub x y c Carry) =
    uint x - uint y - of_bool c" for x y :: "'n::len word"
proof -
  have b: "uint x - uint y - of_bool c < 2 ^ LENGTH('n)" "- (2 ^ LENGTH('n)) \<le> uint x - uint y - of_bool c"
    using uint_lt2p [of x] uint_lt2p [of y] uint_ge_0 [of x] uint_ge_0 [of y]
      of_bool_int_range [of c] by linarith+
  have "uint (x - y - of_bool c) = (uint x - uint y - of_bool c) mod 2 ^ LENGTH('n)"
    by (cases c) (simp_all add: uint_word_arith_bintrs take_bit_eq_mod mod_simps)
  also have "\<dots> = uint x - uint y - of_bool c + 2 ^ LENGTH('n) * of_bool (ref_sub x y c Carry)"
    using b by (cases "uint x - uint y - of_bool c < 0") (simp_all add: mod_once)
  finally show ?thesis by simp
qed

lemma sint_low_bound: "- (2 ^ (LENGTH('n) - 1)) \<le> sint x \<and> sint x < 2 ^ (LENGTH('n) - 1)"
  for x :: "'n::len word"
  using sint_greater_eq [of x] sint_less [of x] by auto

lemma sint_uint: "sint x = uint x - 2 ^ LENGTH('n) * of_bool (bit x (LENGTH('n) - 1))"
  for x :: "'n::len word"
  by (simp add: sint_signed_take_bit signed_take_bit_eq_take_bit_minus bit_word_uint)

lemma sint_scast_up16: "sint (scast x :: Bit16u) = sint x" for x :: Bit8u
proof (rule bit_eqI)
  show "bit (sint (scast x :: Bit16u)) n = bit (sint x) n" for n
    by (cases "n = 7") (auto simp: bit_sint_iff bit_signed_iff min_def dest: bit_imp_le_length)
qed

lemma sint_scast_up32: "sint (scast y :: Bit32u) = sint y" for y :: Bit16u
proof (rule bit_eqI)
  show "bit (sint (scast y :: Bit32u)) n = bit (sint y) n" for n
    by (cases "n = 15") (auto simp: bit_sint_iff bit_signed_iff min_def dest: bit_imp_le_length)
qed

lemma test_sign16: "(y AND 0x8000 \<noteq> 0) = bit y 15" for y :: Bit16u
  using and_exp_eq_0_iff_not_bit [of y 15] by simp
lemma test_sign32: "(z AND 0x80000000 \<noteq> 0) = bit z 31" for z :: Bit32u
  using and_exp_eq_0_iff_not_bit [of z 31] by simp
lemma sub_sign_overflow:
  fixes d :: int
  assumes "- (2 * P) < d" "d < 2 * P" "0 < P"
  shows "((d + P) mod (2 * P) - P < 0) = ((d < - P \<or> P \<le> d) \<noteq> (d < 0))"
proof -
  consider "d < - P" | "- P \<le> d" "d < P" | "P \<le> d" by linarith
  then show ?thesis
  proof cases
    case 1
    then have "(d + P) mod (2 * P) = d + P + 2 * P"
      using assms by (intro mod_once(1)) auto
    then show ?thesis using 1 assms by auto
  next
    case 2 then show ?thesis using assms by (auto simp: mod_pos_pos_trivial)
  next
    case 3
    then have "(d + P) mod (2 * P) = d + P - 2 * P"
      using assms by (intro mod_once(2)) auto
    then show ?thesis using 3 assms by auto
  qed
qed

lemma signed_compare: "(ref_sub x y False Sign \<noteq> ref_sub x y False Overflow) = (sint x < sint y)"
  for x y :: "'n::len word"
proof -
  let ?P = "2 ^ (LENGTH('n) - 1) :: int"
  have l: "2 * ?P = 2 ^ LENGTH('n)"
    by (simp flip: power_Suc)
  have r: "sint (x - y) = (sint x - sint y + ?P) mod (2 * ?P) - ?P"
    unfolding l by (simp add: sint_word_ariths signed_take_bit_eq_take_bit_shift take_bit_eq_mod)
  have b: "- ?P \<le> sint x" "sint x < ?P" "- ?P \<le> sint y" "sint y < ?P"
    using sint_low_bound [of x] sint_low_bound [of y] by simp_all
  have "(sint (x - y) < 0) = ((sint x - sint y < - ?P \<or> ?P \<le> sint x - sint y) \<noteq> (sint x - sint y < 0))"
    unfolding r by (rule sub_sign_overflow) (use b in auto)
  then show ?thesis by auto
qed

lemma ref_add_1: "ref_add x 0 True f = ref_add x 1 False f" if "LENGTH('n) > 1" for x :: "'n::len word"
  using that apply (cases f) apply simp_all
  done

lemma ref_sub_1: "ref_sub x 0 True f = ref_sub x 1 False f" if "LENGTH('n) > 1" for x :: "'n::len word"
  using that by (cases f) simp_all

lemma ucast_inject8: "((ucast x :: Bit32u) = ucast y) = (x = y)" for x y :: Bit8u
  by (metis ucast_low(1))

lemma ucast_scast [simp]:
  "(ucast (scast x :: Bit32u) :: Bit8u) = x" "(ucast (scast y :: Bit32u) :: Bit16u) = y"
  for x :: Bit8u and y :: Bit16u
  by (rule bit_word_eqI; simp add: bit_ucast_iff bit_signed_iff)+

lemma unary8_handlers:
  "alu_step (BX_WRITE_8BIT_REG (i_dst i) (dst8 i cpu + 1))
     (\<lambda>f. if f = Carry then CF cpu else ref_add (dst8 i cpu) 1 False f) cpu (INC_EbR i cpu)"
  "alu_step (BX_WRITE_8BIT_REG (i_dst i) (dst8 i cpu - 1))
     (\<lambda>f. if f = Carry then CF cpu else ref_sub (dst8 i cpu) 1 False f) cpu (DEC_EbR i cpu)"
  "alu_step (BX_WRITE_8BIT_REG (i_dst i) (- dst8 i cpu))
     (ref_sub 0 (dst8 i cpu) False) cpu (NEG_EbR i cpu)"
  by (simp_all add: alu_step_def INC_EbR_def DEC_EbR_def NEG_EbR_def Let_def ucast_alu
       ADD_8_ref(2) [where c = True] SUB_8_ref(2) [where c = True]
      SUB_8_ref(1) [where c = False] ref_add_1 ref_sub_1)

lemma unary16_handlers:
  "alu_step (BX_WRITE_16BIT_REG (i_dst i) (dst16 i cpu + 1))
     (\<lambda>f. if f = Carry then CF cpu else ref_add (dst16 i cpu) 1 False f) cpu (INC_EwR i cpu)"
  "alu_step (BX_WRITE_16BIT_REG (i_dst i) (dst16 i cpu - 1))
     (\<lambda>f. if f = Carry then CF cpu else ref_sub (dst16 i cpu) 1 False f) cpu (DEC_EwR i cpu)"
  "alu_step (BX_WRITE_16BIT_REG (i_dst i) (- dst16 i cpu))
     (ref_sub 0 (dst16 i cpu) False) cpu (NEG_EwR i cpu)"
  by (simp_all add: alu_step_def INC_EwR_def DEC_EwR_def NEG_EwR_def Let_def ucast_alu
      regs16.rd_wr ADD_16_ref(2) [where c = True] SUB_16_ref(2) [where c = True]
      SUB_16_ref(1) [where c = False] ref_add_1 ref_sub_1)

lemma unary32_handlers:
  "alu_step (BX_WRITE_32BIT_REGZ (i_dst i) (dst32 i cpu + 1))
     (\<lambda>f. if f = Carry then CF cpu else ref_add (dst32 i cpu) 1 False f) cpu (INC_EdR i cpu)"
  "alu_step (BX_WRITE_32BIT_REGZ (i_dst i) (dst32 i cpu - 1))
     (\<lambda>f. if f = Carry then CF cpu else ref_sub (dst32 i cpu) 1 False f) cpu (DEC_EdR i cpu)"
  "alu_step (BX_WRITE_32BIT_REGZ (i_dst i) (- dst32 i cpu))
     (ref_sub 0 (dst32 i cpu) False) cpu (NEG_EdR i cpu)"
  by (simp_all add: alu_step_def INC_EdR_def DEC_EdR_def NEG_EdR_def Let_def ucast_alu BX_CLEAR_64BIT_HIGH_def
      regs32.rd_wr ADD_32_ref(2) [where c = True] SUB_32_ref(2) [where c = True]
      SUB_32_ref(1) [where c = False] ref_add_1 ref_sub_1)

lemma exchange8_handlers:
  "alu_step (BX_WRITE_8BIT_REG (i_dst i) (dst8 i cpu + src8 i cpu) \<circ> BX_WRITE_8BIT_REG (i_src i) (dst8 i cpu))
     (ref_add (dst8 i cpu) (src8 i cpu) False) cpu (XADD_EbGbR i cpu)"
  "alu_step (if AL cpu = dst8 i cpu then BX_WRITE_8BIT_REG (i_dst i) (src8 i cpu) else set_AL (dst8 i cpu))
     (ref_sub (AL cpu) (dst8 i cpu) False) cpu (CMPXCHG_EbGbR i cpu)"
  by (simp_all add: alu_step_def XADD_EbGbR_def CMPXCHG_EbGbR_def Let_def ucast_alu
      write_upd_flags ucast_inject8 ADD_8_ref(1) SUB_8_ref(1))

lemma exchange16_handlers:
  "alu_step (BX_WRITE_16BIT_REG (i_dst i) (dst16 i cpu + src16 i cpu) \<circ> BX_WRITE_16BIT_REG (i_src i) (dst16 i cpu))
     (ref_add (dst16 i cpu) (src16 i cpu) False) cpu (XADD_EwGwR i cpu)"
  "alu_step (if AX cpu = dst16 i cpu then BX_WRITE_16BIT_REG (i_dst i) (src16 i cpu) else set_AX (dst16 i cpu))
     (ref_sub (AX cpu) (dst16 i cpu) False) cpu (CMPXCHG_EwGwR i cpu)"
  by (simp_all add: alu_step_def XADD_EwGwR_def CMPXCHG_EwGwR_def Let_def ucast_alu
      write_upd_flags ADD_16_ref(1) SUB_16_ref(1))

lemma exchange32_handlers:
  "alu_step (BX_WRITE_32BIT_REGZ (i_dst i) (dst32 i cpu + src32 i cpu) \<circ> BX_WRITE_32BIT_REGZ (i_src i) (dst32 i cpu))
     (ref_add (dst32 i cpu) (src32 i cpu) False) cpu (XADD_EdGdR i cpu)"
  "alu_step (if EAX cpu = dst32 i cpu then BX_WRITE_32BIT_REGZ (i_dst i) (src32 i cpu) else set_EAX (dst32 i cpu))
     (ref_sub (EAX cpu) (dst32 i cpu) False) cpu (CMPXCHG_EdGdR i cpu)"
  by (simp_all add: alu_step_def XADD_EdGdR_def CMPXCHG_EdGdR_def Let_def ucast_alu
      write_upd_flags ADD_32_ref(1) SUB_32_ref(1))


lemma word_rx_puts [simp]: "AX (set_DX v cpu) = AX cpu" "DX (set_DX v cpu) = v"
  "EAX (set_EDX w cpu) = EAX cpu" "EDX (set_EDX w cpu) = w"
  by simp_all

lemma sign_extensions:
  "sint (AX (CBW i cpu)) = sint (AL cpu)"
  "sint (EAX (CWDE i cpu)) = sint (AX cpu)"
  "sint (DX (CWD i cpu)) * 2 ^ 16 + uint (AX (CWD i cpu)) = sint (AX cpu)"
  "sint (EDX (CDQ i cpu)) * 2 ^ 32 + uint (EAX (CDQ i cpu)) = sint (EAX cpu)"
  by (simp_all add: CBW_def CWDE_def CWD_def CDQ_def sint_scast_up16 sint_scast_up32
      test_sign16 [simplified] test_sign32 [simplified] sint_uint [of "AX cpu"] sint_uint [of "EAX cpu"])

lemma cmp_order:
  "ref_sub x y False Carry = (x < y)" "ref_sub x y False Zero = (x = y)" for x y :: "'n::len word"
  by (simp_all add: word_less_def)

lemmas cmp_flags = arith8_handlers(5) [THEN alu_stepD(3)] arith16_handlers(5) [THEN alu_stepD(3)]
  arith32_handlers(5) [THEN alu_stepD(3)]

section \<open>Properties\<close>

text \<open>
  The byte forms of ADD, ADC, SUB, SBB and CMP of cpu/arith8.cc, with a register or an
  immediate as second operand: each writes the sum or difference of its operands modulo
  2 to the power 8 (with the old carry for ADC and SBB) to the destination only (CMP
  writes nothing), and the six recomputed flags are those of the reference arithmetic.
\<close>

theorem arith8_correct:
  "(alu_step (BX_WRITE_8BIT_REG (i_dst i) (dst8 i cpu + src8 i cpu))
     (ref_add (dst8 i cpu) (src8 i cpu) False) cpu (ADD_GbEbR i cpu)) \<and>
   (alu_step (BX_WRITE_8BIT_REG (i_dst i) (dst8 i cpu + src8 i cpu + of_bool (CF cpu)))
     (ref_add (dst8 i cpu) (src8 i cpu) (CF cpu)) cpu (ADC_GbEbR i cpu)) \<and>
   (alu_step (BX_WRITE_8BIT_REG (i_dst i) (dst8 i cpu - src8 i cpu))
     (ref_sub (dst8 i cpu) (src8 i cpu) False) cpu (SUB_GbEbR i cpu)) \<and>
   (alu_step (BX_WRITE_8BIT_REG (i_dst i) (dst8 i cpu - src8 i cpu - of_bool (CF cpu)))
     (ref_sub (dst8 i cpu) (src8 i cpu) (CF cpu)) cpu (SBB_GbEbR i cpu)) \<and>
   (alu_step (\<lambda>c. c)
     (ref_sub (dst8 i cpu) (src8 i cpu) False) cpu (CMP_GbEbR i cpu)) \<and>
   (alu_step (BX_WRITE_8BIT_REG (i_dst i) (dst8 i cpu + i_Ib i))
     (ref_add (dst8 i cpu) (i_Ib i) False) cpu (ADD_EbIbR i cpu)) \<and>
   (alu_step (BX_WRITE_8BIT_REG (i_dst i) (dst8 i cpu + i_Ib i + of_bool (CF cpu)))
     (ref_add (dst8 i cpu) (i_Ib i) (CF cpu)) cpu (ADC_EbIbR i cpu)) \<and>
   (alu_step (BX_WRITE_8BIT_REG (i_dst i) (dst8 i cpu - i_Ib i))
     (ref_sub (dst8 i cpu) (i_Ib i) False) cpu (SUB_EbIbR i cpu)) \<and>
   (alu_step (BX_WRITE_8BIT_REG (i_dst i) (dst8 i cpu - i_Ib i - of_bool (CF cpu)))
     (ref_sub (dst8 i cpu) (i_Ib i) (CF cpu)) cpu (SBB_EbIbR i cpu)) \<and>
   (alu_step (\<lambda>c. c)
     (ref_sub (dst8 i cpu) (i_Ib i) False) cpu (CMP_EbIbR i cpu))"
  by (intro conjI; rule arith8_handlers)

text \<open>
  C33. The word forms of ADD, ADC, SUB, SBB and CMP of cpu/arith16.cc, with a register or an
  immediate as second operand: each writes the sum or difference of its operands modulo
  2 to the power 16 (with the old carry for ADC and SBB) to the destination only (CMP
  writes nothing), and the six recomputed flags are those of the reference arithmetic.
\<close>

theorem arith16_correct:
  "(alu_step (BX_WRITE_16BIT_REG (i_dst i) (dst16 i cpu + src16 i cpu))
     (ref_add (dst16 i cpu) (src16 i cpu) False) cpu (ADD_GwEwR i cpu)) \<and>
   (alu_step (BX_WRITE_16BIT_REG (i_dst i) (dst16 i cpu + src16 i cpu + of_bool (CF cpu)))
     (ref_add (dst16 i cpu) (src16 i cpu) (CF cpu)) cpu (ADC_GwEwR i cpu)) \<and>
   (alu_step (BX_WRITE_16BIT_REG (i_dst i) (dst16 i cpu - src16 i cpu))
     (ref_sub (dst16 i cpu) (src16 i cpu) False) cpu (SUB_GwEwR i cpu)) \<and>
   (alu_step (BX_WRITE_16BIT_REG (i_dst i) (dst16 i cpu - src16 i cpu - of_bool (CF cpu)))
     (ref_sub (dst16 i cpu) (src16 i cpu) (CF cpu)) cpu (SBB_GwEwR i cpu)) \<and>
   (alu_step (\<lambda>c. c)
     (ref_sub (dst16 i cpu) (src16 i cpu) False) cpu (CMP_GwEwR i cpu)) \<and>
   (alu_step (BX_WRITE_16BIT_REG (i_dst i) (dst16 i cpu + i_Iw i))
     (ref_add (dst16 i cpu) (i_Iw i) False) cpu (ADD_EwIwR i cpu)) \<and>
   (alu_step (BX_WRITE_16BIT_REG (i_dst i) (dst16 i cpu + i_Iw i + of_bool (CF cpu)))
     (ref_add (dst16 i cpu) (i_Iw i) (CF cpu)) cpu (ADC_EwIwR i cpu)) \<and>
   (alu_step (BX_WRITE_16BIT_REG (i_dst i) (dst16 i cpu - i_Iw i))
     (ref_sub (dst16 i cpu) (i_Iw i) False) cpu (SUB_EwIwR i cpu)) \<and>
   (alu_step (BX_WRITE_16BIT_REG (i_dst i) (dst16 i cpu - i_Iw i - of_bool (CF cpu)))
     (ref_sub (dst16 i cpu) (i_Iw i) (CF cpu)) cpu (SBB_EwIwR i cpu)) \<and>
   (alu_step (\<lambda>c. c)
     (ref_sub (dst16 i cpu) (i_Iw i) False) cpu (CMP_EwIwR i cpu))"
  by (intro conjI; rule arith16_handlers)

text \<open>
  C32. The dword forms of ADD, ADC, SUB, SBB and CMP of cpu/arith32.cc, with a register or an
  immediate as second operand: each writes the sum or difference of its operands modulo
  2 to the power 32 (with the old carry for ADC and SBB) to the destination only (CMP
  writes nothing), and the six recomputed flags are those of the reference arithmetic.
\<close>

theorem arith32_correct:
  "(alu_step (BX_WRITE_32BIT_REGZ (i_dst i) (dst32 i cpu + src32 i cpu))
     (ref_add (dst32 i cpu) (src32 i cpu) False) cpu (ADD_GdEdR i cpu)) \<and>
   (alu_step (BX_WRITE_32BIT_REGZ (i_dst i) (dst32 i cpu + src32 i cpu + of_bool (CF cpu)))
     (ref_add (dst32 i cpu) (src32 i cpu) (CF cpu)) cpu (ADC_GdEdR i cpu)) \<and>
   (alu_step (BX_WRITE_32BIT_REGZ (i_dst i) (dst32 i cpu - src32 i cpu))
     (ref_sub (dst32 i cpu) (src32 i cpu) False) cpu (SUB_GdEdR i cpu)) \<and>
   (alu_step (BX_WRITE_32BIT_REGZ (i_dst i) (dst32 i cpu - src32 i cpu - of_bool (CF cpu)))
     (ref_sub (dst32 i cpu) (src32 i cpu) (CF cpu)) cpu (SBB_GdEdR i cpu)) \<and>
   (alu_step (\<lambda>c. c)
     (ref_sub (dst32 i cpu) (src32 i cpu) False) cpu (CMP_GdEdR i cpu)) \<and>
   (alu_step (BX_WRITE_32BIT_REGZ (i_dst i) (dst32 i cpu + i_Id i))
     (ref_add (dst32 i cpu) (i_Id i) False) cpu (ADD_EdIdR i cpu)) \<and>
   (alu_step (BX_WRITE_32BIT_REGZ (i_dst i) (dst32 i cpu + i_Id i + of_bool (CF cpu)))
     (ref_add (dst32 i cpu) (i_Id i) (CF cpu)) cpu (ADC_EdIdR i cpu)) \<and>
   (alu_step (BX_WRITE_32BIT_REGZ (i_dst i) (dst32 i cpu - i_Id i))
     (ref_sub (dst32 i cpu) (i_Id i) False) cpu (SUB_EdIdR i cpu)) \<and>
   (alu_step (BX_WRITE_32BIT_REGZ (i_dst i) (dst32 i cpu - i_Id i - of_bool (CF cpu)))
     (ref_sub (dst32 i cpu) (i_Id i) (CF cpu)) cpu (SBB_EdIdR i cpu)) \<and>
   (alu_step (\<lambda>c. c)
     (ref_sub (dst32 i cpu) (i_Id i) False) cpu (CMP_EdIdR i cpu))"
  by (intro conjI; rule arith32_handlers)

text \<open>
  INC, DEC and NEG at the three operand sizes: INC and DEC write the operand plus or
  minus one with the flags of that addition or subtraction and keep CF, although the
  handlers recompute the old operand from the result; NEG writes the two's complement with
  the flags of subtracting the operand from zero.
\<close>

theorem inc_dec_neg_correct:
  "(alu_step (BX_WRITE_8BIT_REG (i_dst i) (dst8 i cpu + 1))
     (\<lambda>f. if f = Carry then CF cpu else ref_add (dst8 i cpu) 1 False f) cpu (INC_EbR i cpu)) \<and>
   (alu_step (BX_WRITE_8BIT_REG (i_dst i) (dst8 i cpu - 1))
     (\<lambda>f. if f = Carry then CF cpu else ref_sub (dst8 i cpu) 1 False f) cpu (DEC_EbR i cpu)) \<and>
   (alu_step (BX_WRITE_8BIT_REG (i_dst i) (- dst8 i cpu))
     (ref_sub 0 (dst8 i cpu) False) cpu (NEG_EbR i cpu)) \<and>
   (alu_step (BX_WRITE_16BIT_REG (i_dst i) (dst16 i cpu + 1))
     (\<lambda>f. if f = Carry then CF cpu else ref_add (dst16 i cpu) 1 False f) cpu (INC_EwR i cpu)) \<and>
   (alu_step (BX_WRITE_16BIT_REG (i_dst i) (dst16 i cpu - 1))
     (\<lambda>f. if f = Carry then CF cpu else ref_sub (dst16 i cpu) 1 False f) cpu (DEC_EwR i cpu)) \<and>
   (alu_step (BX_WRITE_16BIT_REG (i_dst i) (- dst16 i cpu))
     (ref_sub 0 (dst16 i cpu) False) cpu (NEG_EwR i cpu)) \<and>
   (alu_step (BX_WRITE_32BIT_REGZ (i_dst i) (dst32 i cpu + 1))
     (\<lambda>f. if f = Carry then CF cpu else ref_add (dst32 i cpu) 1 False f) cpu (INC_EdR i cpu)) \<and>
   (alu_step (BX_WRITE_32BIT_REGZ (i_dst i) (dst32 i cpu - 1))
     (\<lambda>f. if f = Carry then CF cpu else ref_sub (dst32 i cpu) 1 False f) cpu (DEC_EdR i cpu)) \<and>
   (alu_step (BX_WRITE_32BIT_REGZ (i_dst i) (- dst32 i cpu))
     (ref_sub 0 (dst32 i cpu) False) cpu (NEG_EdR i cpu))"
  by (intro conjI; rule unary8_handlers unary16_handlers unary32_handlers)

text \<open>
  XADD writes the old destination to the source and then the sum to the destination;
  CMPXCHG compares the accumulator with the destination (with the flags of that
  subtraction) and writes the source to the destination when they are equal and the
  destination to the accumulator when they are not.
\<close>

theorem xadd_cmpxchg_correct:
  "(alu_step (BX_WRITE_8BIT_REG (i_dst i) (dst8 i cpu + src8 i cpu) \<circ> BX_WRITE_8BIT_REG (i_src i) (dst8 i cpu))
     (ref_add (dst8 i cpu) (src8 i cpu) False) cpu (XADD_EbGbR i cpu)) \<and>
   (alu_step (if AL cpu = dst8 i cpu then BX_WRITE_8BIT_REG (i_dst i) (src8 i cpu) else set_AL (dst8 i cpu))
     (ref_sub (AL cpu) (dst8 i cpu) False) cpu (CMPXCHG_EbGbR i cpu)) \<and>
   (alu_step (BX_WRITE_16BIT_REG (i_dst i) (dst16 i cpu + src16 i cpu) \<circ> BX_WRITE_16BIT_REG (i_src i) (dst16 i cpu))
     (ref_add (dst16 i cpu) (src16 i cpu) False) cpu (XADD_EwGwR i cpu)) \<and>
   (alu_step (if AX cpu = dst16 i cpu then BX_WRITE_16BIT_REG (i_dst i) (src16 i cpu) else set_AX (dst16 i cpu))
     (ref_sub (AX cpu) (dst16 i cpu) False) cpu (CMPXCHG_EwGwR i cpu)) \<and>
   (alu_step (BX_WRITE_32BIT_REGZ (i_dst i) (dst32 i cpu + src32 i cpu) \<circ> BX_WRITE_32BIT_REGZ (i_src i) (dst32 i cpu))
     (ref_add (dst32 i cpu) (src32 i cpu) False) cpu (XADD_EdGdR i cpu)) \<and>
   (alu_step (if EAX cpu = dst32 i cpu then BX_WRITE_32BIT_REGZ (i_dst i) (src32 i cpu) else set_EAX (dst32 i cpu))
     (ref_sub (EAX cpu) (dst32 i cpu) False) cpu (CMPXCHG_EdGdR i cpu))"
  by (intro conjI; rule exchange8_handlers exchange16_handlers exchange32_handlers)

text \<open>
  CBW, CWDE, CWD and CDQ extend the accumulator with its sign: the wider register, or
  the register pair, holds the same signed value.
\<close>

theorem sign_extension_correct:
  "(sint (AX (CBW i cpu)) = sint (AL cpu)) \<and>
   (sint (EAX (CWDE i cpu)) = sint (AX cpu)) \<and>
   (sint (DX (CWD i cpu)) * 2 ^ 16 + uint (AX (CWD i cpu)) = sint (AX cpu)) \<and>
   (sint (EDX (CDQ i cpu)) * 2 ^ 32 + uint (EAX (CDQ i cpu)) = sint (EAX cpu))"
  by (intro conjI; rule sign_extensions)

text \<open>
  C34. The conditional jumps after CMP decide the order of the operands: CF is set iff the
  first is below the second as unsigned numbers, ZF iff they are equal, and SF differs from
  OF iff the first is less as a signed number, at the three operand sizes.
\<close>

theorem cmp_decides_order:
  "(CF (CMP_GbEbR i cpu) = (dst8 i cpu < src8 i cpu) \<and> ZF (CMP_GbEbR i cpu) = (dst8 i cpu = src8 i cpu) \<and>
    (SF (CMP_GbEbR i cpu) \<noteq> OVF (CMP_GbEbR i cpu)) = (sint (dst8 i cpu) < sint (src8 i cpu))) \<and>
   (CF (CMP_GwEwR i cpu) = (dst16 i cpu < src16 i cpu) \<and> ZF (CMP_GwEwR i cpu) = (dst16 i cpu = src16 i cpu) \<and>
    (SF (CMP_GwEwR i cpu) \<noteq> OVF (CMP_GwEwR i cpu)) = (sint (dst16 i cpu) < sint (src16 i cpu))) \<and>
   (CF (CMP_GdEdR i cpu) = (dst32 i cpu < src32 i cpu) \<and> ZF (CMP_GdEdR i cpu) = (dst32 i cpu = src32 i cpu) \<and>
    (SF (CMP_GdEdR i cpu) \<noteq> OVF (CMP_GdEdR i cpu)) = (sint (dst32 i cpu) < sint (src32 i cpu)))"
  unfolding cmp_flags by (intro conjI; rule cmp_order signed_compare)

text \<open>
  C31. ADD on the low halves followed by ADC on the high halves is 64-bit addition: the two
  destination registers and the final carry together hold the sum of the two 64-bit
  operands, provided the low destination is not one of the high operands.
\<close>

theorem add_adc_64:
  assumes "i_dst hi \<noteq> i_dst lo" "i_src hi \<noteq> i_dst lo"
  shows "let cpu' = ADC_GdEdR hi (ADD_GdEdR lo cpu) in
    uint (dst32 lo cpu') + 2 ^ 32 * uint (dst32 hi cpu') + 2 ^ 64 * of_bool (CF cpu') =
    (uint (dst32 lo cpu) + 2 ^ 32 * uint (dst32 hi cpu)) +
    (uint (src32 lo cpu) + 2 ^ 32 * uint (src32 hi cpu))"
proof -
  let ?c1 = "ADD_GdEdR lo cpu"
  define cpu' where "cpu' = ADC_GdEdR hi ?c1"
  note l = arith32_handlers(1) [of lo cpu, THEN alu_stepD(1)] arith32_handlers(1) [of lo cpu, THEN alu_stepD(3), of Carry]
  note h = arith32_handlers(2) [of hi ?c1, THEN alu_stepD(1)] arith32_handlers(2) [of hi ?c1, THEN alu_stepD(3), of Carry]
  have "dst32 lo cpu' = dst32 lo cpu + src32 lo cpu + of_bool False"
    "dst32 hi cpu' = dst32 hi cpu + src32 hi cpu + of_bool (CF ?c1)"
    "CF cpu' = ref_add (dst32 hi cpu) (src32 hi cpu) (CF ?c1) Carry"
    "CF ?c1 = ref_add (dst32 lo cpu) (src32 lo cpu) False Carry"
    using assms l h by (simp_all add: cpu'_def BX_READ_32BIT_REG_def BX_WRITE_32BIT_REGZ_def del: ref_add.simps)
  with add_carry_value [of "dst32 lo cpu" "src32 lo cpu" False]
    add_carry_value [of "dst32 hi cpu" "src32 hi cpu" "CF ?c1"]
  show ?thesis by (simp flip: cpu'_def del: ref_add.simps)
qed
theorem add_adc_64_witness:
  "let cpu' = ADC_GdEdR (sample_instr 2 3) (ADD_GdEdR (sample_instr 0 1) sample_cpu) in
    uint (EAX cpu') + 2 ^ 32 * uint (EDX cpu') + 2 ^ 64 * of_bool (CF cpu') = 13 * 2 ^ 32"
  using add_adc_64 [of "sample_instr 2 3" "sample_instr 0 1" sample_cpu]
  by (simp add: sample_instr_def sample_cpu_def BX_READ_32BIT_REG_def Let_def)

end
