(* ===== verification/Logic.thy ===== *)
theory Logic
  imports Cpu_State
begin

text \<open>
  The register forms of XOR, OR, AND, TEST and NOT of cpu/logical8.cc, cpu/logical16.cc and
  cpu/logical32.cc, and the zeroing idiom the decoder substitutes for XOR of a register with
  itself. Every handler computes at its operand size and hands the promoted result to
  the logic flag macro. The theorems give destination and flags of each handler and show
  the idiom is the XOR it replaces.
\<close>

section \<open>Handlers of cpu/logical8.cc, register forms\<close>

definition XOR_GbEbR :: "bxInstruction \<Rightarrow> bx_cpu \<Rightarrow> bx_cpu" where
  "XOR_GbEbR i cpu =
    (let op1 = BX_READ_8BIT_REG (i_dst i) cpu; op2 = BX_READ_8BIT_REG (i_src i) cpu;
         op1 = op1 XOR op2;
         cpu = BX_WRITE_8BIT_REG (i_dst i) op1 cpu
     in upd_flags (SET_FLAGS_OSZAPC_LOGIC_8 (ucast op1)) cpu)"

definition XOR_EbIbR :: "bxInstruction \<Rightarrow> bx_cpu \<Rightarrow> bx_cpu" where
  "XOR_EbIbR i cpu =
    (let op1 = BX_READ_8BIT_REG (i_dst i) cpu;
         op1 = op1 XOR i_Ib i;
         cpu = BX_WRITE_8BIT_REG (i_dst i) op1 cpu
     in upd_flags (SET_FLAGS_OSZAPC_LOGIC_8 (ucast op1)) cpu)"

definition OR_GbEbR :: "bxInstruction \<Rightarrow> bx_cpu \<Rightarrow> bx_cpu" where
  "OR_GbEbR i cpu =
    (let op1 = BX_READ_8BIT_REG (i_dst i) cpu; op2 = BX_READ_8BIT_REG (i_src i) cpu;
         op1 = op1 OR op2;
         cpu = BX_WRITE_8BIT_REG (i_dst i) op1 cpu
     in upd_flags (SET_FLAGS_OSZAPC_LOGIC_8 (ucast op1)) cpu)"

definition OR_EbIbR :: "bxInstruction \<Rightarrow> bx_cpu \<Rightarrow> bx_cpu" where
  "OR_EbIbR i cpu =
    (let op1 = BX_READ_8BIT_REG (i_dst i) cpu;
         op1 = op1 OR i_Ib i;
         cpu = BX_WRITE_8BIT_REG (i_dst i) op1 cpu
     in upd_flags (SET_FLAGS_OSZAPC_LOGIC_8 (ucast op1)) cpu)"

definition AND_GbEbR :: "bxInstruction \<Rightarrow> bx_cpu \<Rightarrow> bx_cpu" where
  "AND_GbEbR i cpu =
    (let op1 = BX_READ_8BIT_REG (i_dst i) cpu; op2 = BX_READ_8BIT_REG (i_src i) cpu;
         op1 = op1 AND op2;
         cpu = BX_WRITE_8BIT_REG (i_dst i) op1 cpu
     in upd_flags (SET_FLAGS_OSZAPC_LOGIC_8 (ucast op1)) cpu)"

definition AND_EbIbR :: "bxInstruction \<Rightarrow> bx_cpu \<Rightarrow> bx_cpu" where
  "AND_EbIbR i cpu =
    (let op1 = BX_READ_8BIT_REG (i_dst i) cpu;
         op1 = op1 AND i_Ib i;
         cpu = BX_WRITE_8BIT_REG (i_dst i) op1 cpu
     in upd_flags (SET_FLAGS_OSZAPC_LOGIC_8 (ucast op1)) cpu)"

definition NOT_EbR :: "bxInstruction \<Rightarrow> bx_cpu \<Rightarrow> bx_cpu" where
  "NOT_EbR i cpu = (let op1 = BX_READ_8BIT_REG (i_dst i) cpu; op1 = NOT op1 in BX_WRITE_8BIT_REG (i_dst i) op1 cpu)"

definition TEST_EbGbR :: "bxInstruction \<Rightarrow> bx_cpu \<Rightarrow> bx_cpu" where
  "TEST_EbGbR i cpu =
    (let op1 = BX_READ_8BIT_REG (i_dst i) cpu; op2 = BX_READ_8BIT_REG (i_src i) cpu;
         op1 = op1 AND op2
     in upd_flags (SET_FLAGS_OSZAPC_LOGIC_8 (ucast op1)) cpu)"

definition TEST_EbIbR :: "bxInstruction \<Rightarrow> bx_cpu \<Rightarrow> bx_cpu" where
  "TEST_EbIbR i cpu =
    (let op1 = BX_READ_8BIT_REG (i_dst i) cpu; op1 = op1 AND i_Ib i
     in upd_flags (SET_FLAGS_OSZAPC_LOGIC_8 (ucast op1)) cpu)"

section \<open>Handlers of cpu/logical16.cc, register forms\<close>

definition ZERO_IDIOM_GwR :: "bxInstruction \<Rightarrow> bx_cpu \<Rightarrow> bx_cpu" where
  "ZERO_IDIOM_GwR i cpu =
    (let cpu = BX_WRITE_16BIT_REG (i_dst i) 0 cpu
     in upd_flags (SET_FLAGS_OSZAPC_LOGIC_16 0) cpu)"

definition XOR_GwEwR :: "bxInstruction \<Rightarrow> bx_cpu \<Rightarrow> bx_cpu" where
  "XOR_GwEwR i cpu =
    (let op1 = BX_READ_16BIT_REG (i_dst i) cpu; op2 = BX_READ_16BIT_REG (i_src i) cpu;
         op1 = op1 XOR op2;
         cpu = BX_WRITE_16BIT_REG (i_dst i) op1 cpu
     in upd_flags (SET_FLAGS_OSZAPC_LOGIC_16 (ucast op1)) cpu)"

definition XOR_EwIwR :: "bxInstruction \<Rightarrow> bx_cpu \<Rightarrow> bx_cpu" where
  "XOR_EwIwR i cpu =
    (let op1 = BX_READ_16BIT_REG (i_dst i) cpu;
         op1 = op1 XOR i_Iw i;
         cpu = BX_WRITE_16BIT_REG (i_dst i) op1 cpu
     in upd_flags (SET_FLAGS_OSZAPC_LOGIC_16 (ucast op1)) cpu)"

definition OR_GwEwR :: "bxInstruction \<Rightarrow> bx_cpu \<Rightarrow> bx_cpu" where
  "OR_GwEwR i cpu =
    (let op1 = BX_READ_16BIT_REG (i_dst i) cpu; op2 = BX_READ_16BIT_REG (i_src i) cpu;
         op1 = op1 OR op2;
         cpu = BX_WRITE_16BIT_REG (i_dst i) op1 cpu
     in upd_flags (SET_FLAGS_OSZAPC_LOGIC_16 (ucast op1)) cpu)"

definition OR_EwIwR :: "bxInstruction \<Rightarrow> bx_cpu \<Rightarrow> bx_cpu" where
  "OR_EwIwR i cpu =
    (let op1 = BX_READ_16BIT_REG (i_dst i) cpu;
         op1 = op1 OR i_Iw i;
         cpu = BX_WRITE_16BIT_REG (i_dst i) op1 cpu
     in upd_flags (SET_FLAGS_OSZAPC_LOGIC_16 (ucast op1)) cpu)"

definition AND_GwEwR :: "bxInstruction \<Rightarrow> bx_cpu \<Rightarrow> bx_cpu" where
  "AND_GwEwR i cpu =
    (let op1 = BX_READ_16BIT_REG (i_dst i) cpu; op2 = BX_READ_16BIT_REG (i_src i) cpu;
         op1 = op1 AND op2;
         cpu = BX_WRITE_16BIT_REG (i_dst i) op1 cpu
     in upd_flags (SET_FLAGS_OSZAPC_LOGIC_16 (ucast op1)) cpu)"

definition AND_EwIwR :: "bxInstruction \<Rightarrow> bx_cpu \<Rightarrow> bx_cpu" where
  "AND_EwIwR i cpu =
    (let op1 = BX_READ_16BIT_REG (i_dst i) cpu;
         op1 = op1 AND i_Iw i;
         cpu = BX_WRITE_16BIT_REG (i_dst i) op1 cpu
     in upd_flags (SET_FLAGS_OSZAPC_LOGIC_16 (ucast op1)) cpu)"

definition NOT_EwR :: "bxInstruction \<Rightarrow> bx_cpu \<Rightarrow> bx_cpu" where
  "NOT_EwR i cpu = (let op1 = BX_READ_16BIT_REG (i_dst i) cpu; op1 = NOT op1 in BX_WRITE_16BIT_REG (i_dst i) op1 cpu)"

definition TEST_EwGwR :: "bxInstruction \<Rightarrow> bx_cpu \<Rightarrow> bx_cpu" where
  "TEST_EwGwR i cpu =
    (let op1 = BX_READ_16BIT_REG (i_dst i) cpu; op2 = BX_READ_16BIT_REG (i_src i) cpu;
         op1 = op1 AND op2
     in upd_flags (SET_FLAGS_OSZAPC_LOGIC_16 (ucast op1)) cpu)"

definition TEST_EwIwR :: "bxInstruction \<Rightarrow> bx_cpu \<Rightarrow> bx_cpu" where
  "TEST_EwIwR i cpu =
    (let op1 = BX_READ_16BIT_REG (i_dst i) cpu; op1 = op1 AND i_Iw i
     in upd_flags (SET_FLAGS_OSZAPC_LOGIC_16 (ucast op1)) cpu)"

section \<open>Handlers of cpu/logical32.cc, register forms\<close>

definition ZERO_IDIOM_GdR :: "bxInstruction \<Rightarrow> bx_cpu \<Rightarrow> bx_cpu" where
  "ZERO_IDIOM_GdR i cpu =
    (let cpu = BX_WRITE_32BIT_REGZ (i_dst i) 0 cpu
     in upd_flags (SET_FLAGS_OSZAPC_LOGIC_32 0) cpu)"

definition XOR_GdEdR :: "bxInstruction \<Rightarrow> bx_cpu \<Rightarrow> bx_cpu" where
  "XOR_GdEdR i cpu =
    (let op1 = BX_READ_32BIT_REG (i_dst i) cpu; op2 = BX_READ_32BIT_REG (i_src i) cpu;
         op1 = op1 XOR op2;
         cpu = BX_WRITE_32BIT_REGZ (i_dst i) op1 cpu
     in upd_flags (SET_FLAGS_OSZAPC_LOGIC_32 op1) cpu)"

definition XOR_EdIdR :: "bxInstruction \<Rightarrow> bx_cpu \<Rightarrow> bx_cpu" where
  "XOR_EdIdR i cpu =
    (let op1 = BX_READ_32BIT_REG (i_dst i) cpu;
         op1 = op1 XOR i_Id i;
         cpu = BX_WRITE_32BIT_REGZ (i_dst i) op1 cpu
     in upd_flags (SET_FLAGS_OSZAPC_LOGIC_32 op1) cpu)"

definition OR_GdEdR :: "bxInstruction \<Rightarrow> bx_cpu \<Rightarrow> bx_cpu" where
  "OR_GdEdR i cpu =
    (let op1 = BX_READ_32BIT_REG (i_dst i) cpu; op2 = BX_READ_32BIT_REG (i_src i) cpu;
         op1 = op1 OR op2;
         cpu = BX_WRITE_32BIT_REGZ (i_dst i) op1 cpu
     in upd_flags (SET_FLAGS_OSZAPC_LOGIC_32 op1) cpu)"

definition OR_EdIdR :: "bxInstruction \<Rightarrow> bx_cpu \<Rightarrow> bx_cpu" where
  "OR_EdIdR i cpu =
    (let op1 = BX_READ_32BIT_REG (i_dst i) cpu;
         op1 = op1 OR i_Id i;
         cpu = BX_WRITE_32BIT_REGZ (i_dst i) op1 cpu
     in upd_flags (SET_FLAGS_OSZAPC_LOGIC_32 op1) cpu)"

definition AND_GdEdR :: "bxInstruction \<Rightarrow> bx_cpu \<Rightarrow> bx_cpu" where
  "AND_GdEdR i cpu =
    (let op1 = BX_READ_32BIT_REG (i_dst i) cpu; op2 = BX_READ_32BIT_REG (i_src i) cpu;
         op1 = op1 AND op2;
         cpu = BX_WRITE_32BIT_REGZ (i_dst i) op1 cpu
     in upd_flags (SET_FLAGS_OSZAPC_LOGIC_32 op1) cpu)"

definition AND_EdIdR :: "bxInstruction \<Rightarrow> bx_cpu \<Rightarrow> bx_cpu" where
  "AND_EdIdR i cpu =
    (let op1 = BX_READ_32BIT_REG (i_dst i) cpu;
         op1 = op1 AND i_Id i;
         cpu = BX_WRITE_32BIT_REGZ (i_dst i) op1 cpu
     in upd_flags (SET_FLAGS_OSZAPC_LOGIC_32 op1) cpu)"

definition NOT_EdR :: "bxInstruction \<Rightarrow> bx_cpu \<Rightarrow> bx_cpu" where
  "NOT_EdR i cpu = (let op1 = BX_READ_32BIT_REG (i_dst i) cpu; op1 = NOT op1 in BX_WRITE_32BIT_REGZ (i_dst i) op1 cpu)"

definition TEST_EdGdR :: "bxInstruction \<Rightarrow> bx_cpu \<Rightarrow> bx_cpu" where
  "TEST_EdGdR i cpu =
    (let op1 = BX_READ_32BIT_REG (i_dst i) cpu; op2 = BX_READ_32BIT_REG (i_src i) cpu;
         op1 = op1 AND op2
     in upd_flags (SET_FLAGS_OSZAPC_LOGIC_32 op1) cpu)"

definition TEST_EdIdR :: "bxInstruction \<Rightarrow> bx_cpu \<Rightarrow> bx_cpu" where
  "TEST_EdIdR i cpu =
    (let op1 = BX_READ_32BIT_REG (i_dst i) cpu; op1 = op1 AND i_Id i
     in upd_flags (SET_FLAGS_OSZAPC_LOGIC_32 op1) cpu)"

lemma logical8_handlers:
  "alu_step (BX_WRITE_8BIT_REG (i_dst i) (dst8 i cpu XOR src8 i cpu))
     (ref_logic (dst8 i cpu XOR src8 i cpu)) cpu (XOR_GbEbR i cpu)"
  "alu_step (BX_WRITE_8BIT_REG (i_dst i) (dst8 i cpu XOR i_Ib i))
     (ref_logic (dst8 i cpu XOR i_Ib i)) cpu (XOR_EbIbR i cpu)"
  "alu_step (BX_WRITE_8BIT_REG (i_dst i) (dst8 i cpu OR src8 i cpu))
     (ref_logic (dst8 i cpu OR src8 i cpu)) cpu (OR_GbEbR i cpu)"
  "alu_step (BX_WRITE_8BIT_REG (i_dst i) (dst8 i cpu OR i_Ib i))
     (ref_logic (dst8 i cpu OR i_Ib i)) cpu (OR_EbIbR i cpu)"
  "alu_step (BX_WRITE_8BIT_REG (i_dst i) (dst8 i cpu AND src8 i cpu))
     (ref_logic (dst8 i cpu AND src8 i cpu)) cpu (AND_GbEbR i cpu)"
  "alu_step (BX_WRITE_8BIT_REG (i_dst i) (dst8 i cpu AND i_Ib i))
     (ref_logic (dst8 i cpu AND i_Ib i)) cpu (AND_EbIbR i cpu)"
  "alu_step (\<lambda>c. c) (ref_logic (dst8 i cpu AND src8 i cpu)) cpu (TEST_EbGbR i cpu)"
  "alu_step (\<lambda>c. c) (ref_logic (dst8 i cpu AND i_Ib i)) cpu (TEST_EbIbR i cpu)"
  "alu_step (BX_WRITE_8BIT_REG (i_dst i) (NOT (dst8 i cpu))) (\<lambda>f. lf_get f (oszapc cpu)) cpu (NOT_EbR i cpu)"
  by (simp_all add: alu_step_def Let_def LOGIC_8_ref XOR_GbEbR_def XOR_EbIbR_def OR_GbEbR_def OR_EbIbR_def AND_GbEbR_def AND_EbIbR_def TEST_EbGbR_def TEST_EbIbR_def NOT_EbR_def)

lemma logical16_handlers:
  "alu_step (BX_WRITE_16BIT_REG (i_dst i) (dst16 i cpu XOR src16 i cpu))
     (ref_logic (dst16 i cpu XOR src16 i cpu)) cpu (XOR_GwEwR i cpu)"
  "alu_step (BX_WRITE_16BIT_REG (i_dst i) (dst16 i cpu XOR i_Iw i))
     (ref_logic (dst16 i cpu XOR i_Iw i)) cpu (XOR_EwIwR i cpu)"
  "alu_step (BX_WRITE_16BIT_REG (i_dst i) (dst16 i cpu OR src16 i cpu))
     (ref_logic (dst16 i cpu OR src16 i cpu)) cpu (OR_GwEwR i cpu)"
  "alu_step (BX_WRITE_16BIT_REG (i_dst i) (dst16 i cpu OR i_Iw i))
     (ref_logic (dst16 i cpu OR i_Iw i)) cpu (OR_EwIwR i cpu)"
  "alu_step (BX_WRITE_16BIT_REG (i_dst i) (dst16 i cpu AND src16 i cpu))
     (ref_logic (dst16 i cpu AND src16 i cpu)) cpu (AND_GwEwR i cpu)"
  "alu_step (BX_WRITE_16BIT_REG (i_dst i) (dst16 i cpu AND i_Iw i))
     (ref_logic (dst16 i cpu AND i_Iw i)) cpu (AND_EwIwR i cpu)"
  "alu_step (\<lambda>c. c) (ref_logic (dst16 i cpu AND src16 i cpu)) cpu (TEST_EwGwR i cpu)"
  "alu_step (\<lambda>c. c) (ref_logic (dst16 i cpu AND i_Iw i)) cpu (TEST_EwIwR i cpu)"
  "alu_step (BX_WRITE_16BIT_REG (i_dst i) (NOT (dst16 i cpu))) (\<lambda>f. lf_get f (oszapc cpu)) cpu (NOT_EwR i cpu)"
  by (simp_all add: alu_step_def Let_def LOGIC_16_ref XOR_GwEwR_def XOR_EwIwR_def OR_GwEwR_def OR_EwIwR_def AND_GwEwR_def AND_EwIwR_def TEST_EwGwR_def TEST_EwIwR_def NOT_EwR_def)

lemma logical32_handlers:
  "alu_step (BX_WRITE_32BIT_REGZ (i_dst i) (dst32 i cpu XOR src32 i cpu))
     (ref_logic (dst32 i cpu XOR src32 i cpu)) cpu (XOR_GdEdR i cpu)"
  "alu_step (BX_WRITE_32BIT_REGZ (i_dst i) (dst32 i cpu XOR i_Id i))
     (ref_logic (dst32 i cpu XOR i_Id i)) cpu (XOR_EdIdR i cpu)"
  "alu_step (BX_WRITE_32BIT_REGZ (i_dst i) (dst32 i cpu OR src32 i cpu))
     (ref_logic (dst32 i cpu OR src32 i cpu)) cpu (OR_GdEdR i cpu)"
  "alu_step (BX_WRITE_32BIT_REGZ (i_dst i) (dst32 i cpu OR i_Id i))
     (ref_logic (dst32 i cpu OR i_Id i)) cpu (OR_EdIdR i cpu)"
  "alu_step (BX_WRITE_32BIT_REGZ (i_dst i) (dst32 i cpu AND src32 i cpu))
     (ref_logic (dst32 i cpu AND src32 i cpu)) cpu (AND_GdEdR i cpu)"
  "alu_step (BX_WRITE_32BIT_REGZ (i_dst i) (dst32 i cpu AND i_Id i))
     (ref_logic (dst32 i cpu AND i_Id i)) cpu (AND_EdIdR i cpu)"
  "alu_step (\<lambda>c. c) (ref_logic (dst32 i cpu AND src32 i cpu)) cpu (TEST_EdGdR i cpu)"
  "alu_step (\<lambda>c. c) (ref_logic (dst32 i cpu AND i_Id i)) cpu (TEST_EdIdR i cpu)"
  "alu_step (BX_WRITE_32BIT_REGZ (i_dst i) (NOT (dst32 i cpu))) (\<lambda>f. lf_get f (oszapc cpu)) cpu (NOT_EdR i cpu)"
  by (simp_all add: alu_step_def Let_def LOGIC_32_ref XOR_GdEdR_def XOR_EdIdR_def OR_GdEdR_def OR_EdIdR_def AND_GdEdR_def AND_EdIdR_def TEST_EdGdR_def TEST_EdIdR_def NOT_EdR_def)

section \<open>Properties\<close>

text \<open>
  The byte forms of XOR, OR, AND, TEST and NOT of cpu/logical8.cc: the destination
  becomes the bitwise combination (TEST writes nothing), CF, OF and AF are cleared, ZF, SF and
  PF describe the result, and NOT leaves every flag as it was.
\<close>

theorem logical8_correct:
  "(alu_step (BX_WRITE_8BIT_REG (i_dst i) (dst8 i cpu XOR src8 i cpu))
     (ref_logic (dst8 i cpu XOR src8 i cpu)) cpu (XOR_GbEbR i cpu)) \<and>
   (alu_step (BX_WRITE_8BIT_REG (i_dst i) (dst8 i cpu XOR i_Ib i))
     (ref_logic (dst8 i cpu XOR i_Ib i)) cpu (XOR_EbIbR i cpu)) \<and>
   (alu_step (BX_WRITE_8BIT_REG (i_dst i) (dst8 i cpu OR src8 i cpu))
     (ref_logic (dst8 i cpu OR src8 i cpu)) cpu (OR_GbEbR i cpu)) \<and>
   (alu_step (BX_WRITE_8BIT_REG (i_dst i) (dst8 i cpu OR i_Ib i))
     (ref_logic (dst8 i cpu OR i_Ib i)) cpu (OR_EbIbR i cpu)) \<and>
   (alu_step (BX_WRITE_8BIT_REG (i_dst i) (dst8 i cpu AND src8 i cpu))
     (ref_logic (dst8 i cpu AND src8 i cpu)) cpu (AND_GbEbR i cpu)) \<and>
   (alu_step (BX_WRITE_8BIT_REG (i_dst i) (dst8 i cpu AND i_Ib i))
     (ref_logic (dst8 i cpu AND i_Ib i)) cpu (AND_EbIbR i cpu)) \<and>
   (alu_step (\<lambda>c. c) (ref_logic (dst8 i cpu AND src8 i cpu)) cpu (TEST_EbGbR i cpu)) \<and>
   (alu_step (\<lambda>c. c) (ref_logic (dst8 i cpu AND i_Ib i)) cpu (TEST_EbIbR i cpu)) \<and>
   (alu_step (BX_WRITE_8BIT_REG (i_dst i) (NOT (dst8 i cpu))) (\<lambda>f. lf_get f (oszapc cpu)) cpu (NOT_EbR i cpu))"
  by (intro conjI; rule logical8_handlers)

text \<open>
  The word forms of XOR, OR, AND, TEST and NOT of cpu/logical16.cc: the destination
  becomes the bitwise combination (TEST writes nothing), CF, OF and AF are cleared, ZF, SF and
  PF describe the result, and NOT leaves every flag as it was.
\<close>

theorem logical16_correct:
  "(alu_step (BX_WRITE_16BIT_REG (i_dst i) (dst16 i cpu XOR src16 i cpu))
     (ref_logic (dst16 i cpu XOR src16 i cpu)) cpu (XOR_GwEwR i cpu)) \<and>
   (alu_step (BX_WRITE_16BIT_REG (i_dst i) (dst16 i cpu XOR i_Iw i))
     (ref_logic (dst16 i cpu XOR i_Iw i)) cpu (XOR_EwIwR i cpu)) \<and>
   (alu_step (BX_WRITE_16BIT_REG (i_dst i) (dst16 i cpu OR src16 i cpu))
     (ref_logic (dst16 i cpu OR src16 i cpu)) cpu (OR_GwEwR i cpu)) \<and>
   (alu_step (BX_WRITE_16BIT_REG (i_dst i) (dst16 i cpu OR i_Iw i))
     (ref_logic (dst16 i cpu OR i_Iw i)) cpu (OR_EwIwR i cpu)) \<and>
   (alu_step (BX_WRITE_16BIT_REG (i_dst i) (dst16 i cpu AND src16 i cpu))
     (ref_logic (dst16 i cpu AND src16 i cpu)) cpu (AND_GwEwR i cpu)) \<and>
   (alu_step (BX_WRITE_16BIT_REG (i_dst i) (dst16 i cpu AND i_Iw i))
     (ref_logic (dst16 i cpu AND i_Iw i)) cpu (AND_EwIwR i cpu)) \<and>
   (alu_step (\<lambda>c. c) (ref_logic (dst16 i cpu AND src16 i cpu)) cpu (TEST_EwGwR i cpu)) \<and>
   (alu_step (\<lambda>c. c) (ref_logic (dst16 i cpu AND i_Iw i)) cpu (TEST_EwIwR i cpu)) \<and>
   (alu_step (BX_WRITE_16BIT_REG (i_dst i) (NOT (dst16 i cpu))) (\<lambda>f. lf_get f (oszapc cpu)) cpu (NOT_EwR i cpu))"
  by (intro conjI; rule logical16_handlers)

text \<open>
  The dword forms of XOR, OR, AND, TEST and NOT of cpu/logical32.cc: the destination
  becomes the bitwise combination (TEST writes nothing), CF, OF and AF are cleared, ZF, SF and
  PF describe the result, and NOT leaves every flag as it was.
\<close>

theorem logical32_correct:
  "(alu_step (BX_WRITE_32BIT_REGZ (i_dst i) (dst32 i cpu XOR src32 i cpu))
     (ref_logic (dst32 i cpu XOR src32 i cpu)) cpu (XOR_GdEdR i cpu)) \<and>
   (alu_step (BX_WRITE_32BIT_REGZ (i_dst i) (dst32 i cpu XOR i_Id i))
     (ref_logic (dst32 i cpu XOR i_Id i)) cpu (XOR_EdIdR i cpu)) \<and>
   (alu_step (BX_WRITE_32BIT_REGZ (i_dst i) (dst32 i cpu OR src32 i cpu))
     (ref_logic (dst32 i cpu OR src32 i cpu)) cpu (OR_GdEdR i cpu)) \<and>
   (alu_step (BX_WRITE_32BIT_REGZ (i_dst i) (dst32 i cpu OR i_Id i))
     (ref_logic (dst32 i cpu OR i_Id i)) cpu (OR_EdIdR i cpu)) \<and>
   (alu_step (BX_WRITE_32BIT_REGZ (i_dst i) (dst32 i cpu AND src32 i cpu))
     (ref_logic (dst32 i cpu AND src32 i cpu)) cpu (AND_GdEdR i cpu)) \<and>
   (alu_step (BX_WRITE_32BIT_REGZ (i_dst i) (dst32 i cpu AND i_Id i))
     (ref_logic (dst32 i cpu AND i_Id i)) cpu (AND_EdIdR i cpu)) \<and>
   (alu_step (\<lambda>c. c) (ref_logic (dst32 i cpu AND src32 i cpu)) cpu (TEST_EdGdR i cpu)) \<and>
   (alu_step (\<lambda>c. c) (ref_logic (dst32 i cpu AND i_Id i)) cpu (TEST_EdIdR i cpu)) \<and>
   (alu_step (BX_WRITE_32BIT_REGZ (i_dst i) (NOT (dst32 i cpu))) (\<lambda>f. lf_get f (oszapc cpu)) cpu (NOT_EdR i cpu))"
  by (intro conjI; rule logical32_handlers)

text \<open>
  The zeroing idiom is the instruction it replaces: XOR of a register with itself, at
  both sizes, leads to the same register file and the same six flags.
\<close>

theorem zero_idiom_is_xor:
  assumes "i_src i = i_dst i"
  shows "gen_reg (ZERO_IDIOM_GwR i cpu) = gen_reg (XOR_GwEwR i cpu) \<and>
    gen_reg (ZERO_IDIOM_GdR i cpu) = gen_reg (XOR_GdEdR i cpu) \<and>
    lf_get f (oszapc (ZERO_IDIOM_GwR i cpu)) = lf_get f (oszapc (XOR_GwEwR i cpu)) \<and>
    lf_get f (oszapc (ZERO_IDIOM_GdR i cpu)) = lf_get f (oszapc (XOR_GdEdR i cpu))"
  using assms by (simp add: ZERO_IDIOM_GwR_def XOR_GwEwR_def ZERO_IDIOM_GdR_def XOR_GdEdR_def Let_def)

theorem zero_idiom_is_xor_witness:
  "EDX (ZERO_IDIOM_GdR (sample_instr 2 2) sample_cpu) = EDX (XOR_GdEdR (sample_instr 2 2) sample_cpu) \<and>
    ZF (ZERO_IDIOM_GwR (sample_instr 2 2) sample_cpu) = ZF (XOR_GwEwR (sample_instr 2 2) sample_cpu)"
  using zero_idiom_is_xor [of "sample_instr 2 2" sample_cpu Zero] by (simp add: sample_instr_def)

end
