(* ===== verification/Mult.thy ===== *)
theory Mult
  imports Arith "HOL-Library.Signed_Division"
begin

text \<open>
  Multiplication and division: all the handlers of cpu/mult8.cc, cpu/mult16.cc and
  cpu/mult32.cc. A product is formed at twice the operand size and split over a register
  pair; a division reads its dividend from the pair and raises \<open>BX_DE_EXCEPTION\<close>
  when the divisor is zero or the quotient does not fit. C's signed division truncates
  towards zero (\<open>sdiv\<close> and \<open>smod\<close> on the signed values). \<open>exception\<close> does not
  return, so each call of it is the result \<open>Inl\<close>. The theorems relate the register
  pairs to integer products, quotients and remainders.
\<close>

section \<open>C's signed division at a word size\<close>

definition c_div :: "'a::len word \<Rightarrow> 'a word \<Rightarrow> 'a word" where
  "c_div a b = word_of_int (sint a sdiv sint b)"

definition c_mod :: "'a::len word \<Rightarrow> 'a word \<Rightarrow> 'a word" where
  "c_mod a b = word_of_int (sint a smod sint b)"

abbreviation raise_DE :: cpu_result where
  "raise_DE \<equiv> Inl (BX_DE_EXCEPTION 0)"

section \<open>Handlers of cpu/mult8.cc\<close>

definition MUL_ALEbR :: "bxInstruction \<Rightarrow> bx_cpu \<Rightarrow> bx_cpu" where
  "MUL_ALEbR i cpu =
    (let op1 = AL cpu; op2 = BX_READ_8BIT_REG (i_src i) cpu;
         product_16 = ucast op1 * ucast op2 :: Bit32u;
         product_8l = ucast (product_16 AND 0xFF) :: Bit8u;
         product_8h = ucast (shr product_16 8) :: Bit8u;
         cpu = set_AX (ucast product_16) cpu;
         cpu = upd_flags (SET_FLAGS_OSZAPC_LOGIC_8 (ucast product_8l)) cpu
     in if product_8h \<noteq> 0 then upd_flags assert_flags_OxxxxC cpu else cpu)"

definition IMUL_ALEbR :: "bxInstruction \<Rightarrow> bx_cpu \<Rightarrow> bx_cpu" where
  "IMUL_ALEbR i cpu =
    (let op1 = AL cpu; op2 = BX_READ_8BIT_REG (i_src i) cpu;
         product_16 = ucast (scast op1 * scast op2 :: Bit32u) :: Bit16u;
         product_8 = ucast (product_16 AND 0xFF) :: Bit8u;
         cpu = set_AX product_16 cpu;
         cpu = upd_flags (SET_FLAGS_OSZAPC_LOGIC_8 (ucast product_8)) cpu
     in if product_16 \<noteq> scast (ucast product_16 :: Bit8u) then upd_flags assert_flags_OxxxxC cpu
        else cpu)"

definition DIV_ALEbR :: "bxInstruction \<Rightarrow> bx_cpu \<Rightarrow> cpu_result" where
  "DIV_ALEbR i cpu =
    (let op2 = BX_READ_8BIT_REG (i_src i) cpu
     in if op2 = 0 then raise_DE
        else (let op1 = AX cpu;
                  quotient_16 = op1 div ucast op2;
                  remainder_8 = ucast (op1 mod ucast op2) :: Bit8u;
                  quotient_8l = ucast (quotient_16 AND 0xFF) :: Bit8u
              in if quotient_16 \<noteq> ucast quotient_8l then raise_DE
                 else (let cpu = set_AL quotient_8l cpu; cpu = set_AH remainder_8 cpu in Inr cpu)))"

definition IDIV_ALEbR :: "bxInstruction \<Rightarrow> bx_cpu \<Rightarrow> cpu_result" where
  "IDIV_ALEbR i cpu =
    (let op1 = AX cpu
     in if op1 = 0x8000 then raise_DE
        else (let op2 = BX_READ_8BIT_REG (i_src i) cpu
              in if op2 = 0 then raise_DE
                 else (let quotient_16 = ucast (c_div (scast op1) (scast op2) :: Bit32u) :: Bit16u;
                           remainder_8 = ucast (c_mod (scast op1) (scast op2) :: Bit32u) :: Bit8u;
                           quotient_8l = ucast (quotient_16 AND 0xFF) :: Bit8u
                       in if quotient_16 \<noteq> scast quotient_8l then raise_DE
                          else (let cpu = set_AL quotient_8l cpu; cpu = set_AH remainder_8 cpu in Inr cpu))))"

section \<open>Handlers of cpu/mult16.cc\<close>

definition MUL_AXEwR :: "bxInstruction \<Rightarrow> bx_cpu \<Rightarrow> bx_cpu" where
  "MUL_AXEwR i cpu =
    (let op1_16 = AX cpu; op2_16 = BX_READ_16BIT_REG (i_src i) cpu;
         product_32 = ucast op1_16 * ucast op2_16 :: Bit32u;
         product_16l = ucast (product_32 AND 0xFFFF) :: Bit16u;
         product_16h = ucast (shr product_32 16) :: Bit16u;
         cpu = set_AX product_16l cpu;
         cpu = set_DX product_16h cpu;
         cpu = upd_flags (SET_FLAGS_OSZAPC_LOGIC_16 (ucast product_16l)) cpu
     in if product_16h \<noteq> 0 then upd_flags assert_flags_OxxxxC cpu else cpu)"

definition IMUL_AXEwR :: "bxInstruction \<Rightarrow> bx_cpu \<Rightarrow> bx_cpu" where
  "IMUL_AXEwR i cpu =
    (let op1_16 = AX cpu; op2_16 = BX_READ_16BIT_REG (i_src i) cpu;
         product_32 = scast op1_16 * scast op2_16 :: Bit32u;
         product_16l = ucast (product_32 AND 0xFFFF) :: Bit16u;
         product_16h = ucast (signed_drop_bit 16 product_32) :: Bit16u;
         cpu = set_AX product_16l cpu;
         cpu = set_DX product_16h cpu;
         cpu = upd_flags (SET_FLAGS_OSZAPC_LOGIC_16 (ucast product_16l)) cpu
     in if product_32 \<noteq> scast (ucast product_32 :: Bit16u) then upd_flags assert_flags_OxxxxC cpu
        else cpu)"

definition DIV_AXEwR :: "bxInstruction \<Rightarrow> bx_cpu \<Rightarrow> cpu_result" where
  "DIV_AXEwR i cpu =
    (let op2_16 = BX_READ_16BIT_REG (i_src i) cpu
     in if op2_16 = 0 then raise_DE
        else (let op1_32 = shl (ucast (DX cpu)) 16 OR ucast (AX cpu) :: Bit32u;
                  quotient_32 = op1_32 div ucast op2_16;
                  remainder_16 = ucast (op1_32 mod ucast op2_16) :: Bit16u;
                  quotient_16l = ucast (quotient_32 AND 0xFFFF) :: Bit16u
              in if quotient_32 \<noteq> ucast quotient_16l then raise_DE
                 else (let cpu = set_AX quotient_16l cpu; cpu = set_DX remainder_16 cpu in Inr cpu)))"

definition IDIV_AXEwR :: "bxInstruction \<Rightarrow> bx_cpu \<Rightarrow> cpu_result" where
  "IDIV_AXEwR i cpu =
    (let op1_32 = shl (ucast (DX cpu)) 16 OR ucast (AX cpu) :: Bit32u
     in if op1_32 = 0x80000000 then raise_DE
        else (let op2_16 = BX_READ_16BIT_REG (i_src i) cpu
              in if op2_16 = 0 then raise_DE
                 else (let quotient_32 = c_div op1_32 (scast op2_16);
                           remainder_16 = ucast (c_mod op1_32 (scast op2_16)) :: Bit16u;
                           quotient_16l = ucast (quotient_32 AND 0xFFFF) :: Bit16u
                       in if quotient_32 \<noteq> scast quotient_16l then raise_DE
                          else (let cpu = set_AX quotient_16l cpu; cpu = set_DX remainder_16 cpu in Inr cpu))))"

definition IMUL_GwEwIwR :: "bxInstruction \<Rightarrow> bx_cpu \<Rightarrow> bx_cpu" where
  "IMUL_GwEwIwR i cpu =
    (let op2_16 = BX_READ_16BIT_REG (i_src i) cpu; op3_16 = i_Iw i;
         product_32 = scast op2_16 * scast op3_16 :: Bit32u;
         product_16 = ucast (product_32 AND 0xFFFF) :: Bit16u;
         cpu = BX_WRITE_16BIT_REG (i_dst i) product_16 cpu;
         cpu = upd_flags (SET_FLAGS_OSZAPC_LOGIC_16 (ucast product_16)) cpu
     in if product_32 \<noteq> scast (ucast product_32 :: Bit16u) then upd_flags assert_flags_OxxxxC cpu
        else cpu)"

definition IMUL_GwEwR :: "bxInstruction \<Rightarrow> bx_cpu \<Rightarrow> bx_cpu" where
  "IMUL_GwEwR i cpu =
    (let op1_16 = BX_READ_16BIT_REG (i_dst i) cpu; op2_16 = BX_READ_16BIT_REG (i_src i) cpu;
         product_32 = scast op1_16 * scast op2_16 :: Bit32u;
         product_16 = ucast (product_32 AND 0xFFFF) :: Bit16u;
         cpu = BX_WRITE_16BIT_REG (i_dst i) product_16 cpu;
         cpu = upd_flags (SET_FLAGS_OSZAPC_LOGIC_16 (ucast product_16)) cpu
     in if product_32 \<noteq> scast (ucast product_32 :: Bit16u) then upd_flags assert_flags_OxxxxC cpu
        else cpu)"

section \<open>Handlers of cpu/mult32.cc\<close>

abbreviation GET32L :: "Bit64u \<Rightarrow> Bit32u" where "GET32L v \<equiv> ucast v"
abbreviation GET32H :: "Bit64u \<Rightarrow> Bit32u" where "GET32H v \<equiv> ucast (shr v 32)"

definition MUL_EAXEdR :: "bxInstruction \<Rightarrow> bx_cpu \<Rightarrow> bx_cpu" where
  "MUL_EAXEdR i cpu =
    (let op1_32 = EAX cpu; op2_32 = BX_READ_32BIT_REG (i_src i) cpu;
         product_64 = ucast op1_32 * ucast op2_32 :: Bit64u;
         product_32l = GET32L product_64; product_32h = GET32H product_64;
         cpu = set_EAX product_32l cpu;
         cpu = set_EDX product_32h cpu;
         cpu = upd_flags (SET_FLAGS_OSZAPC_LOGIC_32 product_32l) cpu
     in if product_32h \<noteq> 0 then upd_flags assert_flags_OxxxxC cpu else cpu)"

definition IMUL_EAXEdR :: "bxInstruction \<Rightarrow> bx_cpu \<Rightarrow> bx_cpu" where
  "IMUL_EAXEdR i cpu =
    (let op1_32 = EAX cpu; op2_32 = BX_READ_32BIT_REG (i_src i) cpu;
         product_64 = scast op1_32 * scast op2_32 :: Bit64u;
         product_32l = GET32L product_64; product_32h = GET32H product_64;
         cpu = set_EAX product_32l cpu;
         cpu = set_EDX product_32h cpu;
         cpu = upd_flags (SET_FLAGS_OSZAPC_LOGIC_32 product_32l) cpu
     in if product_64 \<noteq> scast (ucast product_64 :: Bit32u) then upd_flags assert_flags_OxxxxC cpu
        else cpu)"

definition DIV_EAXEdR :: "bxInstruction \<Rightarrow> bx_cpu \<Rightarrow> cpu_result" where
  "DIV_EAXEdR i cpu =
    (let op2_32 = BX_READ_32BIT_REG (i_src i) cpu
     in if op2_32 = 0 then raise_DE
        else (let op1_64 = shl (ucast (EDX cpu)) 32 + ucast (EAX cpu) :: Bit64u;
                  quotient_64 = op1_64 div ucast op2_32;
                  remainder_32 = ucast (op1_64 mod ucast op2_32) :: Bit32u;
                  quotient_32l = ucast (quotient_64 AND 0xFFFFFFFF) :: Bit32u
              in if quotient_64 \<noteq> ucast quotient_32l then raise_DE
                 else (let cpu = set_EAX quotient_32l cpu; cpu = set_EDX remainder_32 cpu in Inr cpu)))"

definition IDIV_EAXEdR :: "bxInstruction \<Rightarrow> bx_cpu \<Rightarrow> cpu_result" where
  "IDIV_EAXEdR i cpu =
    (let op1_64 = shl (ucast (EDX cpu)) 32 OR ucast (EAX cpu) :: Bit64u
     in if op1_64 = 0x8000000000000000 then raise_DE
        else (let op2_32 = BX_READ_32BIT_REG (i_src i) cpu
              in if op2_32 = 0 then raise_DE
                 else (let quotient_64 = c_div op1_64 (scast op2_32);
                           remainder_32 = ucast (c_mod op1_64 (scast op2_32)) :: Bit32u;
                           quotient_32l = ucast (quotient_64 AND 0xFFFFFFFF) :: Bit32u
                       in if quotient_64 \<noteq> scast quotient_32l then raise_DE
                          else (let cpu = set_EAX quotient_32l cpu; cpu = set_EDX remainder_32 cpu in Inr cpu))))"

definition IMUL_GdEdIdR :: "bxInstruction \<Rightarrow> bx_cpu \<Rightarrow> bx_cpu" where
  "IMUL_GdEdIdR i cpu =
    (let op2_32 = BX_READ_32BIT_REG (i_src i) cpu; op3_32 = i_Id i;
         product_64 = scast op2_32 * scast op3_32 :: Bit64u;
         product_32 = ucast (product_64 AND 0xFFFFFFFF) :: Bit32u;
         cpu = BX_WRITE_32BIT_REGZ (i_dst i) product_32 cpu;
         cpu = upd_flags (SET_FLAGS_OSZAPC_LOGIC_32 product_32) cpu
     in if product_64 \<noteq> scast (ucast product_64 :: Bit32u) then upd_flags assert_flags_OxxxxC cpu
        else cpu)"

definition IMUL_GdEdR :: "bxInstruction \<Rightarrow> bx_cpu \<Rightarrow> bx_cpu" where
  "IMUL_GdEdR i cpu =
    (let op1_32 = BX_READ_32BIT_REG (i_dst i) cpu; op2_32 = BX_READ_32BIT_REG (i_src i) cpu;
         product_64 = scast op1_32 * scast op2_32 :: Bit64u;
         product_32 = ucast (product_64 AND 0xFFFFFFFF) :: Bit32u;
         cpu = BX_WRITE_32BIT_REGZ (i_dst i) product_32 cpu;
         cpu = upd_flags (SET_FLAGS_OSZAPC_LOGIC_32 product_32) cpu
     in if product_64 \<noteq> scast (ucast product_64 :: Bit32u) then upd_flags assert_flags_OxxxxC cpu
        else cpu)"

section \<open>Products, halves and quotients\<close>

lemma uint_ucast_up: "uint (ucast a :: 'm::len word) = uint a" if "LENGTH('n) \<le> LENGTH('m)"
  for a :: "'n::len word"
  using that by (simp add: unsigned_ucast_eq take_bit_int_eq_self_iff)
     (meson less_le_trans one_le_numeral power_increasing uint_lt2p)

lemma sint_scast_wide: "sint (scast a :: 'm::len word) = sint a" if "LENGTH('n) \<le> LENGTH('m)"
  for a :: "'n::len word"
proof -
  have "(2 :: int) ^ (LENGTH('n) - 1) \<le> 2 ^ (LENGTH('m) - 1)"
    using that by (intro power_increasing) auto
  then have "signed_take_bit (LENGTH('m) - 1) (sint a) = sint a"
    using sint_low_bound [of a] by (intro signed_take_bit_int_eq_self; linarith)
  then show ?thesis by (simp add: signed_scast_eq)
qed

lemma uint_product:
  "uint ((ucast a :: 'm::len word) * ucast b) = uint a * uint b" if w: "2 * LENGTH('n) \<le> LENGTH('m)"
  for a b :: "'n::len word"
proof -
  have "uint a * uint b < 2 ^ LENGTH('n) * 2 ^ LENGTH('n)"
    by (rule mult_strict_mono) (simp_all add: uint_lt2p)
  also have "\<dots> = 2 ^ (2 * LENGTH('n))" by (simp add: mult_2 power_add)
  also have "\<dots> \<le> (2 :: int) ^ LENGTH('m)" using w by (intro power_increasing) auto
  finally have "(uint a * uint b) mod 2 ^ LENGTH('m) = uint a * uint b" by simp
  moreover have "LENGTH('n) \<le> LENGTH('m)" using w by simp
  ultimately show ?thesis
    by (simp only: uint_word_arith_bintrs take_bit_eq_mod uint_ucast_up)
qed

lemma product_bound:
  fixes x y P :: int
  assumes "- P \<le> x" "x \<le> P" "- P \<le> y" "y \<le> P"
  shows "- (P * P) \<le> x * y" "x * y \<le> P * P"
proof -
  have "\<bar>x * y\<bar> \<le> P * P"
    unfolding abs_mult using assms by (intro mult_mono) auto
  then show "- (P * P) \<le> x * y" "x * y \<le> P * P" by auto
qed

lemma sint_product:
  "sint ((scast a :: 'm::len word) * scast b) = sint a * sint b" if w: "2 * LENGTH('n) \<le> LENGTH('m)"
  for a b :: "'n::len word"
proof -
  let ?P = "2 ^ (LENGTH('n) - 1) :: int"
  have "?P * ?P = 2 ^ (2 * LENGTH('n) - 2)"
    by (simp add: mult_2 flip: power_add)
  also have "\<dots> < 2 ^ (LENGTH('m) - 1)"
    by (rule power_strict_increasing, use w len_gt_0 [where 'a = 'n] in linarith, simp)
  finally have p: "?P * ?P < 2 ^ (LENGTH('m) - 1)" .
  have "- (?P * ?P) \<le> sint a * sint b" "sint a * sint b \<le> ?P * ?P"
    using sint_low_bound [of a] sint_low_bound [of b] by (intro product_bound; simp)+
  then have "signed_take_bit (LENGTH('m) - 1) (sint a * sint b) = sint a * sint b"
    using p by (intro signed_take_bit_int_eq_self; linarith)
  moreover have "LENGTH('n) \<le> LENGTH('m)" using w by simp
  ultimately show ?thesis
    by (simp add: sint_word_ariths sint_scast_wide)
qed

text \<open>High and low halves.\<close>

lemma halves:
  fixes p :: "'m::len word"
  assumes l: "LENGTH('m) = 2 * LENGTH('n)"
  defines "h \<equiv> ucast (shr p LENGTH('n)) :: 'n::len word"
  shows "uint h * 2 ^ LENGTH('n) + uint (ucast p :: 'n word) = uint p"
    and "sint h * 2 ^ LENGTH('n) + uint (ucast p :: 'n word) = sint p"
proof -
  have q: "uint p < 2 ^ LENGTH('n) * 2 ^ LENGTH('n)"
    using uint_lt2p [of p] unfolding l by (simp only: mult_2 power_add)
  have "uint p div 2 ^ LENGTH('n) < 2 ^ LENGTH('n)"
  proof (rule ccontr)
    assume "\<not> uint p div 2 ^ LENGTH('n) < 2 ^ LENGTH('n)"
    then have "2 ^ LENGTH('n) * 2 ^ LENGTH('n) \<le> uint p div 2 ^ LENGTH('n) * 2 ^ LENGTH('n)"
      by (intro mult_right_mono) auto
    also have "\<dots> \<le> uint p"
      by (simp add: minus_mod_eq_div_mult [symmetric])
    finally show False using q by linarith
  qed
  then have d: "drop_bit LENGTH('n) (uint p) < 2 ^ LENGTH('n)"
    by (simp only: drop_bit_eq_div)
  then have "uint h = drop_bit LENGTH('n) (uint p)"
    by (simp add: h_def unsigned_ucast_eq unsigned_drop_bit_eq take_bit_int_eq_self_iff)
  then show u: "uint h * 2 ^ LENGTH('n) + uint (ucast p :: 'n word) = uint p"
    using bits_ident [of "LENGTH('n)" "uint p"]
    by (simp add: unsigned_ucast_eq push_bit_eq_mult)
  have "bit h (LENGTH('n) - 1) = bit p (LENGTH('m) - 1)"
  proof -
    have "LENGTH('n) + (LENGTH('n) - Suc 0) = LENGTH('n) + LENGTH('n) - Suc 0"
      using len_gt_0 [where 'a = 'n] by linarith
    then show ?thesis
      by (simp add: h_def bit_ucast_iff bit_drop_bit_eq l mult_2)
  qed
  then show "sint h * 2 ^ LENGTH('n) + uint (ucast p :: 'n word) = sint p"
    using u by (simp add: sint_uint l algebra_simps power_mult power2_eq_square)
qed

lemma sint_ucast_down:
  "sint (ucast p :: 'n::len word) = signed_take_bit (LENGTH('n) - 1) (sint p)"
  if "LENGTH('n) \<le> LENGTH('m)" for p :: "'m::len word"
proof (rule bit_eqI)
  fix k
  have k: "LENGTH('n) - 1 < LENGTH('m)" "LENGTH('n) - 1 < LENGTH('n)"
    using that len_gt_0 [where 'a = 'n] by linarith+
  have s: "bit (sint p) j = bit p j" if "j < LENGTH('m)" for j
    using that by (auto simp: bit_sint_iff)
  show "bit (sint (ucast p :: 'n word)) k = bit (signed_take_bit (LENGTH('n) - 1) (sint p)) k"
  proof (cases "k < LENGTH('n)")
    case True
    then have "min (LENGTH('n) - 1) k = k" by simp
    with True that show ?thesis
      by (simp add: bit_sint_iff bit_signed_take_bit_iff bit_ucast_iff s)
  next
    case False
    then have "min (LENGTH('n) - 1) k = LENGTH('n) - 1" by simp
    with False k show ?thesis
      by (simp add: bit_sint_iff bit_signed_take_bit_iff bit_ucast_iff s)
  qed
qed

lemma fits_signed:
  "(scast (ucast p :: 'n::len word) = p) = (- (2 ^ (LENGTH('n) - 1)) \<le> sint p \<and> sint p < 2 ^ (LENGTH('n) - 1))"
  if "LENGTH('n) \<le> LENGTH('m)" for p :: "'m::len word"
proof -
have "sint (scast (ucast p :: 'n word) :: 'm word) = signed_take_bit (LENGTH('n) - 1) (sint p)"
    using that by (simp add: sint_scast_wide sint_ucast_down)
  then have "(scast (ucast p :: 'n word) = p) = (signed_take_bit (LENGTH('n) - 1) (sint p) = sint p)"
    by (metis signed_word_eqI)
  then show ?thesis
    by (simp add: signed_take_bit_int_eq_self_iff)
qed

lemma ucast_and_mask: "(ucast (x AND mask LENGTH('n)) :: 'n::len word) = ucast x" for x :: "'m::len word"
  by (rule bit_word_eqI) (simp add: bit_ucast_iff bit_and_iff bit_mask_iff, metis bit_imp_le_length)

lemma ucast_low_mask [simp]:
  "(ucast ((x :: Bit32u) AND 0xFF) :: Bit8u) = ucast x"
  "(ucast ((y :: Bit16u) AND 0xFF) :: Bit8u) = ucast y"
  "(ucast ((x :: Bit32u) AND 0xFFFF) :: Bit16u) = ucast x"
  "(ucast ((z :: Bit64u) AND 0xFFFFFFFF) :: Bit32u) = ucast z"
  using ucast_and_mask [where 'n = 8, of x] ucast_and_mask [where 'n = 8, of y]
    ucast_and_mask [where 'n = 16, of x] ucast_and_mask [where 'n = 32, of z]
  by (simp_all add: mask_eq_exp_minus_1)

lemma uint_ucast_down: "uint (ucast x :: 'n::len word) = uint x mod 2 ^ LENGTH('n)" for x :: "'m::len word"
  by (simp add: unsigned_ucast_eq take_bit_eq_mod)

lemma unsigned_quotient:
  fixes D :: "'m::len word" and d :: "'n::len word"
  assumes l: "LENGTH('n) \<le> LENGTH('m)"
  shows "uint (D div ucast d) = uint D div uint d" and "uint (D mod ucast d) = uint D mod uint d"
    and "(D div ucast d = ucast (ucast (D div ucast d) :: 'n word)) = (uint D div uint d < 2 ^ LENGTH('n))"
proof -
  show q: "uint (D div ucast d) = uint D div uint d" "uint (D mod ucast d) = uint D mod uint d"
    using l by (simp_all add: uint_div uint_mod uint_ucast_up)
  have "(D div ucast d = ucast (ucast (D div ucast d) :: 'n word)) =
      (uint D div uint d = (uint D div uint d) mod 2 ^ LENGTH('n))"
    using l by (metis q(1) uint_ucast_down uint_ucast_up word_uint_eqI)
  also have "\<dots> = (uint D div uint d < 2 ^ LENGTH('n))"
    by (metis mod_pos_pos_trivial pos_mod_bound q(1) uint_ge_0 zero_less_numeral zero_less_power)
  finally show "(D div ucast d = ucast (ucast (D div ucast d) :: 'n word)) = (uint D div uint d < 2 ^ LENGTH('n))" .
qed

lemma sint_word_of_int_fits:
  "sint (word_of_int k :: 'n::len word) = k" if "- (2 ^ (LENGTH('n) - 1)) \<le> k" "k < 2 ^ (LENGTH('n) - 1)"
  using that by (simp add: signed_of_int signed_take_bit_int_eq_self)

lemma signed_quotient:
  fixes D d :: "'m::len word"
  assumes D: "sint D \<noteq> - (2 ^ (LENGTH('m) - 1))"
  shows "sint (c_div D d) = sint D sdiv sint d"
proof -
  have "\<bar>sint D sdiv sint d\<bar> \<le> \<bar>sint D\<bar>"
    using sdiv_int_range [of "sint D" "sint d"] by auto
  then show ?thesis
    unfolding c_div_def using sint_low_bound [of D] D
    by (intro sint_word_of_int_fits; linarith)
qed

lemma signed_remainder:
  fixes D d :: "'m::len word"
  assumes "sint d \<noteq> 0"
  shows "sint (c_mod D d) = sint D smod sint d" 
proof -
  have "sint D smod sint d \<in> {- \<bar>sint d\<bar> + 1..\<bar>sint d\<bar> - 1}"
    using assms by (rule smod_int_range)
  then show ?thesis
    unfolding c_mod_def using sint_low_bound [of d]
    by (intro sint_word_of_int_fits; auto)
qed

lemma signed_remainder_low:
  fixes D :: "'m::len word" and d :: "'n::len word"
  assumes l: "LENGTH('n) \<le> LENGTH('m)" and d: "d \<noteq> 0"
  shows "sint (ucast (c_mod D (scast d)) :: 'n word) = sint D smod sint d"
proof -
  have s: "sint (scast d :: 'm word) = sint d"
    by (rule sint_scast_wide [OF l])
  have n: "sint d \<noteq> 0"
    using d by (metis signed_word_eqI signed_0)
  have "sint D smod sint d \<in> {- \<bar>sint d\<bar> + 1..\<bar>sint d\<bar> - 1}"
    using n by (rule smod_int_range)
  then have "signed_take_bit (LENGTH('n) - 1) (sint D smod sint d) = sint D smod sint d"
    using sint_low_bound [of d] by (intro signed_take_bit_int_eq_self; auto)
  then show ?thesis
    using n by (simp add: sint_ucast_down [OF l] signed_remainder s)
qed

lemma signed_quotient_low:
  fixes D :: "'m::len word" and d :: "'n::len word"
  assumes l: "LENGTH('n) \<le> LENGTH('m)" and D: "sint D \<noteq> - (2 ^ (LENGTH('m) - 1))"
  shows "(c_div D (scast d) = scast (ucast (c_div D (scast d)) :: 'n word)) =
      (- (2 ^ (LENGTH('n) - 1)) \<le> sint D sdiv sint d \<and> sint D sdiv sint d < 2 ^ (LENGTH('n) - 1))"
    and "sint (ucast (c_div D (scast d)) :: 'n word) = signed_take_bit (LENGTH('n) - 1) (sint D sdiv sint d)"
  using fits_signed [OF l, of "c_div D (scast d)"]
  by (auto simp: sint_ucast_down [OF l] signed_quotient [OF D] sint_scast_wide [OF l])

section \<open>Multiplication\<close>

text \<open>
  What a multiplication leaves in the flags: CF and OF tell whether the product was too
  wide, the others describe its low half.
\<close>

definition mul_flags :: "bool \<Rightarrow> 'n::len word \<Rightarrow> eflag \<Rightarrow> bool" where
  "mul_flags wide lo f = (if f = Carry \<or> f = Overflow then wide else ref_logic lo f)"

lemma assert_if:
  "lf_get f (oszapc (if b then upd_flags assert_flags_OxxxxC cpu else cpu)) =
    (b \<and> (f = Carry \<or> f = Overflow) \<or> lf_get f (oszapc cpu))"
  "gen_reg (if b then upd_flags assert_flags_OxxxxC cpu else cpu) = gen_reg cpu"
  "eflags (if b then upd_flags assert_flags_OxxxxC cpu else cpu) = eflags cpu"
  by (auto simp: lf_get_assert_OC)

lemma ref_logic_or_wide:
  "(b \<and> (f = Carry \<or> f = Overflow) \<or> ref_logic r f) = mul_flags b r f"
  by (cases f) (auto simp: mul_flags_def)

lemma ucast_signed_drop: "(ucast (signed_drop_bit 16 p) :: Bit16u) = ucast (shr p 16)" for p :: Bit32u
  by (rule bit_word_eqI) (auto simp: bit_ucast_iff bit_signed_drop_bit_iff bit_drop_bit_eq)

lemma ucast_scast_16: "(ucast (scast x :: Bit32u) :: Bit16u) = scast x" for x :: Bit8u
  by (rule bit_word_eqI) (auto simp: bit_ucast_iff bit_signed_iff min_def)

lemma high_half_zero:
  fixes p :: "'m::len word"
  assumes l: "LENGTH('m) = 2 * LENGTH('n)"
  shows "((ucast (shr p LENGTH('n)) :: 'n::len word) \<noteq> 0) = (2 ^ LENGTH('n) \<le> uint p)"
proof -
  let ?h = "ucast (shr p LENGTH('n)) :: 'n word" and ?l = "ucast p :: 'n word"
  have e: "uint p = uint ?h * 2 ^ LENGTH('n) + uint ?l" using halves(1) [OF l, of p] by simp
  have lo: "0 \<le> uint ?l" "uint ?l < 2 ^ LENGTH('n)" by (simp_all add: uint_lt2p)
  show ?thesis
  proof (cases "?h = 0")
    case True then show ?thesis using e lo by (simp add: not_le)
  next
    case False
    then have "0 < uint ?h" using uint_ge_0 [of ?h] by (metis order_le_less uint_0_iff)
    then have "1 * 2 ^ LENGTH('n) \<le> uint ?h * 2 ^ LENGTH('n)" by (intro mult_right_mono) auto
    then have "2 ^ LENGTH('n) \<le> uint p" using e lo by linarith
    then show ?thesis using False by simp
  qed
qed

lemma imul_handlers:
  fixes i cpu
  defines "P8 \<equiv> scast (AL cpu) * scast (src8 i cpu) :: Bit16u"
    and "P16 \<equiv> scast (AX cpu) * scast (src16 i cpu) :: Bit32u"
    and "P32 \<equiv> scast (EAX cpu) * scast (src32 i cpu) :: Bit64u"
  shows
  "alu_step (set_AX P8)
     (mul_flags (P8 \<noteq> scast (ucast P8 :: Bit8u)) (ucast P8 :: Bit8u)) cpu (IMUL_ALEbR i cpu)"
  "alu_step (set_DX (ucast (shr P16 16)) \<circ> set_AX (ucast P16))
     (mul_flags (P16 \<noteq> scast (ucast P16 :: Bit16u)) (ucast P16 :: Bit16u)) cpu (IMUL_AXEwR i cpu)"
  "alu_step (set_EDX (GET32H P32) \<circ> set_EAX (GET32L P32))
     (mul_flags (P32 \<noteq> scast (ucast P32 :: Bit32u)) (GET32L P32)) cpu (IMUL_EAXEdR i cpu)"
  by (simp_all only: alu_step_def IMUL_ALEbR_def IMUL_AXEwR_def IMUL_EAXEdR_def Let_def assert_if)
     (simp_all add: LOGIC_8_ref LOGIC_16_ref LOGIC_32_ref ref_logic_or_wide P8_def P16_def P32_def
        ucast_signed_drop ucast_arith(4) ucast_scast_16)

lemma imul_two_operand_handlers:
  fixes i cpu and x y :: Bit16u and z w :: Bit32u
  defines "p16 \<equiv> \<lambda>x y. scast (x :: Bit16u) * scast (y :: Bit16u) :: Bit32u"
    and "p32 \<equiv> \<lambda>x y. scast (x :: Bit32u) * scast (y :: Bit32u) :: Bit64u"
  defines "P \<equiv> p16 (dst16 i cpu) (src16 i cpu)" and "Q \<equiv> p16 (src16 i cpu) (i_Iw i)"
    and "R \<equiv> p32 (dst32 i cpu) (src32 i cpu)" and "S \<equiv> p32 (src32 i cpu) (i_Id i)"
  shows
  "alu_step (BX_WRITE_16BIT_REG (i_dst i) (ucast P))
     (mul_flags (P \<noteq> scast (ucast P :: Bit16u)) (ucast P :: Bit16u)) cpu (IMUL_GwEwR i cpu)"
  "alu_step (BX_WRITE_16BIT_REG (i_dst i) (ucast Q))
     (mul_flags (Q \<noteq> scast (ucast Q :: Bit16u)) (ucast Q :: Bit16u)) cpu (IMUL_GwEwIwR i cpu)"
  "alu_step (BX_WRITE_32BIT_REGZ (i_dst i) (ucast R))
     (mul_flags (R \<noteq> scast (ucast R :: Bit32u)) (GET32L R)) cpu (IMUL_GdEdR i cpu)"
  "alu_step (BX_WRITE_32BIT_REGZ (i_dst i) (ucast S))
     (mul_flags (S \<noteq> scast (ucast S :: Bit32u)) (GET32L S)) cpu (IMUL_GdEdIdR i cpu)"
  by (simp_all only: alu_step_def IMUL_GwEwR_def IMUL_GwEwIwR_def IMUL_GdEdR_def IMUL_GdEdIdR_def Let_def assert_if)
     (simp_all add: LOGIC_16_ref LOGIC_32_ref ref_logic_or_wide P_def Q_def R_def S_def p16_def p32_def)

lemma mul8_promoted:
  fixes x y :: Bit8u
  defines "P \<equiv> ucast x * ucast y :: Bit16u"
  shows "ucast x * ucast y = (ucast P :: Bit32u)"
    and "(ucast (ucast P :: Bit32u) :: Bit8u) = ucast P"
    and "(ucast (shr (ucast P :: Bit32u) 8) :: Bit8u) = ucast (shr P 8)"
proof -
  show "ucast x * ucast y = (ucast P :: Bit32u)"
    by (rule word_uint_eqI) (simp add: P_def uint_product uint_ucast_up)
  show "(ucast (ucast P :: Bit32u) :: Bit8u) = ucast P"
    "(ucast (shr (ucast P :: Bit32u) 8) :: Bit8u) = ucast (shr P 8)"
    by (rule bit_word_eqI; simp add: bit_ucast_iff bit_drop_bit_eq)+
qed

lemma mul_handlers:
  fixes i cpu
  defines "P8 \<equiv> ucast (AL cpu) * ucast (src8 i cpu) :: Bit16u"
    and "P16 \<equiv> ucast (AX cpu) * ucast (src16 i cpu) :: Bit32u"
    and "P32 \<equiv> ucast (EAX cpu) * ucast (src32 i cpu) :: Bit64u"
  shows
  "alu_step (set_AX P8) (mul_flags (2 ^ 8 \<le> uint P8) (ucast P8 :: Bit8u)) cpu (MUL_ALEbR i cpu)"
  "alu_step (set_DX (ucast (shr P16 16)) \<circ> set_AX (ucast P16))
     (mul_flags (2 ^ 16 \<le> uint P16) (ucast P16 :: Bit16u)) cpu (MUL_AXEwR i cpu)"
  "alu_step (set_EDX (GET32H P32) \<circ> set_EAX (GET32L P32))
     (mul_flags (2 ^ 32 \<le> uint P32) (GET32L P32)) cpu (MUL_EAXEdR i cpu)"
  by (simp_all only: alu_step_def MUL_ALEbR_def MUL_AXEwR_def MUL_EAXEdR_def Let_def assert_if
        mul8_promoted)
     (simp_all add: LOGIC_8_ref LOGIC_16_ref LOGIC_32_ref ref_logic_or_wide P8_def P16_def P32_def
        high_half_zero [where 'n = 8 and 'm = 16, simplified] mul8_promoted(2,3)
        high_half_zero [where 'n = 16 and 'm = 32, simplified]
        high_half_zero [where 'n = 32 and 'm = 64, simplified])

section \<open>Division\<close>

text \<open>The register pairs as dividends.\<close>

definition dividend16 :: "bx_cpu \<Rightarrow> Bit32u" where
  "dividend16 cpu = shl (ucast (DX cpu)) 16 OR ucast (AX cpu)"

definition dividend32 :: "bx_cpu \<Rightarrow> Bit64u" where
  "dividend32 cpu = shl (ucast (EDX cpu)) 32 OR ucast (EAX cpu)"

lemma dividend_parts:
  "uint (dividend16 cpu) = uint (DX cpu) * 2 ^ 16 + uint (AX cpu)"
  "sint (dividend16 cpu) = sint (DX cpu) * 2 ^ 16 + uint (AX cpu)"
  "uint (dividend32 cpu) = uint (EDX cpu) * 2 ^ 32 + uint (EAX cpu)"
  "sint (dividend32 cpu) = sint (EDX cpu) * 2 ^ 32 + uint (EAX cpu)"
proof -
  have 16: "ucast (dividend16 cpu) = AX cpu" "ucast (shr (dividend16 cpu) 16) = DX cpu"
    by (rule bit_word_eqI; auto simp: dividend16_def bit_ucast_iff bit_or_iff bit_push_bit_iff
        bit_drop_bit_eq dest: bit_imp_le_length)+
  have 32: "ucast (dividend32 cpu) = EAX cpu" "ucast (shr (dividend32 cpu) 32) = EDX cpu"
    by (rule bit_word_eqI; auto simp: dividend32_def bit_ucast_iff bit_or_iff bit_push_bit_iff
        bit_drop_bit_eq dest: bit_imp_le_length)+
  show "uint (dividend16 cpu) = uint (DX cpu) * 2 ^ 16 + uint (AX cpu)"
    "sint (dividend16 cpu) = sint (DX cpu) * 2 ^ 16 + uint (AX cpu)"
    using halves [where 'n = 16, of "dividend16 cpu"] by (simp_all add: 16)
  show "uint (dividend32 cpu) = uint (EDX cpu) * 2 ^ 32 + uint (EAX cpu)"
    "sint (dividend32 cpu) = sint (EDX cpu) * 2 ^ 32 + uint (EAX cpu)"
    using halves [where 'n = 32, of "dividend32 cpu"] by (simp_all add: 32)
qed

lemma dividend32_sum: "shl (ucast (EDX cpu)) 32 + ucast (EAX cpu) = dividend32 cpu"
  unfolding dividend32_def
  by (rule disjunctive_add) (auto simp: bit_push_bit_iff bit_ucast_iff dest: bit_imp_le_length)

text \<open>
  The outcome of a division: the exception when \<open>bad\<close>, and otherwise the quotient and
  the remainder in their registers, the flags and EFLAGS untouched.
\<close>

lemma div_handlers:
  "DIV_ALEbR i cpu =
    (let d = src8 i cpu; q = AX cpu div ucast d; r = AX cpu mod ucast d
     in if d = 0 \<or> 2 ^ 8 \<le> uint (AX cpu) div uint d then raise_DE
        else Inr (set_AH (ucast r) (set_AL (ucast q) cpu)))"
  "DIV_AXEwR i cpu =
    (let d = src16 i cpu; q = dividend16 cpu div ucast d; r = dividend16 cpu mod ucast d
     in if d = 0 \<or> 2 ^ 16 \<le> uint (dividend16 cpu) div uint d then raise_DE
        else Inr (set_DX (ucast r) (set_AX (ucast q) cpu)))"
  "DIV_EAXEdR i cpu =
    (let d = src32 i cpu; q = dividend32 cpu div ucast d; r = dividend32 cpu mod ucast d
     in if d = 0 \<or> 2 ^ 32 \<le> uint (dividend32 cpu) div uint d then raise_DE
        else Inr (set_EDX (ucast r) (set_EAX (ucast q) cpu)))"
  using unsigned_quotient(3) [of "AX cpu" "src8 i cpu"]
    unsigned_quotient(3) [of "dividend16 cpu" "src16 i cpu"]
    unsigned_quotient(3) [of "dividend32 cpu" "src32 i cpu"]
  by (auto simp: DIV_ALEbR_def DIV_AXEwR_def DIV_EAXEdR_def Let_def dividend32_sum
      simp flip: dividend16_def)

lemma ucast_word_of_int_down:
  "(ucast (word_of_int k :: 'm::len word) :: 'n::len word) = word_of_int k" if "LENGTH('n) \<le> LENGTH('m)"
  using that by (intro bit_word_eqI) (simp add: bit_ucast_iff bit_word_of_int_iff)

lemma idiv_handlers:
  "IDIV_ALEbR i cpu =
    (let d = src8 i cpu; D = AX cpu; q = sint D sdiv sint d
     in if d = 0 \<or> D = 0x8000 \<or> \<not> (- (2 ^ 7) \<le> q \<and> q < 2 ^ 7) then raise_DE
        else Inr (set_AH (ucast (c_mod D (scast d))) (set_AL (ucast (c_div D (scast d))) cpu)))"
  "IDIV_AXEwR i cpu =
    (let d = src16 i cpu; D = dividend16 cpu; q = sint D sdiv sint d
     in if d = 0 \<or> D = 0x80000000 \<or> \<not> (- (2 ^ 15) \<le> q \<and> q < 2 ^ 15) then raise_DE
        else Inr (set_DX (ucast (c_mod D (scast d))) (set_AX (ucast (c_div D (scast d))) cpu)))"
  "IDIV_EAXEdR i cpu =
    (let d = src32 i cpu; D = dividend32 cpu; q = sint D sdiv sint d
     in if d = 0 \<or> D = 0x8000000000000000 \<or> \<not> (- (2 ^ 31) \<le> q \<and> q < 2 ^ 31) then raise_DE
        else Inr (set_EDX (ucast (c_mod D (scast d))) (set_EAX (ucast (c_div D (scast d))) cpu)))"
proof -
  have m: "D \<noteq> 0x8000 \<Longrightarrow> sint D \<noteq> - (2 ^ (LENGTH(16) - 1))"
     "E \<noteq> 0x80000000 \<Longrightarrow> sint E \<noteq> - (2 ^ (LENGTH(32) - 1))"
     "F \<noteq> 0x8000000000000000 \<Longrightarrow> sint F \<noteq> - (2 ^ (LENGTH(64) - 1))"
    for D :: Bit16u and E :: Bit32u and F :: Bit64u
    by (auto simp: signed_word_eqI) 
  note q = signed_quotient_low(1) [OF _ m(1), of "AX cpu" "src8 i cpu"]
    signed_quotient_low(1) [OF _ m(2), of "dividend16 cpu" "src16 i cpu"]
    signed_quotient_low(1) [OF _ m(3), of "dividend32 cpu" "src32 i cpu"]
  show "IDIV_AXEwR i cpu =
    (let d = src16 i cpu; D = dividend16 cpu; q = sint D sdiv sint d
     in if d = 0 \<or> D = 0x80000000 \<or> \<not> (- (2 ^ 15) \<le> q \<and> q < 2 ^ 15) then raise_DE
        else Inr (set_DX (ucast (c_mod D (scast d))) (set_AX (ucast (c_div D (scast d))) cpu)))"
    using q(2) by (auto simp: IDIV_AXEwR_def Let_def simp flip: dividend16_def)
  show "IDIV_EAXEdR i cpu =
    (let d = src32 i cpu; D = dividend32 cpu; q = sint D sdiv sint d
     in if d = 0 \<or> D = 0x8000000000000000 \<or> \<not> (- (2 ^ 31) \<le> q \<and> q < 2 ^ 31) then raise_DE
        else Inr (set_EDX (ucast (c_mod D (scast d))) (set_EAX (ucast (c_div D (scast d))) cpu)))"
    using q(3) by (auto simp: IDIV_EAXEdR_def Let_def simp flip: dividend32_def)
  have p: "ucast (c_div (scast D) (scast d) :: Bit32u) = (c_div D (scast d) :: Bit16u)"
    "(ucast (c_mod (scast D) (scast d) :: Bit32u) :: Bit8u) = ucast (c_mod D (scast d) :: Bit16u)"
    for D :: Bit16u and d :: Bit8u
    by (simp_all add: c_div_def c_mod_def sint_scast_wide ucast_word_of_int_down)
  show "IDIV_ALEbR i cpu =
    (let d = src8 i cpu; D = AX cpu; q = sint D sdiv sint d
     in if d = 0 \<or> D = 0x8000 \<or> \<not> (- (2 ^ 7) \<le> q \<and> q < 2 ^ 7) then raise_DE
        else Inr (set_AH (ucast (c_mod D (scast d))) (set_AL (ucast (c_div D (scast d))) cpu)))"
    using q(1) by (auto simp: IDIV_ALEbR_def Let_def p)
qed

lemma byte_rl_put_rx: "byte_rl (put_rx v w) = ucast v"
  by (rule bit_word_eqI) (simp add: byte_rl_def bit_ucast_iff bit_put_rx)

section \<open>Properties\<close>

text \<open>
  C35. MUL at the three sizes: the destination pair holds the full product of the
  accumulator and the source as unsigned numbers, nothing else in the register file
  changes, CF and OF are set iff the product does not fit the low half, and SF, ZF and PF
  describe the low half.
\<close>

theorem mul_correct:
  "(let cpu' = MUL_ALEbR i cpu; P = uint (AL cpu) * uint (src8 i cpu)
    in uint (AX cpu') = P \<and> gen_reg cpu' = gen_reg (set_AX (AX cpu') cpu) \<and>
      (\<forall>f. lf_get f (oszapc cpu') = mul_flags (2 ^ 8 \<le> P) (AL cpu') f)) \<and>
   (let cpu' = MUL_AXEwR i cpu; P = uint (AX cpu) * uint (src16 i cpu)
    in uint (DX cpu') * 2 ^ 16 + uint (AX cpu') = P \<and>
      gen_reg cpu' = gen_reg (set_DX (DX cpu') (set_AX (AX cpu') cpu)) \<and>
      (\<forall>f. lf_get f (oszapc cpu') = mul_flags (2 ^ 16 \<le> P) (AX cpu') f)) \<and>
   (let cpu' = MUL_EAXEdR i cpu; P = uint (EAX cpu) * uint (src32 i cpu)
    in uint (EDX cpu') * 2 ^ 32 + uint (EAX cpu') = P \<and>
      gen_reg cpu' = gen_reg (set_EDX (EDX cpu') (set_EAX (EAX cpu') cpu)) \<and>
      (\<forall>f. lf_get f (oszapc cpu') = mul_flags (2 ^ 32 \<le> P) (EAX cpu') f))"
proof -
  let ?P8 = "ucast (AL cpu) * ucast (src8 i cpu) :: Bit16u"
  let ?P16 = "ucast (AX cpu) * ucast (src16 i cpu) :: Bit32u"
  let ?P32 = "ucast (EAX cpu) * ucast (src32 i cpu) :: Bit64u"
  note h = mul_handlers [where i = i and cpu = cpu, THEN alu_stepD(1)]
    mul_handlers [where i = i and cpu = cpu, THEN alu_stepD(3)]
  have p: "uint ?P8 = uint (AL cpu) * uint (src8 i cpu)"
    "uint ?P16 = uint (AX cpu) * uint (src16 i cpu)"
    "uint ?P32 = uint (EAX cpu) * uint (src32 i cpu)"
    by (simp_all add: uint_product)
  show ?thesis
    using halves(1) [where 'n = 16, of ?P16] halves(1) [where 'n = 32, of ?P32]
    by (simp add: h p byte_rl_put_rx Let_def)
qed

lemma acc8:
  fixes P :: Bit16u
  assumes h: "alu_step (set_AX P) (mul_flags w (ucast P :: Bit8u)) cpu cpu'"
  shows "uint (AX cpu') = uint P \<and> sint (AX cpu') = sint P \<and>
    gen_reg cpu' = gen_reg (set_AX (AX cpu') cpu) \<and> (\<forall>f. lf_get f (oszapc cpu') = mul_flags w (AL cpu') f)"
  by (simp add: alu_stepD [OF h] byte_rl_put_rx)

lemma pair16:
  fixes P :: Bit32u
  assumes h: "alu_step (set_DX (ucast (shr P 16)) \<circ> set_AX (ucast P)) (mul_flags w (ucast P :: Bit16u)) cpu cpu'"
  shows "uint (DX cpu') * 2 ^ 16 + uint (AX cpu') = uint P \<and>
    sint (DX cpu') * 2 ^ 16 + uint (AX cpu') = sint P \<and>
    gen_reg cpu' = gen_reg (set_DX (DX cpu') (set_AX (AX cpu') cpu)) \<and>
    (\<forall>f. lf_get f (oszapc cpu') = mul_flags w (AX cpu') f)"
  using halves [where 'n = 16, of P] by (simp add: alu_stepD [OF h])

lemma pair32:
  fixes P :: Bit64u
  assumes h: "alu_step (set_EDX (GET32H P) \<circ> set_EAX (GET32L P)) (mul_flags w (GET32L P)) cpu cpu'"
  shows "uint (EDX cpu') * 2 ^ 32 + uint (EAX cpu') = uint P \<and>
    sint (EDX cpu') * 2 ^ 32 + uint (EAX cpu') = sint P \<and>
    gen_reg cpu' = gen_reg (set_EDX (EDX cpu') (set_EAX (EAX cpu') cpu)) \<and>
    (\<forall>f. lf_get f (oszapc cpu') = mul_flags w (EAX cpu') f)"
  using halves [where 'n = 32, of P] by (simp add: alu_stepD [OF h])

lemmas uint_products = uint_product [where 'n = 8 and 'm = 16, simplified]
  uint_product [where 'n = 16 and 'm = 32, simplified] uint_product [where 'n = 32 and 'm = 64, simplified]

lemma sint_product_8: "sint (scast x * scast y :: Bit16u) = sint x * sint y" for x y :: Bit8u
  by (rule sint_product) simp
lemma sint_product_16: "sint (scast x * scast y :: Bit32u) = sint x * sint y" for x y :: Bit16u
  by (rule sint_product) simp
lemma sint_product_32: "sint (scast x * scast y :: Bit64u) = sint x * sint y" for x y :: Bit32u
  by (rule sint_product) simp

lemma fits8: "(P = scast (ucast P :: Bit8u)) = (- (2 ^ 7) \<le> sint P \<and> sint P < 2 ^ 7)" for P :: Bit16u
  using fits_signed [where 'n = 8, of P] by auto
lemma fits16: "(P = scast (ucast P :: Bit16u)) = (- (2 ^ 15) \<le> sint P \<and> sint P < 2 ^ 15)" for P :: Bit32u
  using fits_signed [where 'n = 16, of P] by auto
lemma fits32: "(P = scast (ucast P :: Bit32u)) = (- (2 ^ 31) \<le> sint P \<and> sint P < 2 ^ 31)" for P :: Bit64u
  using fits_signed [where 'n = 32, of P] by auto

text \<open>
  IMUL with one operand at the three sizes: the same for signed numbers, with CF and OF
  set iff the signed product does not fit the low half.
\<close>

theorem imul_correct:
  "(let cpu' = IMUL_ALEbR i cpu; P = sint (AL cpu) * sint (src8 i cpu)
    in sint (AX cpu') = P \<and> gen_reg cpu' = gen_reg (set_AX (AX cpu') cpu) \<and>
      (\<forall>f. lf_get f (oszapc cpu') = mul_flags (\<not> (- (2 ^ 7) \<le> P \<and> P < 2 ^ 7)) (AL cpu') f)) \<and>
   (let cpu' = IMUL_AXEwR i cpu; P = sint (AX cpu) * sint (src16 i cpu)
    in sint (DX cpu') * 2 ^ 16 + uint (AX cpu') = P \<and>
      gen_reg cpu' = gen_reg (set_DX (DX cpu') (set_AX (AX cpu') cpu)) \<and>
      (\<forall>f. lf_get f (oszapc cpu') = mul_flags (\<not> (- (2 ^ 15) \<le> P \<and> P < 2 ^ 15)) (AX cpu') f)) \<and>
   (let cpu' = IMUL_EAXEdR i cpu; P = sint (EAX cpu) * sint (src32 i cpu)
    in sint (EDX cpu') * 2 ^ 32 + uint (EAX cpu') = P \<and>
      gen_reg cpu' = gen_reg (set_EDX (EDX cpu') (set_EAX (EAX cpu') cpu)) \<and>
      (\<forall>f. lf_get f (oszapc cpu') = mul_flags (\<not> (- (2 ^ 31) \<le> P \<and> P < 2 ^ 31)) (EAX cpu') f))"
  unfolding Let_def sint_product_8 [symmetric] sint_product_16 [symmetric] sint_product_32 [symmetric]
  using acc8 [OF imul_handlers(1) [where i = i and cpu = cpu]] pair16 [OF imul_handlers(2) [where i = i and cpu = cpu]]
    pair32 [OF imul_handlers(3) [where i = i and cpu = cpu]]
  by (simp only: fits8 fits16 fits32 simp_thms)

lemma truncated_product:
  fixes x y :: "'n::len word"
  assumes l: "2 * LENGTH('n) \<le> LENGTH('m::len)"
  shows "(ucast (scast x * scast y :: 'm word) :: 'n word) = x * y"
    and "(scast x * scast y = (scast (x * y) :: 'm word)) =
      (- (2 ^ (LENGTH('n) - 1)) \<le> sint x * sint y \<and> sint x * sint y < 2 ^ (LENGTH('n) - 1))"
proof -
  have l': "LENGTH('n) \<le> LENGTH('m)" using l by simp
  have w: "scast x * scast y = (word_of_int (sint x * sint y) :: 'm word)"
    by (metis of_int_sint scast_id sint_product [OF l])
  have "(ucast (scast x * scast y :: 'm word) :: 'n word) = word_of_int (sint x * sint y)"
    unfolding w by (rule ucast_word_of_int_down [OF l'])
  then show u: "(ucast (scast x * scast y :: 'm word) :: 'n word) = x * y"
    by simp
  show "(scast x * scast y = (scast (x * y) :: 'm word)) =
      (- (2 ^ (LENGTH('n) - 1)) \<le> sint x * sint y \<and> sint x * sint y < 2 ^ (LENGTH('n) - 1))"
    using fits_signed [OF l', of "scast x * scast y"] sint_product [OF l, of x y] unfolding u by auto
qed

text \<open>
  IMUL with two and three operands: the destination holds the low half of the signed
  product, so its signed value is the product exactly when CF and OF are clear.
\<close>

theorem imul_truncated_correct:
  "(let cpu' = IMUL_GwEwR i cpu; P = sint (dst16 i cpu) * sint (src16 i cpu)
    in alu_step (BX_WRITE_16BIT_REG (i_dst i) (dst16 i cpu * src16 i cpu))
         (mul_flags (\<not> (- (2 ^ 15) \<le> P \<and> P < 2 ^ 15)) (dst16 i cpu * src16 i cpu)) cpu cpu') \<and>
   (let cpu' = IMUL_GwEwIwR i cpu; P = sint (src16 i cpu) * sint (i_Iw i)
    in alu_step (BX_WRITE_16BIT_REG (i_dst i) (src16 i cpu * i_Iw i))
         (mul_flags (\<not> (- (2 ^ 15) \<le> P \<and> P < 2 ^ 15)) (src16 i cpu * i_Iw i)) cpu cpu') \<and>
   (let cpu' = IMUL_GdEdR i cpu; P = sint (dst32 i cpu) * sint (src32 i cpu)
    in alu_step (BX_WRITE_32BIT_REGZ (i_dst i) (dst32 i cpu * src32 i cpu))
         (mul_flags (\<not> (- (2 ^ 31) \<le> P \<and> P < 2 ^ 31)) (dst32 i cpu * src32 i cpu)) cpu cpu') \<and>
   (let cpu' = IMUL_GdEdIdR i cpu; P = sint (src32 i cpu) * sint (i_Id i)
    in alu_step (BX_WRITE_32BIT_REGZ (i_dst i) (src32 i cpu * i_Id i))
         (mul_flags (\<not> (- (2 ^ 31) \<le> P \<and> P < 2 ^ 31)) (src32 i cpu * i_Id i)) cpu cpu')"
proof -
  have p: "(ucast (scast x * scast y :: Bit32u) :: Bit16u) = x * y" "(scast x * scast y = (scast (x * y) :: Bit32u)) =
      (- (2 ^ 15) \<le> sint x * sint y \<and> sint x * sint y < 2 ^ 15)"
    "GET32L (scast z * scast w) = z * w" "(scast z * scast w = (scast (z * w) :: Bit64u)) =
      (- (2 ^ 31) \<le> sint z * sint w \<and> sint z * sint w < 2 ^ 31)" for x y :: Bit16u and z w :: Bit32u
    using truncated_product [where 'm = 32, of x y] truncated_product [where 'm = 64, of z w] by simp_all
  show ?thesis
    unfolding Let_def
    using imul_two_operand_handlers [where i = i and cpu = cpu]
    by (simp only: p not_not simp_thms)
qed

lemma unsigned_results:
  fixes D :: "'m::len word" and d :: "'n::len word"
  assumes l: "LENGTH('n) \<le> LENGTH('m)" and d: "d \<noteq> 0"
  shows "uint (ucast (D mod ucast d) :: 'n word) = uint D mod uint d"
    and "uint D div uint d < 2 ^ LENGTH('n) \<Longrightarrow> uint (ucast (D div ucast d) :: 'n word) = uint D div uint d"
    and "0 < uint d"
proof -
  show p: "0 < uint d" using d uint_ge_0 [of d] by (metis order_le_less uint_0_iff)
  have "uint D mod uint d < uint d" using p by simp
  then have "uint D mod uint d < 2 ^ LENGTH('n)" using uint_lt2p [of d] by linarith
  then show "uint (ucast (D mod ucast d) :: 'n word) = uint D mod uint d"
    using p by (simp add: uint_ucast_down unsigned_quotient [OF l] pos_mod_sign)
  show "uint (ucast (D div ucast d) :: 'n word) = uint D div uint d" if "uint D div uint d < 2 ^ LENGTH('n)"
    using that p by (simp add: uint_ucast_down unsigned_quotient [OF l] pos_imp_zdiv_nonneg_iff)
qed

lemma unsigned_division:
  fixes D :: "'m::len word" and d :: "'n::len word"
  assumes l: "LENGTH('n) \<le> LENGTH('m)" and d: "d \<noteq> 0" and q: "\<not> 2 ^ LENGTH('n) \<le> uint D div uint d"
  shows "uint d \<noteq> 0 \<and>
    uint (ucast (D div ucast d) :: 'n word) * uint d + uint (ucast (D mod ucast d) :: 'n word) = uint D \<and>
    uint (ucast (D mod ucast d) :: 'n word) < uint d"
  using unsigned_results [OF l d] q by (simp add: not_le)

text \<open>
  C36. DIV at the three sizes returns: either the divide error, exactly when the divisor is
  zero or the quotient does not fit its register, or a state whose registers hold the
  quotient and the remainder of the register pair, with flags and other registers
  untouched.
\<close>

theorem div_correct:
  "(let d = uint (src8 i cpu); D = uint (AX cpu)
    in case DIV_ALEbR i cpu of
      Inl e \<Rightarrow> e = BX_DE_EXCEPTION 0 \<and> (d = 0 \<or> 2 ^ 8 \<le> D div d)
    | Inr cpu' \<Rightarrow> d \<noteq> 0 \<and> uint (AL cpu') * d + uint (AH cpu') = D \<and> uint (AH cpu') < d \<and>
        cpu' = set_AH (AH cpu') (set_AL (AL cpu') cpu)) \<and>
   (let d = uint (src16 i cpu); D = uint (DX cpu) * 2 ^ 16 + uint (AX cpu)
    in case DIV_AXEwR i cpu of
      Inl e \<Rightarrow> e = BX_DE_EXCEPTION 0 \<and> (d = 0 \<or> 2 ^ 16 \<le> D div d)
    | Inr cpu' \<Rightarrow> d \<noteq> 0 \<and> uint (AX cpu') * d + uint (DX cpu') = D \<and> uint (DX cpu') < d \<and>
        cpu' = set_DX (DX cpu') (set_AX (AX cpu') cpu)) \<and>
   (let d = uint (src32 i cpu); D = uint (EDX cpu) * 2 ^ 32 + uint (EAX cpu)
    in case DIV_EAXEdR i cpu of
      Inl e \<Rightarrow> e = BX_DE_EXCEPTION 0 \<and> (d = 0 \<or> 2 ^ 32 \<le> D div d)
    | Inr cpu' \<Rightarrow> d \<noteq> 0 \<and> uint (EAX cpu') * d + uint (EDX cpu') = D \<and> uint (EDX cpu') < d \<and>
        cpu' = set_EDX (EDX cpu') (set_EAX (EAX cpu') cpu))"
proof -
  show ?thesis
    unfolding div_handlers Let_def dividend_parts [symmetric]
    using unsigned_division [of "src8 i cpu" "AX cpu"]
      unsigned_division [of "src16 i cpu" "dividend16 cpu"]
      unsigned_division [of "src32 i cpu" "dividend32 cpu"]
    by (intro conjI) (simp_all split: if_split)
qed

lemma min_sdiv_wide:
  fixes d :: int
  assumes "0 < K" "0 < B" "d \<noteq> 0" "\<bar>d\<bar> \<le> B"
  shows "K \<le> \<bar>- (K * B) sdiv d\<bar>"
proof -
  have "K * \<bar>d\<bar> \<le> K * B" using assms by (intro mult_left_mono) auto
  then have "K * \<bar>d\<bar> div \<bar>d\<bar> \<le> K * B div \<bar>d\<bar>" using assms by (intro zdiv_mono1) auto
  then have "K \<le> K * B div \<bar>d\<bar>" using assms by simp
  then show ?thesis using assms by (auto simp: signed_divide_int_def abs_mult abs_sgn_eq)
qed

lemma sint_nonzero: "d \<noteq> 0 \<Longrightarrow> sint d \<noteq> 0" for d :: "'n::len word"
  by (metis signed_word_eqI signed_0)

lemma min_quotient:
  fixes d :: "'n::len word"
  assumes d: "d \<noteq> 0"
  shows "\<not> (- (2 ^ (LENGTH('n) - 1)) \<le> - (2 ^ LENGTH('n) * 2 ^ (LENGTH('n) - 1)) sdiv sint d \<and>
    - (2 ^ LENGTH('n) * 2 ^ (LENGTH('n) - 1)) sdiv sint d < 2 ^ (LENGTH('n) - 1))"
proof -
  have "2 ^ LENGTH('n) \<le> \<bar>- (2 ^ LENGTH('n) * 2 ^ (LENGTH('n) - 1)) sdiv sint d\<bar>"
    using sint_low_bound [of d] sint_nonzero [OF d] by (intro min_sdiv_wide) auto
  moreover have "(2 :: int) ^ (LENGTH('n) - 1) < 2 ^ LENGTH('n)"
    by (rule power_strict_increasing) auto
  ultimately show ?thesis by linarith
qed

lemma signed_division:
  fixes D :: "'m::len word" and d :: "'n::len word"
  assumes l: "LENGTH('n) \<le> LENGTH('m)" and d: "d \<noteq> 0" and D: "sint D \<noteq> - (2 ^ (LENGTH('m) - 1))"
    and q: "- (2 ^ (LENGTH('n) - 1)) \<le> sint D sdiv sint d" "sint D sdiv sint d < 2 ^ (LENGTH('n) - 1)"
  defines "Q \<equiv> ucast (c_div D (scast d)) :: 'n word" and "R \<equiv> ucast (c_mod D (scast d)) :: 'n word"
  shows "sint d \<noteq> 0 \<and> sint Q * sint d + sint R = sint D \<and> \<bar>sint R\<bar> < \<bar>sint d\<bar> \<and>
    (sint R = 0 \<or> sgn (sint R) = sgn (sint D))"
proof -
  have n: "sint d \<noteq> 0" using d by (rule sint_nonzero)
  have "sint Q = sint D sdiv sint d"
    using signed_quotient_low(2) [OF l D, of d] q by (simp add: Q_def signed_take_bit_int_eq_self)
  moreover have "sint R = sint D smod sint d"
    using signed_remainder_low [OF l d] by (simp add: R_def)
  moreover have "\<bar>sint D smod sint d\<bar> < \<bar>sint d\<bar>"
    using smod_int_range [OF n, of "sint D"] by auto
  moreover have "sint D smod sint d = 0 \<or> sgn (sint D smod sint d) = sgn (sint D)"
    using n by (auto simp: signed_modulo_int_def sgn_mult zero_less_iff_neq_zero order_less_le)
  ultimately show ?thesis
    using n sdiv_mult_smod_eq [of "sint D" "sint d"] by auto
qed

text \<open>
  IDIV at the three sizes: the divide error exactly when the divisor is zero or the
  quotient truncated towards zero does not fit (the handlers test the most negative
  dividend separately, and that test is covered by this condition); otherwise the
  registers hold quotient and remainder of the signed pair, the remainder smaller than the
  divisor and with the sign of the dividend.
\<close>

theorem idiv_correct:
  "(let d = sint (src8 i cpu); D = sint (AX cpu)
    in case IDIV_ALEbR i cpu of
      Inl e \<Rightarrow> e = BX_DE_EXCEPTION 0 \<and> (d = 0 \<or> D sdiv d < - (2 ^ 7) \<or> 2 ^ 7 \<le> D sdiv d)
    | Inr cpu' \<Rightarrow> d \<noteq> 0 \<and> sint (AL cpu') * d + sint (AH cpu') = D \<and> \<bar>sint (AH cpu')\<bar> < \<bar>d\<bar> \<and>
        (sint (AH cpu') = 0 \<or> sgn (sint (AH cpu')) = sgn D) \<and>
        cpu' = set_AH (AH cpu') (set_AL (AL cpu') cpu)) \<and>
   (let d = sint (src16 i cpu); D = sint (DX cpu) * 2 ^ 16 + uint (AX cpu)
    in case IDIV_AXEwR i cpu of
      Inl e \<Rightarrow> e = BX_DE_EXCEPTION 0 \<and> (d = 0 \<or> D sdiv d < - (2 ^ 15) \<or> 2 ^ 15 \<le> D sdiv d)
    | Inr cpu' \<Rightarrow> d \<noteq> 0 \<and> sint (AX cpu') * d + sint (DX cpu') = D \<and> \<bar>sint (DX cpu')\<bar> < \<bar>d\<bar> \<and>
        (sint (DX cpu') = 0 \<or> sgn (sint (DX cpu')) = sgn D) \<and>
        cpu' = set_DX (DX cpu') (set_AX (AX cpu') cpu)) \<and>
   (let d = sint (src32 i cpu); D = sint (EDX cpu) * 2 ^ 32 + uint (EAX cpu)
    in case IDIV_EAXEdR i cpu of
      Inl e \<Rightarrow> e = BX_DE_EXCEPTION 0 \<and> (d = 0 \<or> D sdiv d < - (2 ^ 31) \<or> 2 ^ 31 \<le> D sdiv d)
    | Inr cpu' \<Rightarrow> d \<noteq> 0 \<and> sint (EAX cpu') * d + sint (EDX cpu') = D \<and> \<bar>sint (EDX cpu')\<bar> < \<bar>d\<bar> \<and>
        (sint (EDX cpu') = 0 \<or> sgn (sint (EDX cpu')) = sgn D) \<and>
        cpu' = set_EDX (EDX cpu') (set_EAX (EAX cpu') cpu))"
proof -
  have m: "D \<noteq> 0x8000 \<Longrightarrow> sint D \<noteq> - (2 ^ (LENGTH(16) - 1))"
     "E \<noteq> 0x80000000 \<Longrightarrow> sint E \<noteq> - (2 ^ (LENGTH(32) - 1))"
     "F \<noteq> 0x8000000000000000 \<Longrightarrow> sint F \<noteq> - (2 ^ (LENGTH(64) - 1))"
    for D :: Bit16u and E :: Bit32u and F :: Bit64u
    by (auto simp: signed_word_eqI)
  show ?thesis
    unfolding idiv_handlers Let_def dividend_parts [symmetric]
  proof (intro conjI, goal_cases)
    case 1
    show ?case using signed_division [OF _ _ m(1), of "src8 i cpu" "AX cpu"] min_quotient [of "src8 i cpu"]
      by (cases "src8 i cpu = 0") auto
  next
    case 2
    show ?case
      using signed_division [OF _ _ m(2), of "src16 i cpu" "dividend16 cpu"] min_quotient [of "src16 i cpu"]
      by (cases "src16 i cpu = 0") auto
  next
    case 3
    show ?case
      using signed_division [OF _ _ m(3), of "src32 i cpu" "dividend32 cpu"] min_quotient [of "src32 i cpu"]
      by (cases "src32 i cpu = 0") auto
  qed
qed

end
