(* ===== verification/Bcd.thy ===== *)
theory Bcd
  imports Mult
begin

text \<open>
  The decimal-adjust instructions of cpu/bcd.cc: AAA, AAS, AAM, AAD, DAA and DAS. The
  theorems show what the adjustments are for: after the binary ADD, SUB, ADC or SBB of two
  packed decimal bytes, DAA and DAS leave the decimal sum or difference with the decimal
  carry in CF; AAM and AAD convert between a byte and two unpacked digits.
\<close>

definition AAA :: "bxInstruction \<Rightarrow> bx_cpu \<Rightarrow> bx_cpu" where
  "AAA i cpu =
    (let (cpu, tmpAF, tmpCF) =
       (if 9 < AL cpu AND 0x0f \<or> get_AF (oszapc cpu) \<noteq> 0
        then (set_AX (AX cpu + 0x106) cpu, 1, 1) else (cpu, 0, 0));
         cpu = set_AL (AL cpu AND 0x0f) cpu;
         cpu = upd_flags (SET_FLAGS_OSZAPC_LOGIC_8 (ucast (AL cpu))) cpu;
         cpu = upd_flags (set_CF tmpCF) cpu;
         cpu = upd_flags (set_AF tmpAF) cpu
     in cpu)"

definition AAS :: "bxInstruction \<Rightarrow> bx_cpu \<Rightarrow> bx_cpu" where
  "AAS i cpu =
    (let (cpu, tmpAF, tmpCF) =
       (if 0x09 < AL cpu AND 0x0F \<or> get_AF (oszapc cpu) \<noteq> 0
        then (set_AX (AX cpu - 0x106) cpu, 1, 1) else (cpu, 0, 0));
         cpu = set_AL (AL cpu AND 0x0f) cpu;
         cpu = upd_flags (SET_FLAGS_OSZAPC_LOGIC_8 (ucast (AL cpu))) cpu;
         cpu = upd_flags (set_CF tmpCF) cpu;
         cpu = upd_flags (set_AF tmpAF) cpu
     in cpu)"

definition AAM :: "bxInstruction \<Rightarrow> bx_cpu \<Rightarrow> cpu_result" where
  "AAM i cpu =
    (let imm8 = i_Ib i
     in if imm8 = 0 then Inl (BX_DE_EXCEPTION 0)
        else (let al = AL cpu;
                  cpu = set_AH (al div imm8) cpu;
                  cpu = set_AL (al mod imm8) cpu;
                  cpu = upd_flags (SET_FLAGS_OSZAPC_LOGIC_8 (ucast (AL cpu))) cpu
              in Inr cpu))"

definition AAD :: "bxInstruction \<Rightarrow> bx_cpu \<Rightarrow> bx_cpu" where
  "AAD i cpu =
    (let tmp = ucast (AH cpu) :: Bit16u;
         tmp = tmp * ucast (i_Ib i);
         tmp = tmp + ucast (AL cpu);
         cpu = set_AX (tmp AND 0xff) cpu;
         cpu = upd_flags (SET_FLAGS_OSZAPC_LOGIC_8 (ucast (AL cpu))) cpu
     in cpu)"

definition DAA :: "bxInstruction \<Rightarrow> bx_cpu \<Rightarrow> bx_cpu" where
  "DAA i cpu =
    (let tmpAL = AL cpu;
         (cpu, tmpAF, tmpCF) =
           (if 0x09 < tmpAL AND 0x0F \<or> get_AF (oszapc cpu) \<noteq> 0
            then (let tmpCF = of_bool (0xF9 < AL cpu \<or> get_CF (oszapc cpu) \<noteq> 0)
                  in (set_AL (AL cpu + 0x06) cpu, 1, tmpCF))
            else (cpu, 0, 0));
         (cpu, tmpCF) =
           (if 0x99 < tmpAL \<or> get_CF (oszapc cpu) \<noteq> 0
            then (set_AL (AL cpu + 0x60) cpu, 1) else (cpu, tmpCF));
         cpu = upd_flags (SET_FLAGS_OSZAPC_LOGIC_8 (ucast (AL cpu))) cpu;
         cpu = upd_flags (set_CF tmpCF) cpu;
         cpu = upd_flags (set_AF tmpAF) cpu
     in cpu)"

definition DAS :: "bxInstruction \<Rightarrow> bx_cpu \<Rightarrow> bx_cpu" where
  "DAS i cpu =
    (let tmpAL = AL cpu;
         (cpu, tmpAF, tmpCF) =
           (if 0x09 < tmpAL AND 0x0F \<or> get_AF (oszapc cpu) \<noteq> 0
            then (let tmpCF = of_bool (AL cpu < 0x06 \<or> get_CF (oszapc cpu) \<noteq> 0)
                  in (set_AL (AL cpu - 0x06) cpu, 1, tmpCF))
            else (cpu, 0, 0));
         (cpu, tmpCF) =
           (if 0x99 < tmpAL \<or> get_CF (oszapc cpu) \<noteq> 0
            then (set_AL (AL cpu - 0x60) cpu, 1) else (cpu, tmpCF));
         cpu = upd_flags (SET_FLAGS_OSZAPC_LOGIC_8 (ucast (AL cpu))) cpu;
         cpu = upd_flags (set_CF tmpCF) cpu;
         cpu = upd_flags (set_AF tmpAF) cpu
     in cpu)"

section \<open>The adjustments on numbers\<close>

text \<open>The accumulator and carry DAA and DAS compute, on integers; and packed decimal bytes.\<close>

definition daa_value :: "int \<Rightarrow> bool \<Rightarrow> bool \<Rightarrow> int \<times> bool" where
  "daa_value al af cf =
    (let low = 9 < al mod 16 \<or> af; high = 0x99 < al \<or> cf
     in ((al + (if low then 6 else 0) + (if high then 0x60 else 0)) mod 256,
         high \<or> low \<and> (0xF9 < al \<or> cf)))"

definition das_value :: "int \<Rightarrow> bool \<Rightarrow> bool \<Rightarrow> int \<times> bool" where
  "das_value al af cf =
    (let low = 9 < al mod 16 \<or> af; high = 0x99 < al \<or> cf
     in ((al - (if low then 6 else 0) - (if high then 0x60 else 0)) mod 256,
         high \<or> low \<and> (al < 6 \<or> cf)))"

definition packed_bcd :: "int \<Rightarrow> bool" where
  "packed_bcd v \<longleftrightarrow> 0 \<le> v \<and> v div 16 < 10 \<and> v mod 16 < 10"

definition bcd_value :: "int \<Rightarrow> int" where
  "bcd_value v = 10 * (v div 16) + v mod 16"

lemma daa_table:
  "list_all (\<lambda>s1. list_all (\<lambda>s0.
     case daa_value ((16 * s1 + s0) mod 256) (16 \<le> s0) (256 \<le> 16 * s1 + s0) of (r, c) \<Rightarrow>
       packed_bcd r \<and> bcd_value r + 100 * of_bool c = 10 * s1 + s0) [0..19]) [0..18]"
  by code_simp

lemma das_table:
  "list_all (\<lambda>d1. list_all (\<lambda>d0.
     case das_value ((16 * d1 + d0) mod 256) (d0 < 0) (16 * d1 + d0 < 0) of (r, c) \<Rightarrow>
       packed_bcd r \<and> bcd_value r - 100 * of_bool c = 10 * d1 + d0) [-10..9]) [-9..9]"
  by code_simp

lemma get_flag_iff:
  "(get_CF e \<noteq> 0) = lf_get Carry e" "(get_AF e \<noteq> 0) = lf_get Adjust e"
  using and_exp_eq_0_iff_not_bit [of "lf_auxbits e" 31] and_exp_eq_0_iff_not_bit [of "lf_auxbits e" 3]
  by (simp_all add: get_CF_def get_AF_def lf_masks lf_bits lf_get.simps lf_getters)

abbreviation AF :: "bx_cpu \<Rightarrow> bool" where "AF cpu \<equiv> lf_get Adjust (oszapc cpu)"

lemma low_digit_uint: "uint (x AND 0xF) = uint x mod 16" for x :: Bit8u
  by (simp add: uint_and_15 take_bit_eq_mod)

lemma put_flags:
  "lf_get f (set_CF (of_bool c) e) = (if f = Carry then c else lf_get f e)"
  "lf_get f (set_AF (of_bool c) e) = (if f = Adjust then c else lf_get f e)"
  using lf_get_put [of f Carry c e] lf_get_put [of f Adjust c e] by (simp_all add: lf_put.simps)

lemma put_flags_0_1:
  "lf_get f (set_CF 1 e) = (f = Carry \<or> lf_get f e)" "lf_get f (set_CF 0 e) = (f \<noteq> Carry \<and> lf_get f e)"
  "lf_get f (set_AF 1 e) = (f = Adjust \<or> lf_get f e)" "lf_get f (set_AF 0 e) = (f \<noteq> Adjust \<and> lf_get f e)"
  using put_flags [of f True e] put_flags [of f False e] by auto

lemma daa_handler:
  "uint (AL (DAA i cpu)) = fst (daa_value (uint (AL cpu)) (AF cpu) (CF cpu))"
  "CF (DAA i cpu) = snd (daa_value (uint (AL cpu)) (AF cpu) (CF cpu))"
  "AF (DAA i cpu) = (9 < uint (AL cpu) mod 16 \<or> AF cpu)"
  by (auto simp: DAA_def Let_def daa_value_def get_flag_iff put_flags put_flags_0_1
     uint_word_arith_bintrs take_bit_eq_mod mod_simps word_less_def LOGIC_8_ref low_digit_uint)

lemma das_handler:
  "uint (AL (DAS i cpu)) = fst (das_value (uint (AL cpu)) (AF cpu) (CF cpu))"
  "CF (DAS i cpu) = snd (das_value (uint (AL cpu)) (AF cpu) (CF cpu))"
  "AF (DAS i cpu) = (9 < uint (AL cpu) mod 16 \<or> AF cpu)"
  by (auto simp: DAS_def Let_def das_value_def get_flag_iff put_flags put_flags_0_1
     uint_word_arith_bintrs take_bit_eq_mod mod_simps word_less_def LOGIC_8_ref low_digit_uint)

lemma digits:
  fixes a b c :: int
  shows "a + b + c = 16 * (a div 16 + b div 16) + (a mod 16 + b mod 16 + c)"
    and "a - b - c = 16 * (a div 16 - b div 16) + (a mod 16 - b mod 16 - c)"
proof -
  have p: "a = 16 * p + q \<Longrightarrow> b = 16 * r + t \<Longrightarrow> a + b + c = 16 * (p + r) + (q + t + c)"
    "a = 16 * p + q \<Longrightarrow> b = 16 * r + t \<Longrightarrow> a - b - c = 16 * (p - r) + (q - t - c)" for p q r t
    by simp_all
  show "a + b + c = 16 * (a div 16 + b div 16) + (a mod 16 + b mod 16 + c)"
    "a - b - c = 16 * (a div 16 - b div 16) + (a mod 16 - b mod 16 - c)"
    by (rule p; rule mult_div_mod_eq [symmetric])+
qed

lemma packed_range:
  assumes "packed_bcd v"
  shows "0 \<le> v div 16" "v div 16 \<le> 9" "0 \<le> v mod 16" "v mod 16 \<le> 9"
  using assms by (auto simp: packed_bcd_def pos_imp_zdiv_nonneg_iff)

lemma daa_sum:
  assumes "packed_bcd a" "packed_bcd b"
  shows "case daa_value ((a + b + of_bool c) mod 256) (16 \<le> a mod 16 + b mod 16 + of_bool c)
      (256 \<le> a + b + of_bool c) of (r, k) \<Rightarrow>
    packed_bcd r \<and> bcd_value r + 100 * of_bool k = bcd_value a + bcd_value b + of_bool c"
proof -
  let ?s1 = "a div 16 + b div 16" and ?s0 = "a mod 16 + b mod 16 + of_bool c"
  have e: "a + b + of_bool c = 16 * ?s1 + ?s0"
    by (rule digits(1))
  have v: "bcd_value a + bcd_value b + of_bool c = 10 * ?s1 + ?s0" by (simp add: bcd_value_def)
  have m: "?s1 \<in> set [0..18]" "?s0 \<in> set [0..19]"
    unfolding set_upto atLeastAtMost_iff
    using packed_range [OF assms(1)] packed_range [OF assms(2)] of_bool_int_range [of c] by linarith+
  show ?thesis
    unfolding e v using daa_table [unfolded list_all_iff, rule_format, OF m] .
qed

lemma das_difference:
  assumes "packed_bcd a" "packed_bcd b"
  shows "case das_value ((a - b - of_bool c) mod 256) (a mod 16 < b mod 16 + of_bool c)
      (a < b + of_bool c) of (r, k) \<Rightarrow>
    packed_bcd r \<and> bcd_value r - 100 * of_bool k = bcd_value a - bcd_value b - of_bool c"
proof -
  let ?d1 = "a div 16 - b div 16" and ?d0 = "a mod 16 - b mod 16 - of_bool c"
  have e: "a - b - of_bool c = 16 * ?d1 + ?d0"
    by (rule digits(2))
  have c: "(a < b + of_bool c) = (16 * ?d1 + ?d0 < 0)" "(a mod 16 < b mod 16 + of_bool c) = (?d0 < 0)"
    using e by linarith+
  have v: "bcd_value a - bcd_value b - of_bool c = 10 * ?d1 + ?d0" by (simp add: bcd_value_def)
  have m: "?d1 \<in> set [-9..9]" "?d0 \<in> set [-10..9]"
    unfolding set_upto atLeastAtMost_iff
    using packed_range [OF assms(1)] packed_range [OF assms(2)] of_bool_int_range [of c] by linarith+
  show ?thesis
    unfolding e v c using das_table [unfolded list_all_iff, rule_format, OF m] .
qed

lemma uint_sums:
  "uint (x + y) = (uint x + uint y) mod 256" "uint (x - y) = (uint x - uint y) mod 256"
  "uint (x + y + of_bool c) = (uint x + uint y + of_bool c) mod 256"
  "uint (x - y - of_bool c) = (uint x - uint y - of_bool c) mod 256" for x y :: Bit8u
  by (cases c; simp add: uint_word_arith_bintrs take_bit_eq_mod mod_simps)+

lemma set_al: "AL (set_AL v cpu) = v"
  by simp

lemma accumulator_after_add:
  assumes "i_dst i = 0"
  shows "uint (AL (ADC_GbEbR i cpu)) = (uint (AL cpu) + uint (src8 i cpu) + of_bool (CF cpu)) mod 256"
    "uint (AL (ADD_GbEbR i cpu)) = (uint (AL cpu) + uint (src8 i cpu)) mod 256"
    "CF (ADC_GbEbR i cpu) = (256 \<le> uint (AL cpu) + uint (src8 i cpu) + of_bool (CF cpu))"
    "CF (ADD_GbEbR i cpu) = (256 \<le> uint (AL cpu) + uint (src8 i cpu))"
    "AF (ADC_GbEbR i cpu) = (16 \<le> uint (AL cpu) mod 16 + uint (src8 i cpu) mod 16 + of_bool (CF cpu))"
    "AF (ADD_GbEbR i cpu) = (16 \<le> uint (AL cpu) mod 16 + uint (src8 i cpu) mod 16)"
proof -
  have a: "dst8 i cpu = AL cpu" "BX_WRITE_8BIT_REG (i_dst i) v c = set_AL v c" for v c
    using assms by (simp_all add: BX_READ_8BIT_REG_def BX_WRITE_8BIT_REG_def)
  note h = arith8_handlers [of i cpu, THEN alu_stepD(1), unfolded a]
    arith8_handlers [of i cpu, THEN alu_stepD(3), unfolded a]
  show "uint (AL (ADC_GbEbR i cpu)) = (uint (AL cpu) + uint (src8 i cpu) + of_bool (CF cpu)) mod 256"
    "uint (AL (ADD_GbEbR i cpu)) = (uint (AL cpu) + uint (src8 i cpu)) mod 256"
    by (simp only: h(2) set_al uint_sums(3), simp only: h(1) set_al uint_sums(1))
  show "CF (ADC_GbEbR i cpu) = (256 \<le> uint (AL cpu) + uint (src8 i cpu) + of_bool (CF cpu))"
    "CF (ADD_GbEbR i cpu) = (256 \<le> uint (AL cpu) + uint (src8 i cpu))"
    "AF (ADC_GbEbR i cpu) = (16 \<le> uint (AL cpu) mod 16 + uint (src8 i cpu) mod 16 + of_bool (CF cpu))"
    "AF (ADD_GbEbR i cpu) = (16 \<le> uint (AL cpu) mod 16 + uint (src8 i cpu) mod 16)"
    by (simp_all add: h low_digit_uint)
qed

lemma accumulator_after_sub:
  assumes "i_dst i = 0"
  shows "uint (AL (SBB_GbEbR i cpu)) = (uint (AL cpu) - uint (src8 i cpu) - of_bool (CF cpu)) mod 256"
    "uint (AL (SUB_GbEbR i cpu)) = (uint (AL cpu) - uint (src8 i cpu)) mod 256"
    "CF (SBB_GbEbR i cpu) = (uint (AL cpu) < uint (src8 i cpu) + of_bool (CF cpu))"
    "CF (SUB_GbEbR i cpu) = (uint (AL cpu) < uint (src8 i cpu))"
    "AF (SBB_GbEbR i cpu) = (uint (AL cpu) mod 16 < uint (src8 i cpu) mod 16 + of_bool (CF cpu))"
    "AF (SUB_GbEbR i cpu) = (uint (AL cpu) mod 16 < uint (src8 i cpu) mod 16)"
proof -
  have a: "dst8 i cpu = AL cpu" "BX_WRITE_8BIT_REG (i_dst i) v c = set_AL v c" for v c
    using assms by (simp_all add: BX_READ_8BIT_REG_def BX_WRITE_8BIT_REG_def)
  note h = arith8_handlers [of i cpu, THEN alu_stepD(1), unfolded a]
    arith8_handlers [of i cpu, THEN alu_stepD(3), unfolded a]
  show "uint (AL (SBB_GbEbR i cpu)) = (uint (AL cpu) - uint (src8 i cpu) - of_bool (CF cpu)) mod 256"
    "uint (AL (SUB_GbEbR i cpu)) = (uint (AL cpu) - uint (src8 i cpu)) mod 256"
    by (simp only: h(4) set_al uint_sums(4), simp only: h(3) set_al uint_sums(2))
  show "CF (SBB_GbEbR i cpu) = (uint (AL cpu) < uint (src8 i cpu) + of_bool (CF cpu))"
    "CF (SUB_GbEbR i cpu) = (uint (AL cpu) < uint (src8 i cpu))"
    "AF (SBB_GbEbR i cpu) = (uint (AL cpu) mod 16 < uint (src8 i cpu) mod 16 + of_bool (CF cpu))"
    "AF (SUB_GbEbR i cpu) = (uint (AL cpu) mod 16 < uint (src8 i cpu) mod 16)"
    by (simp_all add: h low_digit_uint)
qed

text \<open>
  C40. DAA turns binary addition of packed decimal bytes into decimal addition: after ADD or
  ADC of two packed decimal bytes into AL, DAA leaves a packed decimal byte in AL, and AL's
  decimal value with 100 for CF is the decimal sum of the operands and the incoming carry.
\<close>

theorem daa_after_add:
  assumes "i_dst i = 0" "packed_bcd (uint (AL cpu))" "packed_bcd (uint (src8 i cpu))"
  shows "(let cpu' = DAA j (ADC_GbEbR i cpu) in packed_bcd (uint (AL cpu')) \<and>
      bcd_value (uint (AL cpu')) + 100 * of_bool (CF cpu') =
        bcd_value (uint (AL cpu)) + bcd_value (uint (src8 i cpu)) + of_bool (CF cpu)) \<and>
    (let cpu' = DAA j (ADD_GbEbR i cpu) in packed_bcd (uint (AL cpu')) \<and>
      bcd_value (uint (AL cpu')) + 100 * of_bool (CF cpu') =
        bcd_value (uint (AL cpu)) + bcd_value (uint (src8 i cpu)))"
  using daa_sum [OF assms(2,3), of "CF cpu"] daa_sum [OF assms(2,3), of False]
  by (simp add: Let_def daa_handler split_def accumulator_after_add [OF assms(1)])

text \<open>
  DAS turns binary subtraction of packed decimal bytes into decimal subtraction: after
  SUB or SBB of packed decimal bytes in AL, DAS leaves a packed decimal byte, and AL's
  decimal value less 100 for CF is the decimal difference.
\<close>

theorem das_after_sub:
  assumes "i_dst i = 0" "packed_bcd (uint (AL cpu))" "packed_bcd (uint (src8 i cpu))"
  shows "(let cpu' = DAS j (SBB_GbEbR i cpu) in packed_bcd (uint (AL cpu')) \<and>
      bcd_value (uint (AL cpu')) - 100 * of_bool (CF cpu') =
        bcd_value (uint (AL cpu)) - bcd_value (uint (src8 i cpu)) - of_bool (CF cpu)) \<and>
    (let cpu' = DAS j (SUB_GbEbR i cpu) in packed_bcd (uint (AL cpu')) \<and>
      bcd_value (uint (AL cpu')) - 100 * of_bool (CF cpu') =
        bcd_value (uint (AL cpu)) - bcd_value (uint (src8 i cpu)))"
  using das_difference [OF assms(2,3), of "CF cpu"] das_difference [OF assms(2,3), of False]
  by (simp add: Let_def das_handler split_def accumulator_after_sub [OF assms(1)])

lemma sample_operands:
  "src8 (sample_instr 0 3) (set_AL v sample_cpu) = 7" "i_dst (sample_instr d s) = d"
  by (simp_all add: sample_instr_def sample_cpu_def BX_READ_8BIT_REG_def byte_rl_def)

theorem daa_after_add_witness:
  "let cpu' = DAA (sample_instr 0 0) (ADD_GbEbR (sample_instr 0 3) (set_AL 0x58 sample_cpu)) in
    bcd_value (uint (AL cpu')) + 100 * of_bool (CF cpu') = 65"
  using daa_after_add [of "sample_instr 0 3" "set_AL 0x58 sample_cpu" "sample_instr 0 0"]
  by (simp add: sample_operands packed_bcd_def Let_def) (simp add: bcd_value_def)

theorem das_after_sub_witness:
  "let cpu' = DAS (sample_instr 0 0) (SUB_GbEbR (sample_instr 0 3) (set_AL 0x52 sample_cpu)) in
    bcd_value (uint (AL cpu')) - 100 * of_bool (CF cpu') = 45"
  using das_after_sub [of "sample_instr 0 3" "set_AL 0x52 sample_cpu" "sample_instr 0 0"]
  by (simp add: sample_operands packed_bcd_def Let_def) (simp add: bcd_value_def)

lemma byte_views_rx: "byte_rl (put_rx v w) = ucast v" "byte_rh (put_rx v w) = ucast (shr v 8)"
  by (rule bit_word_eqI; simp add: byte_rl_def byte_rh_def bit_ucast_iff bit_drop_bit_eq bit_put_rx)+

lemma ax_bytes: "uint (AX cpu) = uint (AH cpu) * 256 + uint (AL cpu)"
proof -
  have "ucast (AX cpu) = AL cpu" "ucast (shr (AX cpu) 8) = AH cpu"
    by (rule bit_word_eqI; simp add: word_rx_def byte_rl_def byte_rh_def bit_ucast_iff bit_drop_bit_eq)+
  then show ?thesis
    using halves(1) [where 'n = 8, of "AX cpu"] by simp
qed

lemma bytes_unique:
  fixes h h' l l' :: int
  assumes "h' * 256 + l' = (h * 256 + l) mod 65536"
    "0 \<le> h'" "h' < 256" "0 \<le> l'" "l' < 256" "0 \<le> l" "l < 256"
  shows "l' = l" and "h' = h mod 256"
proof -
  define q where "q = (h * 256 + l) div 65536"
  define t where "t = h' - (h - 256 * q)"
  have e: "(h * 256 + l) mod 65536 = h * 256 + l - 65536 * q"
    using minus_mult_div_eq_mod [of "h * 256 + l" 65536] by (simp only: q_def)
  have t: "256 * t = l - l'"
    using assms(1) unfolding e t_def by (simp add: algebra_simps)
  then have "256 * t < 256 * 1" "256 * (- 1) < 256 * t" using assms by linarith+
  then have "t = 0" by simp
  with t show "l' = l" by simp
  have "h = h' + 256 * q" using \<open>t = 0\<close> by (simp add: t_def)
  then show "h' = h mod 256" using assms(2,3) by simp
qed

lemma word_bytes:
  "uint (ucast (shr X 8) :: Bit8u) * 256 + uint (ucast X :: Bit8u) = uint X" for X :: Bit16u
  using halves(1) [where 'n = 8, of X] by simp

lemma ax_adjust:
  fixes k :: int and X :: Bit16u
  assumes "0 \<le> uint (AL cpu) + k" "uint (AL cpu) + k < 256"
    and X: "uint X = (uint (AX cpu) + (m * 256 + k)) mod 65536"
  shows "uint (ucast X :: Bit8u) = uint (AL cpu) + k"
    and "uint (ucast (shr X 8) :: Bit8u) = (uint (AH cpu) + m) mod 256"
proof -
  have "uint (ucast (shr X 8) :: Bit8u) * 256 + uint (ucast X :: Bit8u) =
      ((uint (AH cpu) + m) * 256 + (uint (AL cpu) + k)) mod 65536"
    unfolding word_bytes X ax_bytes by (simp add: algebra_simps)
  note u = bytes_unique [OF this _ uint_lt2p [where 'a = 8, simplified] _ uint_lt2p [where 'a = 8, simplified] assms(1,2)]
  show "uint (ucast X :: Bit8u) = uint (AL cpu) + k"
    "uint (ucast (shr X 8) :: Bit8u) = (uint (AH cpu) + m) mod 256"
    by (rule u; simp)+
qed

lemma byte_mod: "uint x mod 256 = uint x" for x :: Bit8u
  using uint_lt2p [of x] by (simp add: mod_pos_pos_trivial)

lemma ax_words:
  "uint (AX cpu + 0x106) = (uint (AX cpu) + (1 * 256 + 6)) mod 65536"
  "uint (AX cpu - 0x106) = (uint (AX cpu) + ((-1) * 256 + (-6))) mod 65536"
  by (simp_all add: uint_word_arith_bintrs take_bit_eq_mod)

text \<open>AAA and AAS on the two bytes, when the low byte does not carry into the high one.\<close>

lemma aaa_handler:
  assumes "uint (AL cpu) < 250"
  shows "uint (AL (AAA i cpu)) = (uint (AL cpu) + (if 9 < uint (AL cpu) mod 16 \<or> AF cpu then 6 else 0)) mod 16"
  "uint (AH (AAA i cpu)) = (uint (AH cpu) + of_bool (9 < uint (AL cpu) mod 16 \<or> AF cpu)) mod 256"
  "CF (AAA i cpu) = (9 < uint (AL cpu) mod 16 \<or> AF cpu)"
  using ax_adjust [OF _ _ ax_words(1)] assms byte_mod [of "AH cpu"]
  by (auto simp: AAA_def Let_def get_flag_iff put_flags_0_1 byte_views_rx word_less_def low_digit_uint)

lemma aas_handler:
  assumes "6 \<le> uint (AL cpu) \<or> \<not> (9 < uint (AL cpu) mod 16 \<or> AF cpu)"
  shows "uint (AL (AAS i cpu)) = (uint (AL cpu) - (if 9 < uint (AL cpu) mod 16 \<or> AF cpu then 6 else 0)) mod 16"
  "uint (AH (AAS i cpu)) = (uint (AH cpu) - of_bool (9 < uint (AL cpu) mod 16 \<or> AF cpu)) mod 256"
  "CF (AAS i cpu) = (9 < uint (AL cpu) mod 16 \<or> AF cpu)"
  using ax_adjust [OF _ _ ax_words(2)] assms uint_lt2p [of "AL cpu"] byte_mod [of "AH cpu"]
  by (auto simp: AAS_def Let_def get_flag_iff put_flags_0_1 byte_views_rx word_less_def low_digit_uint)

lemma aaa_digits:
  fixes a b :: int
  assumes "0 \<le> a" "a < 10" "0 \<le> b" "b < 10"
  defines "s \<equiv> (a + b) mod 256"
  defines "k \<equiv> 9 < s mod 16 \<or> 16 \<le> a mod 16 + b mod 16"
  shows "(s + (if k then 6 else 0)) mod 16 + 10 * of_bool k = a + b"
    and "(s + (if k then 6 else 0)) mod 16 < 10"
proof -
  have m: "s = a + b" "a mod 16 = a" "b mod 16 = b" using assms by simp_all
  consider "a + b < 10" | "10 \<le> a + b" "a + b < 16" | "16 \<le> a + b" by linarith
  then have "k = (10 \<le> a + b) \<and> (a + b + (if 10 \<le> a + b then 6 else 0)) mod 16 = a + b - 10 * of_bool (10 \<le> a + b)"
    using assms(1-4) by cases (auto simp: k_def m mod_once)
  then show "(s + (if k then 6 else 0)) mod 16 + 10 * of_bool k = a + b"
    "(s + (if k then 6 else 0)) mod 16 < 10" using assms(1-4) by (auto simp: m)
qed

lemma aas_digits:
  fixes a b :: int
  assumes "0 \<le> a" "a < 10" "0 \<le> b" "b < 10"
  defines "s \<equiv> (a - b) mod 256"
  defines "k \<equiv> 9 < s mod 16 \<or> a mod 16 < b mod 16"
  shows "6 \<le> s \<or> \<not> k"
    and "(s - (if k then 6 else 0)) mod 16 - 10 * of_bool k = a - b"
    and "(s - (if k then 6 else 0)) mod 16 < 10"
proof -
  have m: "a mod 16 = a" "b mod 16 = b" using assms by simp_all
  have "k = (a < b) \<and> (s - (if a < b then 6 else 0)) mod 16 = a - b + 10 * of_bool (a < b) \<and>
    (a < b \<longrightarrow> 6 \<le> s)"
  proof (cases "a < b")
    case True
    then have s: "s = a - b + 256" using assms(1-4) by (simp add: s_def mod_once)
    have "(250 + (a - b)) mod 16 = (a - b + 10 + 15 * 16) mod 16" by (simp add: algebra_simps)
    also have "\<dots> = a - b + 10" using True assms(1-4) by (simp only: mod_mult_self1) simp
    finally show ?thesis using True assms(1-4) by (simp add: k_def m s)
  next
    case False
    then have "s = a - b" using assms(1-4) by (simp add: s_def)
    then show ?thesis using False assms(1-4) by (simp add: k_def m)
  qed
  then show "6 \<le> s \<or> \<not> k" "(s - (if k then 6 else 0)) mod 16 - 10 * of_bool k = a - b"
    "(s - (if k then 6 else 0)) mod 16 < 10" using assms(1-4) by auto
qed

text \<open>
  AAA and AAS do unpacked decimal arithmetic: after ADD (SUB) of two decimal digits into
  AL, AAA (AAS) leaves in AL the digit of the decimal sum (difference), sets CF to the
  decimal carry (borrow) and adds it to (subtracts it from) AH.
\<close>

theorem aaa_aas_digits:
  assumes "i_dst i = 0" "uint (AL cpu) < 10" "uint (src8 i cpu) < 10"
  shows "(let cpu' = AAA j (ADD_GbEbR i cpu) in
      uint (AL cpu') + 10 * of_bool (CF cpu') = uint (AL cpu) + uint (src8 i cpu) \<and> uint (AL cpu') < 10 \<and>
      uint (AH cpu') = (uint (AH cpu) + of_bool (CF cpu')) mod 256) \<and>
    (let cpu' = AAS j (SUB_GbEbR i cpu) in
      uint (AL cpu') - 10 * of_bool (CF cpu') = uint (AL cpu) - uint (src8 i cpu) \<and> uint (AL cpu') < 10 \<and>
      uint (AH cpu') = (uint (AH cpu) - of_bool (CF cpu')) mod 256)"
proof -
  have h: "AH (ADD_GbEbR i cpu) = AH cpu" "AH (SUB_GbEbR i cpu) = AH cpu"
    using arith8_handlers(1,3) [of i cpu, THEN alu_stepD(1)] assms(1)
    by (simp_all add: BX_WRITE_8BIT_REG_def)
  note a = aaa_digits [OF uint_ge_0 assms(2) uint_ge_0 assms(3)]
  note b = aas_digits [OF uint_ge_0 assms(2) uint_ge_0 assms(3)]
  have "uint (AL (ADD_GbEbR i cpu)) < 250"
    using assms(2,3) by (simp add: accumulator_after_add [OF assms(1)])
  note x = aaa_handler [OF this, of j]
  have "6 \<le> uint (AL (SUB_GbEbR i cpu)) \<or>
      \<not> (9 < uint (AL (SUB_GbEbR i cpu)) mod 16 \<or> AF (SUB_GbEbR i cpu))"
    unfolding accumulator_after_sub [OF assms(1)] by (rule b(1))
  note y = aas_handler [OF this, of j]
  show ?thesis
    unfolding Let_def x y h
    unfolding accumulator_after_add [OF assms(1)] accumulator_after_sub [OF assms(1)]
    by (intro conjI; rule a b refl)
qed

theorem aaa_aas_digits_witness:
  "let cpu' = AAA (sample_instr 0 0) (ADD_GbEbR (sample_instr 0 3) (set_AL 5 sample_cpu)) in
    uint (AL cpu') + 10 * of_bool (CF cpu') = 12"
  using aaa_aas_digits [of "sample_instr 0 3" "set_AL 5 sample_cpu" "sample_instr 0 0"]
  by (simp add: sample_operands Let_def)

text \<open>
  AAM divides AL into two digits of the given base, raising the divide error exactly
  for base 0, and AAD with the same base is its inverse.
\<close>

theorem aam_aad_roundtrip:
  "case AAM i cpu of
     Inl e \<Rightarrow> e = BX_DE_EXCEPTION 0 \<and> i_Ib i = 0
   | Inr cpu' \<Rightarrow> i_Ib i \<noteq> 0 \<and> uint (AH cpu') * uint (i_Ib i) + uint (AL cpu') = uint (AL cpu) \<and>
       uint (AL cpu') < uint (i_Ib i) \<and> AX (AAD i cpu') = ucast (AL cpu)"
proof (cases "i_Ib i = 0")
  case False
  let ?n = "i_Ib i" and ?al = "AL cpu"
  have p: "0 < uint ?n" using False uint_ge_0 [of ?n] by (metis order_le_less uint_0_iff)
  have e: "uint (?al div ?n) * uint ?n + uint (?al mod ?n) = uint ?al"
    by (simp add: uint_div uint_mod)
  have "ucast (?al div ?n) * ucast ?n + ucast (?al mod ?n) = (ucast ?al :: Bit16u)"
  proof (rule word_uint_eqI)
    have "uint ?al < 256" by (rule uint_lt2p [of ?al, simplified])
    then have "uint ?al mod 65536 = uint ?al" by simp
    then show "uint (ucast (?al div ?n) * ucast ?n + ucast (?al mod ?n) :: Bit16u) = uint (ucast ?al :: Bit16u)"
      using e by (simp add: uint_word_arith_bintrs take_bit_eq_mod mod_simps uint_ucast_up)
  qed
  moreover have "(ucast ?al :: Bit16u) AND 0xff = ucast ?al"
  proof -
    have "(ucast ?al :: Bit16u) AND mask 8 = ucast ?al"
      by (rule bit_word_eqI) (auto simp: bit_and_iff bit_mask_iff bit_ucast_iff
          simp del: mask_numeral dest: bit_imp_le_length)
    then show ?thesis by (simp add: mask_eq_exp_minus_1)
  qed
  ultimately show ?thesis
    using False e p by (simp add: AAM_def AAD_def Let_def uint_mod)
qed (simp add: AAM_def Let_def)

end
