(* ===== verification/Shift.thy ===== *)
theory Shift
  imports Arith
begin

text \<open>
  The register forms of the shift and rotate handlers of cpu/shift8.cc, cpu/shift16.cc and
  cpu/shift32.cc. C promotes the 8- and 16-bit operands to 32 bits before shifting and
  truncates when the result is stored; the model writes the promotion (\<open>ucast\<close>, \<open>scast\<close>)
  and the truncation out. Counts are the value of CL or of the immediate byte. The
  theorems identify the rotates with the word rotations of the library, the rotates through
  carry with rotations of a word one bit longer, the double shifts with shifts of a
  concatenation, and the shifts with multiplication and division by powers of two.
\<close>

section \<open>Handlers of cpu/shift8.cc, register forms\<close>

definition ROL_EbR :: "bxInstruction \<Rightarrow> bx_cpu \<Rightarrow> bx_cpu" where
  "ROL_EbR i cpu =
    (let count = (if i_op i = BX_IA_ROL_Eb then unat (CL cpu) else unat (i_Ib i));
         op1 = ucast (BX_READ_8BIT_REG (i_dst i) cpu) :: Bit32u
     in if count AND 0x07 = 0 then
          (if count AND 0x18 \<noteq> 0 then
             (let bit_lo = op1 AND 1; bit_hi = shr op1 7
              in upd_flags (set_flags_OxxxxC (bit_lo XOR bit_hi) bit_lo) cpu)
           else cpu)
        else
          (let count = count AND 0x07;
               res = ucast (shl op1 count OR shr op1 (8 - count)) :: Bit8u;
               cpu = BX_WRITE_8BIT_REG (i_dst i) res cpu;
               bit_lo = ucast res AND 1; bit_hi = shr (ucast res) 7
           in upd_flags (set_flags_OxxxxC (bit_lo XOR bit_hi) bit_lo) cpu))"

definition ROR_EbR :: "bxInstruction \<Rightarrow> bx_cpu \<Rightarrow> bx_cpu" where
  "ROR_EbR i cpu =
    (let count = (if i_op i = BX_IA_ROR_Eb then unat (CL cpu) else unat (i_Ib i));
         op1 = ucast (BX_READ_8BIT_REG (i_dst i) cpu) :: Bit32u
     in if count AND 0x07 = 0 then
          (if count AND 0x18 \<noteq> 0 then
             (let bit_lo = shr op1 6 AND 1; bit_hi = shr op1 7 AND 1
              in upd_flags (set_flags_OxxxxC (bit_lo XOR bit_hi) bit_hi) cpu)
           else cpu)
        else
          (let count = count AND 0x07;
               res = ucast (shr op1 count OR shl op1 (8 - count)) :: Bit8u;
               cpu = BX_WRITE_8BIT_REG (i_dst i) res cpu;
               bit_lo = shr (ucast res) 6 AND 1; bit_hi = shr (ucast res) 7 AND 1
           in upd_flags (set_flags_OxxxxC (bit_lo XOR bit_hi) bit_hi) cpu))"

definition RCL_EbR :: "bxInstruction \<Rightarrow> bx_cpu \<Rightarrow> bx_cpu" where
  "RCL_EbR i cpu =
    (let count = (if i_op i = BX_IA_RCL_Eb then unat (CL cpu) else unat (i_Ib i));
         count = (count AND 0x1f) mod 9
     in if count = 0 then cpu
        else
          (let op1 = ucast (BX_READ_8BIT_REG (i_dst i) cpu) :: Bit32u;
               temp_CF = getB_CF (oszapc cpu);
               res = (if count = 1 then ucast (shl op1 1 OR temp_CF)
                      else ucast (shl op1 count OR shl temp_CF (count - 1) OR shr op1 (9 - count))) :: Bit8u;
               cpu = BX_WRITE_8BIT_REG (i_dst i) res cpu;
               flag_cf = shr op1 (8 - count) AND 0x1;
               flag_of = flag_cf XOR shr (ucast res) 7
           in upd_flags (set_flags_OxxxxC flag_of flag_cf) cpu))"

definition RCR_EbR :: "bxInstruction \<Rightarrow> bx_cpu \<Rightarrow> bx_cpu" where
  "RCR_EbR i cpu =
    (let count = (if i_op i = BX_IA_RCR_Eb then unat (CL cpu) else unat (i_Ib i));
         count = (count AND 0x1f) mod 9
     in if count = 0 then cpu
        else
          (let op1 = ucast (BX_READ_8BIT_REG (i_dst i) cpu) :: Bit32u;
               temp_CF = getB_CF (oszapc cpu);
               res = ucast (shr op1 count OR shl temp_CF (8 - count) OR shl op1 (9 - count)) :: Bit8u;
               cpu = BX_WRITE_8BIT_REG (i_dst i) res cpu;
               flag_cf = shr op1 (count - 1) AND 0x1;
               flag_of = shr (shl (ucast res) 1 XOR ucast res) 7 AND 0x1
           in upd_flags (set_flags_OxxxxC flag_of flag_cf) cpu))"

definition SHL_EbR :: "bxInstruction \<Rightarrow> bx_cpu \<Rightarrow> bx_cpu" where
  "SHL_EbR i cpu =
    (let count = (if i_op i = BX_IA_SHL_Eb then unat (CL cpu) else unat (i_Ib i));
         count = count AND 0x1f
     in if count = 0 then cpu
        else
          (let op1 = ucast (BX_READ_8BIT_REG (i_dst i) cpu) :: Bit32u;
               (res, flag_of, flag_cf) =
                 (if count \<le> 8 then
                    (let res = ucast (shl op1 count) :: Bit8u;
                         flag_cf = shr op1 (8 - count) AND 0x1;
                         flag_of = flag_cf XOR shr (ucast res) 7
                     in (res, flag_of, flag_cf))
                  else (0, 0, 0));
               cpu = BX_WRITE_8BIT_REG (i_dst i) res cpu;
               cpu = upd_flags (SET_FLAGS_OSZAPC_LOGIC_8 (ucast res)) cpu
           in upd_flags (set_flags_OxxxxC flag_of flag_cf) cpu))"

definition SHR_EbR :: "bxInstruction \<Rightarrow> bx_cpu \<Rightarrow> bx_cpu" where
  "SHR_EbR i cpu =
    (let count = (if i_op i = BX_IA_SHR_Eb then unat (CL cpu) else unat (i_Ib i));
         count = count AND 0x1f
     in if count = 0 then cpu
        else
          (let op1 = ucast (BX_READ_8BIT_REG (i_dst i) cpu) :: Bit32u;
               res = ucast (shr op1 count) :: Bit8u;
               cpu = BX_WRITE_8BIT_REG (i_dst i) res cpu;
               flag_cf = shr op1 (count - 1) AND 0x1;
               flag_of = shr (shl (ucast res) 1 XOR ucast res) 7 AND 0x1;
               cpu = upd_flags (SET_FLAGS_OSZAPC_LOGIC_8 (ucast res)) cpu
           in upd_flags (set_flags_OxxxxC flag_of flag_cf) cpu))"

definition SAR_EbR :: "bxInstruction \<Rightarrow> bx_cpu \<Rightarrow> bx_cpu" where
  "SAR_EbR i cpu =
    (let count = (if i_op i = BX_IA_SAR_Eb then unat (CL cpu) else unat (i_Ib i));
         count = count AND 0x1f
     in if count = 0 then cpu
        else
          (let op1 = scast (BX_READ_8BIT_REG (i_dst i) cpu) :: Bit32u;
               res = ucast (signed_drop_bit count op1) :: Bit8u;
               cpu = BX_WRITE_8BIT_REG (i_dst i) res cpu;
               flag_cf = signed_drop_bit (count - 1) op1 AND 0x1;
               cpu = upd_flags (SET_FLAGS_OSZAPC_LOGIC_8 (ucast res)) cpu
           in upd_flags (set_flags_OxxxxC 0 flag_cf) cpu))"

section \<open>Handlers of cpu/shift16.cc, register forms\<close>

definition SHLD_EwGwR :: "bxInstruction \<Rightarrow> bx_cpu \<Rightarrow> bx_cpu" where
  "SHLD_EwGwR i cpu =
    (let count = (if i_op i = BX_IA_SHLD_EwGw then unat (CL cpu) else unat (i_Ib i));
         count = count AND 0x1f
     in if count \<noteq> 0 then
          (let op1 = ucast (BX_READ_16BIT_REG (i_dst i) cpu) :: Bit32u;
               op2 = ucast (BX_READ_16BIT_REG (i_src i) cpu);
               temp_32 = shl op1 16 OR op2;
               result_32 = shl temp_32 count;
               result_32 = (if 16 < count then result_32 OR shl op1 (count - 16) else result_32);
               res = ucast (shr result_32 16) :: Bit16u;
               cpu = BX_WRITE_16BIT_REG (i_dst i) res cpu;
               cpu = upd_flags (SET_FLAGS_OSZAPC_LOGIC_16 (ucast res)) cpu;
               flag_cf = shr temp_32 (32 - count) AND 0x1;
               flag_of = flag_cf XOR shr (ucast res) 15
           in upd_flags (set_flags_OxxxxC flag_of flag_cf) cpu)
        else cpu)"

definition SHRD_EwGwR :: "bxInstruction \<Rightarrow> bx_cpu \<Rightarrow> bx_cpu" where
  "SHRD_EwGwR i cpu =
    (let count = (if i_op i = BX_IA_SHRD_EwGw then unat (CL cpu) else unat (i_Ib i));
         count = count AND 0x1f
     in if count \<noteq> 0 then
          (let op1 = ucast (BX_READ_16BIT_REG (i_dst i) cpu) :: Bit32u;
               op2 = ucast (BX_READ_16BIT_REG (i_src i) cpu);
               temp_32 = shl op2 16 OR op1;
               result_32 = shr temp_32 count;
               result_32 = (if 16 < count then result_32 OR shl op1 (32 - count) else result_32);
               res = ucast result_32 :: Bit16u;
               cpu = BX_WRITE_16BIT_REG (i_dst i) res cpu;
               cpu = upd_flags (SET_FLAGS_OSZAPC_LOGIC_16 (ucast res)) cpu;
               flag_cf = shr op1 (count - 1) AND 0x1;
               flag_of = ucast (shr (ucast (shl (ucast res) 1 XOR ucast res :: Bit32u) :: Bit16u) 15) AND 0x1;
               flag_cf = (if 16 < count then shr op2 (count - 17) AND 0x1 else flag_cf)
           in upd_flags (set_flags_OxxxxC flag_of flag_cf) cpu)
        else cpu)"

definition ROL_EwR :: "bxInstruction \<Rightarrow> bx_cpu \<Rightarrow> bx_cpu" where
  "ROL_EwR i cpu =
    (let count = (if i_op i = BX_IA_ROL_Ew then unat (CL cpu) else unat (i_Ib i));
         op1 = ucast (BX_READ_16BIT_REG (i_dst i) cpu) :: Bit32u
     in if count AND 0x0f = 0 then
          (if count AND 0x10 \<noteq> 0 then
             (let bit_lo = op1 AND 1; bit_hi = shr op1 15
              in upd_flags (set_flags_OxxxxC (bit_lo XOR bit_hi) bit_lo) cpu)
           else cpu)
        else
          (let count = count AND 0x0f;
               res = ucast (shl op1 count OR shr op1 (16 - count)) :: Bit16u;
               cpu = BX_WRITE_16BIT_REG (i_dst i) res cpu;
               bit_lo = ucast res AND 1; bit_hi = shr (ucast res) 15
           in upd_flags (set_flags_OxxxxC (bit_lo XOR bit_hi) bit_lo) cpu))"

definition ROR_EwR :: "bxInstruction \<Rightarrow> bx_cpu \<Rightarrow> bx_cpu" where
  "ROR_EwR i cpu =
    (let count = (if i_op i = BX_IA_ROR_Ew then unat (CL cpu) else unat (i_Ib i));
         op1 = ucast (BX_READ_16BIT_REG (i_dst i) cpu) :: Bit32u
     in if count AND 0x0f = 0 then
          (if count AND 0x10 \<noteq> 0 then
             (let bit_lo = shr op1 14 AND 1; bit_hi = shr op1 15 AND 1
              in upd_flags (set_flags_OxxxxC (bit_lo XOR bit_hi) bit_hi) cpu)
           else cpu)
        else
          (let count = count AND 0x0f;
               res = ucast (shr op1 count OR shl op1 (16 - count)) :: Bit16u;
               cpu = BX_WRITE_16BIT_REG (i_dst i) res cpu;
               bit_lo = shr (ucast res) 14 AND 1; bit_hi = shr (ucast res) 15 AND 1
           in upd_flags (set_flags_OxxxxC (bit_lo XOR bit_hi) bit_hi) cpu))"

definition RCL_EwR :: "bxInstruction \<Rightarrow> bx_cpu \<Rightarrow> bx_cpu" where
  "RCL_EwR i cpu =
    (let count = (if i_op i = BX_IA_RCL_Ew then unat (CL cpu) else unat (i_Ib i));
         count = (count AND 0x1f) mod 17
     in if count = 0 then cpu
        else
          (let op1 = ucast (BX_READ_16BIT_REG (i_dst i) cpu) :: Bit32u;
               temp_CF = getB_CF (oszapc cpu);
               res = (if count = 1 then ucast (shl op1 1 OR temp_CF)
                      else if count = 16 then ucast (shl temp_CF 15 OR shr op1 1)
                      else ucast (shl op1 count OR shl temp_CF (count - 1) OR shr op1 (17 - count))) :: Bit16u;
               cpu = BX_WRITE_16BIT_REG (i_dst i) res cpu;
               flag_cf = shr op1 (16 - count) AND 0x1;
               flag_of = flag_cf XOR shr (ucast res) 15
           in upd_flags (set_flags_OxxxxC flag_of flag_cf) cpu))"

definition RCR_EwR :: "bxInstruction \<Rightarrow> bx_cpu \<Rightarrow> bx_cpu" where
  "RCR_EwR i cpu =
    (let count = (if i_op i = BX_IA_RCR_Ew then unat (CL cpu) else unat (i_Ib i));
         count = (count AND 0x1f) mod 17
     in if count = 0 then cpu
        else
          (let op1 = ucast (BX_READ_16BIT_REG (i_dst i) cpu) :: Bit32u;
               temp_CF = getB_CF (oszapc cpu);
               res = ucast (shr op1 count OR shl temp_CF (16 - count) OR shl op1 (17 - count)) :: Bit16u;
               cpu = BX_WRITE_16BIT_REG (i_dst i) res cpu;
               flag_cf = shr op1 (count - 1) AND 0x1;
               flag_of = ucast (shr (ucast (shl (ucast res) 1 XOR ucast res :: Bit32u) :: Bit16u) 15) AND 0x1
           in upd_flags (set_flags_OxxxxC flag_of flag_cf) cpu))"

definition SHL_EwR :: "bxInstruction \<Rightarrow> bx_cpu \<Rightarrow> bx_cpu" where
  "SHL_EwR i cpu =
    (let count = (if i_op i = BX_IA_SHL_Ew then unat (CL cpu) else unat (i_Ib i));
         count = count AND 0x1f
     in if count = 0 then cpu
        else
          (let op1 = ucast (BX_READ_16BIT_REG (i_dst i) cpu) :: Bit32u;
               (res, flag_of, flag_cf) =
                 (if count \<le> 16 then
                    (let res = ucast (shl op1 count) :: Bit16u;
                         flag_cf = shr op1 (16 - count) AND 0x1;
                         flag_of = flag_cf XOR shr (ucast res) 15
                     in (res, flag_of, flag_cf))
                  else (0, 0, 0));
               cpu = BX_WRITE_16BIT_REG (i_dst i) res cpu;
               cpu = upd_flags (SET_FLAGS_OSZAPC_LOGIC_16 (ucast res)) cpu
           in upd_flags (set_flags_OxxxxC flag_of flag_cf) cpu))"

definition SHR_EwR :: "bxInstruction \<Rightarrow> bx_cpu \<Rightarrow> bx_cpu" where
  "SHR_EwR i cpu =
    (let count = (if i_op i = BX_IA_SHR_Ew then unat (CL cpu) else unat (i_Ib i));
         count = count AND 0x1f
     in if count = 0 then cpu
        else
          (let op1 = ucast (BX_READ_16BIT_REG (i_dst i) cpu) :: Bit32u;
               res = ucast (shr op1 count) :: Bit16u;
               cpu = BX_WRITE_16BIT_REG (i_dst i) res cpu;
               flag_cf = shr op1 (count - 1) AND 0x1;
               flag_of = ucast (shr (ucast (shl (ucast res) 1 XOR ucast res :: Bit32u) :: Bit16u) 15) AND 0x1;
               cpu = upd_flags (SET_FLAGS_OSZAPC_LOGIC_16 (ucast res)) cpu
           in upd_flags (set_flags_OxxxxC flag_of flag_cf) cpu))"

definition SAR_EwR :: "bxInstruction \<Rightarrow> bx_cpu \<Rightarrow> bx_cpu" where
  "SAR_EwR i cpu =
    (let count = (if i_op i = BX_IA_SAR_Ew then unat (CL cpu) else unat (i_Ib i));
         count = count AND 0x1f
     in if count = 0 then cpu
        else
          (let op1 = scast (BX_READ_16BIT_REG (i_dst i) cpu) :: Bit32u;
               res = ucast (signed_drop_bit count op1) :: Bit16u;
               cpu = BX_WRITE_16BIT_REG (i_dst i) res cpu;
               flag_cf = signed_drop_bit (count - 1) op1 AND 0x1;
               cpu = upd_flags (SET_FLAGS_OSZAPC_LOGIC_16 (ucast res)) cpu
           in upd_flags (set_flags_OxxxxC 0 flag_cf) cpu))"

section \<open>Handlers of cpu/shift32.cc, register forms\<close>

definition SHLD_EdGdR :: "bxInstruction \<Rightarrow> bx_cpu \<Rightarrow> bx_cpu" where
  "SHLD_EdGdR i cpu =
    (let count = (if i_op i = BX_IA_SHLD_EdGd then unat (CL cpu) else unat (i_Ib i));
         count = count AND 0x1f
     in if count = 0 then BX_CLEAR_64BIT_HIGH (i_dst i) cpu
        else
          (let op1 = BX_READ_32BIT_REG (i_dst i) cpu; op2 = BX_READ_32BIT_REG (i_src i) cpu;
               res = shl op1 count OR shr op2 (32 - count);
               cpu = BX_WRITE_32BIT_REGZ (i_dst i) res cpu;
               cpu = upd_flags (SET_FLAGS_OSZAPC_LOGIC_32 res) cpu;
               flag_cf = shr op1 (32 - count) AND 0x1;
               flag_of = flag_cf XOR shr res 31
           in upd_flags (set_flags_OxxxxC flag_of flag_cf) cpu))"

definition SHRD_EdGdR :: "bxInstruction \<Rightarrow> bx_cpu \<Rightarrow> bx_cpu" where
  "SHRD_EdGdR i cpu =
    (let count = (if i_op i = BX_IA_SHRD_EdGd then unat (CL cpu) else unat (i_Ib i));
         count = count AND 0x1f
     in if count = 0 then BX_CLEAR_64BIT_HIGH (i_dst i) cpu
        else
          (let op1 = BX_READ_32BIT_REG (i_dst i) cpu; op2 = BX_READ_32BIT_REG (i_src i) cpu;
               res = shl op2 (32 - count) OR shr op1 count;
               cpu = BX_WRITE_32BIT_REGZ (i_dst i) res cpu;
               cpu = upd_flags (SET_FLAGS_OSZAPC_LOGIC_32 res) cpu;
               flag_cf = shr op1 (count - 1) AND 0x1;
               flag_of = shr (shl res 1 XOR res) 31
           in upd_flags (set_flags_OxxxxC flag_of flag_cf) cpu))"

definition ROL_EdR :: "bxInstruction \<Rightarrow> bx_cpu \<Rightarrow> bx_cpu" where
  "ROL_EdR i cpu =
    (let count = (if i_op i = BX_IA_ROL_Ed then unat (CL cpu) else unat (i_Ib i));
         count = count AND 0x1f
     in if count = 0 then BX_CLEAR_64BIT_HIGH (i_dst i) cpu
        else
          (let op1 = BX_READ_32BIT_REG (i_dst i) cpu;
               res = shl op1 count OR shr op1 (32 - count);
               cpu = BX_WRITE_32BIT_REGZ (i_dst i) res cpu;
               bit_lo = res AND 1; bit_hi = shr res 31
           in upd_flags (set_flags_OxxxxC (bit_lo XOR bit_hi) bit_lo) cpu))"

definition ROR_EdR :: "bxInstruction \<Rightarrow> bx_cpu \<Rightarrow> bx_cpu" where
  "ROR_EdR i cpu =
    (let count = (if i_op i = BX_IA_ROR_Ed then unat (CL cpu) else unat (i_Ib i));
         count = count AND 0x1f
     in if count = 0 then BX_CLEAR_64BIT_HIGH (i_dst i) cpu
        else
          (let op1 = BX_READ_32BIT_REG (i_dst i) cpu;
               res = shr op1 count OR shl op1 (32 - count);
               cpu = BX_WRITE_32BIT_REGZ (i_dst i) res cpu;
               bit_lo = shr res 30 AND 1; bit_hi = shr res 31 AND 1
           in upd_flags (set_flags_OxxxxC (bit_lo XOR bit_hi) bit_hi) cpu))"

definition RCL_EdR :: "bxInstruction \<Rightarrow> bx_cpu \<Rightarrow> bx_cpu" where
  "RCL_EdR i cpu =
    (let count = (if i_op i = BX_IA_RCL_Ed then unat (CL cpu) else unat (i_Ib i));
         count = count AND 0x1f
     in if count = 0 then BX_CLEAR_64BIT_HIGH (i_dst i) cpu
        else
          (let op1 = BX_READ_32BIT_REG (i_dst i) cpu;
               temp_CF = getB_CF (oszapc cpu);
               res = (if count = 1 then shl op1 1 OR temp_CF
                      else shl op1 count OR shl temp_CF (count - 1) OR shr op1 (33 - count));
               cpu = BX_WRITE_32BIT_REGZ (i_dst i) res cpu;
               flag_cf = shr op1 (32 - count) AND 0x1;
               flag_of = flag_cf XOR shr res 31
           in upd_flags (set_flags_OxxxxC flag_of flag_cf) cpu))"

definition RCR_EdR :: "bxInstruction \<Rightarrow> bx_cpu \<Rightarrow> bx_cpu" where
  "RCR_EdR i cpu =
    (let count = (if i_op i = BX_IA_RCR_Ed then unat (CL cpu) else unat (i_Ib i));
         count = count AND 0x1f
     in if count = 0 then BX_CLEAR_64BIT_HIGH (i_dst i) cpu
        else
          (let op1 = BX_READ_32BIT_REG (i_dst i) cpu;
               temp_CF = getB_CF (oszapc cpu);
               res = (if count = 1 then shr op1 1 OR shl temp_CF 31
                      else shr op1 count OR shl temp_CF (32 - count) OR shl op1 (33 - count));
               cpu = BX_WRITE_32BIT_REGZ (i_dst i) res cpu;
               flag_cf = shr op1 (count - 1) AND 0x1;
               flag_of = shr (shl res 1 XOR res) 31
           in upd_flags (set_flags_OxxxxC flag_of flag_cf) cpu))"

definition SHL_EdR :: "bxInstruction \<Rightarrow> bx_cpu \<Rightarrow> bx_cpu" where
  "SHL_EdR i cpu =
    (let count = (if i_op i = BX_IA_SHL_Ed then unat (CL cpu) else unat (i_Ib i));
         count = count AND 0x1f
     in if count = 0 then BX_CLEAR_64BIT_HIGH (i_dst i) cpu
        else
          (let op1 = BX_READ_32BIT_REG (i_dst i) cpu;
               res = shl op1 count;
               cpu = BX_WRITE_32BIT_REGZ (i_dst i) res cpu;
               flag_cf = shr op1 (32 - count) AND 0x1;
               flag_of = flag_cf XOR shr res 31;
               cpu = upd_flags (SET_FLAGS_OSZAPC_LOGIC_32 res) cpu
           in upd_flags (set_flags_OxxxxC flag_of flag_cf) cpu))"

definition SHR_EdR :: "bxInstruction \<Rightarrow> bx_cpu \<Rightarrow> bx_cpu" where
  "SHR_EdR i cpu =
    (let count = (if i_op i = BX_IA_SHR_Ed then unat (CL cpu) else unat (i_Ib i));
         count = count AND 0x1f
     in if count = 0 then BX_CLEAR_64BIT_HIGH (i_dst i) cpu
        else
          (let op1 = BX_READ_32BIT_REG (i_dst i) cpu;
               res = shr op1 count;
               cpu = BX_WRITE_32BIT_REGZ (i_dst i) res cpu;
               flag_cf = shr op1 (count - 1) AND 0x1;
               flag_of = shr (shl res 1 XOR res) 31;
               cpu = upd_flags (SET_FLAGS_OSZAPC_LOGIC_32 res) cpu
           in upd_flags (set_flags_OxxxxC flag_of flag_cf) cpu))"

definition SAR_EdR :: "bxInstruction \<Rightarrow> bx_cpu \<Rightarrow> bx_cpu" where
  "SAR_EdR i cpu =
    (let count = (if i_op i = BX_IA_SAR_Ed then unat (CL cpu) else unat (i_Ib i));
         count = count AND 0x1f
     in if count = 0 then BX_CLEAR_64BIT_HIGH (i_dst i) cpu
        else
          (let op1 = BX_READ_32BIT_REG (i_dst i) cpu;
               res = signed_drop_bit count op1;
               cpu = BX_WRITE_32BIT_REGZ (i_dst i) res cpu;
               flag_cf = shr op1 (count - 1) AND 1;
               cpu = upd_flags (SET_FLAGS_OSZAPC_LOGIC_32 res) cpu
           in upd_flags (set_flags_OxxxxC 0 flag_cf) cpu))"

section \<open>Shift counts and single bits\<close>

definition shift_count :: "bx_ia_opcode \<Rightarrow> bxInstruction \<Rightarrow> bx_cpu \<Rightarrow> nat" where
  "shift_count op i cpu = (if i_op i = op then unat (CL cpu) else unat (i_Ib i)) AND 0x1f"

lemma and_masks_nat:
  "n AND 0x1f = n mod 32" "n AND 0x07 = n mod 8" "n AND 0x0f = n mod 16" for n :: nat
proof -
  have m: "(0x1f :: nat) = mask 5" "(0x07 :: nat) = mask 3" "(0x0f :: nat) = mask 4"
    by (simp_all add: mask_eq_exp_minus_1)
  show "n AND 0x1f = n mod 32" "n AND 0x07 = n mod 8" "n AND 0x0f = n mod 16"
    unfolding m take_bit_eq_mask [symmetric] take_bit_eq_mod by simp_all
qed

lemma shift_count_lt: "shift_count op i cpu < 32"
  by (simp add: shift_count_def and_masks_nat)

lemma of_bool_xor: "of_bool p XOR of_bool q = (of_bool (p \<noteq> q) :: Bit32u)"
  by (cases p; cases q) simp_all

lemma shr_and_1: "shr w k AND 1 = (of_bool (bit w k) :: Bit32u)"
  by (simp add: bit_and_one bit_drop_bit_eq)

lemma top_bit:
  "shr (ucast b :: Bit32u) 7 = of_bool (bit b 7)"
  "shr (ucast w :: Bit32u) 15 = of_bool (bit w 15)"
  "shr d 31 = of_bool (bit d 31)" for b :: Bit8u and w :: Bit16u and d :: Bit32u
proof (rule_tac [!] bit_word_eqI)
  show "bit (shr (ucast b :: Bit32u) 7) n = bit (of_bool (bit b 7) :: Bit32u) n" for n
    using bit_imp_le_length [of b "7 + n"]
    by (cases n) (auto simp: bit_drop_bit_eq bit_ucast_iff bit_of_bool_word)
  show "bit (shr (ucast w :: Bit32u) 15) n = bit (of_bool (bit w 15) :: Bit32u) n" for n
    using bit_imp_le_length [of w "15 + n"]
    by (cases n) (auto simp: bit_drop_bit_eq bit_ucast_iff bit_of_bool_word)
  show "bit (shr d 31) n = bit (of_bool (bit d 31) :: Bit32u) n" for n
    using bit_imp_le_length [of d "31 + n"]
    by (cases n) (auto simp: bit_drop_bit_eq bit_of_bool_word)
qed

lemma bit_xor_shl1:
  "bit (shl r 1 XOR r) k = ((0 < k \<and> k < 32 \<and> bit r (k - 1)) \<noteq> bit r k)" for r :: Bit32u
  by (simp only: bit_xor_iff bit_push_bit_iff) (auto dest: bit_imp_le_length)

lemma shr_15_word: "(ucast (shr y 15) AND 1 :: Bit32u) = of_bool (bit y 15)" for y :: Bit16u
  by (simp add: bit_and_one bit_ucast_iff bit_drop_bit_eq)

lemma xor_top:
  "shr (shl (ucast b) 1 XOR ucast b :: Bit32u) 7 AND 1 = of_bool (bit b 6 \<noteq> bit b 7)"
  "ucast (shr (ucast (shl (ucast w) 1 XOR ucast w :: Bit32u) :: Bit16u) 15) AND 1 = (of_bool (bit w 14 \<noteq> bit w 15) :: Bit32u)"
  "shr (shl d 1 XOR d) 31 = of_bool (bit d 30 \<noteq> bit d 31)" for b :: Bit8u and w :: Bit16u and d :: Bit32u
  unfolding shr_and_1 shr_15_word top_bit bit_ucast_iff bit_xor_shl1 by simp_all

lemma write_read:
  "gen_reg (BX_WRITE_8BIT_REG k (BX_READ_8BIT_REG k cpu) cpu) = gen_reg cpu"
  "gen_reg (BX_WRITE_16BIT_REG k (BX_READ_16BIT_REG k cpu) cpu) = gen_reg cpu"
  "gen_reg (BX_WRITE_32BIT_REGZ k (BX_READ_32BIT_REG k cpu) cpu) = gen_reg cpu"
proof -
  have "put_rl (byte_rl w) w = w" "put_rh (byte_rh w) w = w" "put_rx (word_rx w) w = w" for w
    by (rule bit_word_eqI; simp add: bit_put_rl bit_put_rh bit_put_rx byte_rl_def byte_rh_def word_rx_def
        bit_ucast_iff bit_drop_bit_eq, (arith | simp add: less_diff_conv2)?)+
  then show 
  "gen_reg (BX_WRITE_8BIT_REG k (BX_READ_8BIT_REG k cpu) cpu) = gen_reg cpu"
  "gen_reg (BX_WRITE_16BIT_REG k (BX_READ_16BIT_REG k cpu) cpu) = gen_reg cpu"
  "gen_reg (BX_WRITE_32BIT_REGZ k (BX_READ_32BIT_REG k cpu) cpu) = gen_reg cpu"
    by (auto simp: cpu_simps)
qed

lemma rot_bits:
  fixes x :: "'n::len word"
  assumes "LENGTH('n) \<le> 32" "0 < c" "c < LENGTH('n)"
  shows "(ucast (shl (ucast x :: Bit32u) c OR shr (ucast x) (LENGTH('n) - c)) :: 'n word) = word_rotl c x"
    and "(ucast (shr (ucast x :: Bit32u) c OR shl (ucast x) (LENGTH('n) - c)) :: 'n word) = word_rotr c x"
proof (rule_tac [!] bit_word_eqI)
  fix k assume k: "k < LENGTH('n)"
  have m: "(k + LENGTH('n) - c) mod LENGTH('n) = (if k < c then LENGTH('n) + k - c else k - c)"
    using assms k by (auto simp: not_less le_mod_geq)
  show "bit (ucast (shl (ucast x :: Bit32u) c OR shr (ucast x) (LENGTH('n) - c)) :: 'n word) k = bit (word_rotl c x) k"
    using assms k 
    by (auto simp: bit_ucast_iff bit_or_iff bit_push_bit_iff bit_drop_bit_eq bit_word_rotl_iff m dest: bit_imp_le_length)
next
  fix k assume k: "k < LENGTH('n)"
  have m: "(c + k) mod LENGTH('n) = (if c + k < LENGTH('n) then c + k else c + k - LENGTH('n))"
    using assms k by (auto simp: not_less le_mod_geq)
  show "bit (ucast (shr (ucast x :: Bit32u) c OR shl (ucast x) (LENGTH('n) - c)) :: 'n word) k = bit (word_rotr c x) k"
    using assms k 
    by (auto simp: bit_ucast_iff bit_or_iff bit_push_bit_iff bit_drop_bit_eq bit_word_rotr_iff add.commute [of k c] m dest: bit_imp_le_length)
qed

lemma rot_mod:
  fixes x :: "'n::len word"
  shows "word_rotl (c mod LENGTH('n)) x = word_rotl c x" "word_rotr (c mod LENGTH('n)) x = word_rotr c x"
    and "c mod LENGTH('n) = 0 \<Longrightarrow> word_rotl c x = x" "c mod LENGTH('n) = 0 \<Longrightarrow> word_rotr c x = x"
proof -
  show l: "word_rotl (c mod LENGTH('n)) x = word_rotl c x" for c
    by (rule bit_word_eqI) (simp add: bit_word_rotl_iff)
  show r: "word_rotr (c mod LENGTH('n)) x = word_rotr c x" for c
    by (rule bit_word_eqI) (simp add: bit_word_rotr_iff mod_add_right_eq)
  have "word_rotl 0 x = x" "word_rotr 0 x = x"
    by (rule bit_word_eqI; simp add: bit_word_rotl_iff bit_word_rotr_iff)+
  then show "c mod LENGTH('n) = 0 \<Longrightarrow> word_rotl c x = x" "c mod LENGTH('n) = 0 \<Longrightarrow> word_rotr c x = x"
    using l [of c] r [of c] by simp_all
qed

lemma high_count_bits:
  "(n AND 0x18 = 0) = (n mod 32 < 8)" "(n AND 0x10 = 0) = (n mod 32 < 16)" for n :: nat
proof -
  have e: "n AND 0x18 = (n mod 32) AND 0x18" "n AND 0x10 = (n mod 32) AND 0x10"
    by (simp_all add: and_masks_nat [symmetric] and.assoc)
  have "list_all (\<lambda>c. ((c AND 0x18 = 0) = (c < 8)) \<and> ((c AND 0x10 = 0) = (c < 16))) [0..<32 :: nat]"
    by code_simp
  then have "((n mod 32) AND 0x18 = 0) = (n mod 32 < 8) \<and> ((n mod 32) AND 0x10 = 0) = (n mod 32 < 16)"
    unfolding list_all_iff by (rule bspec) simp
  then show "(n AND 0x18 = 0) = (n mod 32 < 8)" "(n AND 0x10 = 0) = (n mod 32 < 16)"
    unfolding e by blast+
qed

lemma low_bit: "ucast b AND 1 = (of_bool (bit b 0) :: Bit32u)" for b :: "'n::len word"
  by (simp add: bit_and_one bit_ucast_iff)

lemma promoted_bit: "shr (ucast b) k AND 1 = (of_bool (k < 32 \<and> bit b k) :: Bit32u)" for b :: "'n::len word"
  by (simp add: shr_and_1 bit_ucast_iff)

text \<open>The flags of a rotate: CF and OF as given when the count is not zero.\<close>

definition rot_flags :: "nat \<Rightarrow> bool \<Rightarrow> bool \<Rightarrow> bx_cpu \<Rightarrow> eflag \<Rightarrow> bool" where
  "rot_flags c cf ov cpu f =
    (if c \<noteq> 0 \<and> f = Carry then cf else if c \<noteq> 0 \<and> f = Overflow then ov else lf_get f (oszapc cpu))"

lemma ROL_8_handler:
  "let c = shift_count BX_IA_ROL_Eb i cpu; r = word_rotl c (dst8 i cpu)
    in alu_step (BX_WRITE_8BIT_REG (i_dst i) r) (rot_flags c (bit r 0) (bit r 0 \<noteq> bit r 7) cpu) cpu (ROL_EbR i cpu)"
proof -
  define n where "n = (if i_op i = BX_IA_ROL_Eb then unat (CL cpu) else unat (i_Ib i))"
  define c where "c = shift_count BX_IA_ROL_Eb i cpu"
  have c: "c = n mod 32" by (simp add: c_def shift_count_def n_def and_masks_nat)
  have m: "c mod 8 = n mod 8" by (simp add: c mod_mod_cancel)
  show ?thesis
  proof (cases "n mod 8 = 0")
    case True
    then have r: "word_rotl c (dst8 i cpu) = dst8 i cpu" by (simp add: m rot_mod)
    have z: "(n mod 32 < 8) = (c = 0)"
      using True m by (auto simp: c)
    show ?thesis
      using True unfolding c_def [symmetric]
      by (simp add: alu_step_def ROL_EbR_def n_def [symmetric] and_masks_nat Let_def r high_count_bits z
          write_read bit_ucast_iff bit_drop_bit_eq low_bit promoted_bit shr_and_1 bit_and_one top_bit of_bool_xor lf_get_set_OC rot_flags_def)
  next
    case False
    then have z: "c \<noteq> 0" using m by (metis mod_0)
    have "word_rotl (n mod 8) (dst8 i cpu) = word_rotl c (dst8 i cpu)"
      using rot_mod(1) [of c "dst8 i cpu"] by (simp add: m)
    with False z show ?thesis
      using rot_bits(1) [of "n mod 8" "dst8 i cpu"] unfolding c_def [symmetric]
      by (simp add: alu_step_def ROL_EbR_def n_def [symmetric] and_masks_nat Let_def
          low_bit promoted_bit shr_and_1 bit_and_one top_bit of_bool_xor lf_get_set_OC rot_flags_def del: drop_bit_or; simp add: bit_ucast_iff bit_drop_bit_eq)
  qed
qed

lemma ROL_16_handler:
  "let c = shift_count BX_IA_ROL_Ew i cpu; r = word_rotl c (dst16 i cpu)
    in alu_step (BX_WRITE_16BIT_REG (i_dst i) r) (rot_flags c (bit r 0) (bit r 0 \<noteq> bit r 15) cpu) cpu (ROL_EwR i cpu)"
proof -
  define n where "n = (if i_op i = BX_IA_ROL_Ew then unat (CL cpu) else unat (i_Ib i))"
  define c where "c = shift_count BX_IA_ROL_Ew i cpu"
  have c: "c = n mod 32" by (simp add: c_def shift_count_def n_def and_masks_nat)
  have m: "c mod 16 = n mod 16" by (simp add: c mod_mod_cancel)
  show ?thesis
  proof (cases "n mod 16 = 0")
    case True
    then have r: "word_rotl c (dst16 i cpu) = dst16 i cpu" by (simp add: m rot_mod)
    have z: "(n mod 32 < 16) = (c = 0)"
      using True m by (auto simp: c)
    show ?thesis
      using True unfolding c_def [symmetric]
      by (simp add: alu_step_def ROL_EwR_def n_def [symmetric] and_masks_nat Let_def r high_count_bits z
          write_read bit_ucast_iff bit_drop_bit_eq low_bit promoted_bit shr_and_1 bit_and_one top_bit of_bool_xor lf_get_set_OC rot_flags_def)
  next
    case False
    then have z: "c \<noteq> 0" using m by (metis mod_0)
    have "word_rotl (n mod 16) (dst16 i cpu) = word_rotl c (dst16 i cpu)"
      using rot_mod(1) [of c "dst16 i cpu"] by (simp add: m)
    with False z show ?thesis
      using rot_bits(1) [of "n mod 16" "dst16 i cpu"] unfolding c_def [symmetric]
      by (simp add: alu_step_def ROL_EwR_def n_def [symmetric] and_masks_nat Let_def
          low_bit promoted_bit shr_and_1 bit_and_one top_bit of_bool_xor lf_get_set_OC rot_flags_def del: drop_bit_or; simp add: bit_ucast_iff bit_drop_bit_eq)
  qed
qed

lemma ROL_32_handler:
  "let c = shift_count BX_IA_ROL_Ed i cpu; r = word_rotl c (dst32 i cpu)
    in alu_step (BX_WRITE_32BIT_REGZ (i_dst i) r) (rot_flags c (bit r 0) (bit r 0 \<noteq> bit r 31) cpu) cpu (ROL_EdR i cpu)"
proof -
  define n where "n = (if i_op i = BX_IA_ROL_Ed then unat (CL cpu) else unat (i_Ib i))"
  define c where "c = shift_count BX_IA_ROL_Ed i cpu"
  have c: "c = n mod 32" by (simp add: c_def shift_count_def n_def and_masks_nat)
  show ?thesis
  proof (cases "c = 0")
    case True
    then show ?thesis
      unfolding c_def [symmetric]
      by (simp add: alu_step_def ROL_EdR_def n_def [symmetric] and_masks_nat Let_def c rot_mod
          BX_CLEAR_64BIT_HIGH_def write_read low_bit promoted_bit shr_and_1 bit_and_one top_bit of_bool_xor lf_get_set_OC rot_flags_def)
  next
    case False
    with c show ?thesis
      using rot_bits(1) [of c "dst32 i cpu"] unfolding c_def [symmetric]
      by (simp add: alu_step_def ROL_EdR_def n_def [symmetric] and_masks_nat Let_def
          low_bit promoted_bit shr_and_1 bit_and_one top_bit of_bool_xor lf_get_set_OC rot_flags_def del: drop_bit_or; simp add: bit_ucast_iff bit_drop_bit_eq)
  qed
qed

lemma ROR_8_handler:
  "let c = shift_count BX_IA_ROR_Eb i cpu; r = word_rotr c (dst8 i cpu)
    in alu_step (BX_WRITE_8BIT_REG (i_dst i) r) (rot_flags c (bit r 7) (bit r 6 \<noteq> bit r 7) cpu) cpu (ROR_EbR i cpu)"
proof -
  define n where "n = (if i_op i = BX_IA_ROR_Eb then unat (CL cpu) else unat (i_Ib i))"
  define c where "c = shift_count BX_IA_ROR_Eb i cpu"
  have c: "c = n mod 32" by (simp add: c_def shift_count_def n_def and_masks_nat)
  have m: "c mod 8 = n mod 8" by (simp add: c mod_mod_cancel)
  show ?thesis
  proof (cases "n mod 8 = 0")
    case True
    then have r: "word_rotr c (dst8 i cpu) = dst8 i cpu" by (simp add: m rot_mod)
    have z: "(n mod 32 < 8) = (c = 0)"
      using True m by (auto simp: c)
    show ?thesis
      using True unfolding c_def [symmetric]
      by (simp add: alu_step_def ROR_EbR_def n_def [symmetric] and_masks_nat Let_def r high_count_bits z
          write_read bit_ucast_iff bit_drop_bit_eq low_bit promoted_bit shr_and_1 bit_and_one top_bit of_bool_xor lf_get_set_OC rot_flags_def)
  next
    case False
    then have z: "c \<noteq> 0" using m by (metis mod_0)
    have "word_rotr (n mod 8) (dst8 i cpu) = word_rotr c (dst8 i cpu)"
      using rot_mod(2) [of c "dst8 i cpu"] by (simp add: m)
    with False z show ?thesis
      using rot_bits(2) [of "n mod 8" "dst8 i cpu"] unfolding c_def [symmetric]
      by (simp add: alu_step_def ROR_EbR_def n_def [symmetric] and_masks_nat Let_def
          low_bit promoted_bit shr_and_1 bit_and_one top_bit of_bool_xor lf_get_set_OC rot_flags_def del: drop_bit_or; simp add: bit_ucast_iff bit_drop_bit_eq)
  qed
qed

lemma ROR_16_handler:
  "let c = shift_count BX_IA_ROR_Ew i cpu; r = word_rotr c (dst16 i cpu)
    in alu_step (BX_WRITE_16BIT_REG (i_dst i) r) (rot_flags c (bit r 15) (bit r 14 \<noteq> bit r 15) cpu) cpu (ROR_EwR i cpu)"
proof -
  define n where "n = (if i_op i = BX_IA_ROR_Ew then unat (CL cpu) else unat (i_Ib i))"
  define c where "c = shift_count BX_IA_ROR_Ew i cpu"
  have c: "c = n mod 32" by (simp add: c_def shift_count_def n_def and_masks_nat)
  have m: "c mod 16 = n mod 16" by (simp add: c mod_mod_cancel)
  show ?thesis
  proof (cases "n mod 16 = 0")
    case True
    then have r: "word_rotr c (dst16 i cpu) = dst16 i cpu" by (simp add: m rot_mod)
    have z: "(n mod 32 < 16) = (c = 0)"
      using True m by (auto simp: c)
    show ?thesis
      using True unfolding c_def [symmetric]
      by (simp add: alu_step_def ROR_EwR_def n_def [symmetric] and_masks_nat Let_def r high_count_bits z
          write_read bit_ucast_iff bit_drop_bit_eq low_bit promoted_bit shr_and_1 bit_and_one top_bit of_bool_xor lf_get_set_OC rot_flags_def)
  next
    case False
    then have z: "c \<noteq> 0" using m by (metis mod_0)
    have "word_rotr (n mod 16) (dst16 i cpu) = word_rotr c (dst16 i cpu)"
      using rot_mod(2) [of c "dst16 i cpu"] by (simp add: m)
    with False z show ?thesis
      using rot_bits(2) [of "n mod 16" "dst16 i cpu"] unfolding c_def [symmetric]
      by (simp add: alu_step_def ROR_EwR_def n_def [symmetric] and_masks_nat Let_def
          low_bit promoted_bit shr_and_1 bit_and_one top_bit of_bool_xor lf_get_set_OC rot_flags_def del: drop_bit_or; simp add: bit_ucast_iff bit_drop_bit_eq)
  qed
qed

lemma ROR_32_handler:
  "let c = shift_count BX_IA_ROR_Ed i cpu; r = word_rotr c (dst32 i cpu)
    in alu_step (BX_WRITE_32BIT_REGZ (i_dst i) r) (rot_flags c (bit r 31) (bit r 30 \<noteq> bit r 31) cpu) cpu (ROR_EdR i cpu)"
proof -
  define n where "n = (if i_op i = BX_IA_ROR_Ed then unat (CL cpu) else unat (i_Ib i))"
  define c where "c = shift_count BX_IA_ROR_Ed i cpu"
  have c: "c = n mod 32" by (simp add: c_def shift_count_def n_def and_masks_nat)
  show ?thesis
  proof (cases "c = 0")
    case True
    then show ?thesis
      unfolding c_def [symmetric]
      by (simp add: alu_step_def ROR_EdR_def n_def [symmetric] and_masks_nat Let_def c rot_mod
          BX_CLEAR_64BIT_HIGH_def write_read low_bit promoted_bit shr_and_1 bit_and_one top_bit of_bool_xor lf_get_set_OC rot_flags_def)
  next
    case False
    with c show ?thesis
      using rot_bits(2) [of c "dst32 i cpu"] unfolding c_def [symmetric]
      by (simp add: alu_step_def ROR_EdR_def n_def [symmetric] and_masks_nat Let_def
          low_bit promoted_bit shr_and_1 bit_and_one top_bit of_bool_xor lf_get_set_OC rot_flags_def del: drop_bit_or; simp add: bit_ucast_iff bit_drop_bit_eq)
  qed
qed

section \<open>Rotation through carry\<close>

text \<open>The carry above an operand, as one word a bit longer.\<close>

definition carry_cat :: "bool \<Rightarrow> 'n::len word \<Rightarrow> 'm::len word" where
  "carry_cat c x = ucast x OR push_bit LENGTH('n) (of_bool c)"

lemma bit_carry_cat:
  fixes x :: "'n::len word"
  assumes "LENGTH('m::len) = LENGTH('n) + 1"
  shows "bit (carry_cat c x :: 'm word) k = (if k = LENGTH('n) then c else bit x k)"
  using assms by (auto simp: carry_cat_def bit_or_iff bit_ucast_iff bit_push_bit_iff dest: bit_imp_le_length)

lemma carry_cat_parts:
  fixes x :: "'n::len word"
  assumes "LENGTH('m::len) = LENGTH('n) + 1"
  shows "ucast (carry_cat c x :: 'm word) = x" "bit (carry_cat c x :: 'm word) LENGTH('n) = c"
  using assms by (auto simp: bit_carry_cat bit_ucast_iff intro!: bit_word_eqI)

lemma shr_all:
  "shr (ucast b :: Bit32u) 8 = 0" "shr (ucast w :: Bit32u) 16 = 0" "shr d 32 = 0"
  for b :: Bit8u and w :: Bit16u and d :: Bit32u
  by (rule bit_word_eqI; auto simp: bit_drop_bit_eq bit_ucast_iff dest: bit_imp_le_length)+

lemmas or_ac = or.assoc or.commute or.left_commute

lemma ucast_or_shl16:
  "(ucast (a OR (shl p 16 OR b)) :: Bit16u) = ucast (a OR b)" "(ucast (a OR shl p 16) :: Bit16u) = ucast a"
  for a b p :: Bit32u
  by (rule bit_word_eqI; simp add: bit_ucast_iff bit_or_iff bit_push_bit_iff)+

lemma rcl_bits:
  fixes x :: "'n::len word"
  assumes m: "LENGTH('m::len) = LENGTH('n) + 1" and c: "LENGTH('n) \<le> 32" "0 < c" "c \<le> LENGTH('n)"
  shows "(carry_cat (bit x (LENGTH('n) - c)) (ucast (shl (ucast x :: Bit32u) c OR shl (of_bool b) (c - 1) OR
      shr (ucast x) (LENGTH('n) + 1 - c)) :: 'n word) :: 'm word) = word_rotl c (carry_cat b x)"
proof (rule bit_word_eqI)
  fix k assume "k < LENGTH('m)"
  then have k: "k \<le> LENGTH('n)" using m by simp
  let ?J = "if k < c then LENGTH('n) + 1 + k - c else k - c"
  have "(k + (LENGTH('m) - c mod LENGTH('m))) mod LENGTH('m) = ?J"
    using c k m by (cases "k < c") (auto simp: le_mod_geq)
  then have r: "bit (word_rotl c (carry_cat b x :: 'm word)) k = bit (carry_cat b x :: 'm word) ?J"
    using k m by (simp only: bit_word_rotl_iff) simp
  show "bit (carry_cat (bit x (LENGTH('n) - c)) (ucast (shl (ucast x :: Bit32u) c OR shl (of_bool b) (c - 1) OR
      shr (ucast x) (LENGTH('n) + 1 - c)) :: 'n word) :: 'm word) k = bit (word_rotl c (carry_cat b x :: 'm word)) k"
    unfolding r bit_carry_cat [OF m] using c k
    by (auto simp: bit_ucast_iff bit_or_iff bit_push_bit_iff bit_drop_bit_eq bit_of_bool_word
        not_less Suc_diff_Suc dest: bit_imp_le_length)
qed

lemma rcr_bits:
  fixes x :: "'n::len word"
  assumes m: "LENGTH('m::len) = LENGTH('n) + 1" and c: "LENGTH('n) \<le> 32" "0 < c" "c \<le> LENGTH('n)"
  shows "(carry_cat (bit x (c - 1)) (ucast (shr (ucast x :: Bit32u) c OR shl (of_bool b) (LENGTH('n) - c) OR
      shl (ucast x) (LENGTH('n) + 1 - c)) :: 'n word) :: 'm word) = word_rotr c (carry_cat b x)"
proof (rule bit_word_eqI)
  fix k assume "k < LENGTH('m)"
  then have k: "k \<le> LENGTH('n)" using m by simp
  let ?J = "if c + k \<le> LENGTH('n) then c + k else c + k - (LENGTH('n) + 1)"
  have "(k + c) mod LENGTH('m) = ?J"
    using c k m by (auto simp: not_le le_mod_geq add.commute [of k c])
  then have r: "bit (word_rotr c (carry_cat b x :: 'm word)) k = bit (carry_cat b x :: 'm word) ?J"
    using k m by (simp only: bit_word_rotr_iff) simp
  show "bit (carry_cat (bit x (c - 1)) (ucast (shr (ucast x :: Bit32u) c OR shl (of_bool b) (LENGTH('n) - c) OR
      shl (ucast x) (LENGTH('n) + 1 - c)) :: 'n word) :: 'm word) k = bit (word_rotr c (carry_cat b x :: 'm word)) k"
    unfolding r bit_carry_cat [OF m] using c k
    by (auto simp: bit_ucast_iff bit_or_iff bit_push_bit_iff bit_drop_bit_eq bit_of_bool_word
        add.commute [of k c] dest: bit_imp_le_length)
qed





lemma RCL_8_handler:
  "let c = shift_count BX_IA_RCL_Eb i cpu;
      v = word_rotl c (carry_cat (CF cpu) (dst8 i cpu)) :: 9 word; r = ucast v :: Bit8u
    in alu_step (BX_WRITE_8BIT_REG (i_dst i) r) (rot_flags (c mod 9) (bit v 8) (bit v 8 \<noteq> bit r 7) cpu) cpu (RCL_EbR i cpu)"
proof -
  define n where "n = (if i_op i = BX_IA_RCL_Eb then unat (CL cpu) else unat (i_Ib i))"
  define c where "c = shift_count BX_IA_RCL_Eb i cpu"
  define d where "d = c mod 9"
  define v where "v = (word_rotl c (carry_cat (CF cpu) (dst8 i cpu)) :: 9 word)"
  have c: "c = n mod 32" by (simp add: c_def shift_count_def n_def and_masks_nat)
  have v: "v = word_rotl d (carry_cat (CF cpu) (dst8 i cpu))"
    unfolding v_def d_def using rot_mod(1) [where 'n = 9] by simp
  have dn: "d \<le> 8" unfolding d_def using c by simp
  show ?thesis
  proof (cases "d = 0")
    case True
    then have r: "v = carry_cat (CF cpu) (dst8 i cpu)" by (simp add: v rot_mod)
    have e: "(n mod 32) mod 9 = 0" using True by (simp add: d_def c)
    show ?thesis
      unfolding Let_def c_def [symmetric] v_def [symmetric] d_def [symmetric] unfolding r
      using True e
      by (simp add: alu_step_def RCL_EbR_def n_def [symmetric] and_masks_nat BX_CLEAR_64BIT_HIGH_def
          carry_cat_parts write_read rot_flags_def )
  next
    case False
    define b where "b = bit (dst8 i cpu) (8 - d)"
    define R where "R = (ucast (shl (ucast (dst8 i cpu) :: Bit32u) d OR shl (of_bool (CF cpu)) (d - 1) OR shr (ucast (dst8 i cpu)) (9 - d)) :: Bit8u)"
    have cat: "v = carry_cat b R"
      using rcl_bits [where 'm = 9 and c = d and b = "CF cpu" and x = "dst8 i cpu"] False dn by (simp add: b_def R_def v)
    have r: "ucast v = R" "bit v 8 = b"
      using carry_cat_parts [where 'm = 9, of b R] by (simp_all add: cat)
    have e: "(n mod 32) mod 9 = d" by (simp add: d_def c)
    have l: "(8 :: nat) - d < 32" "d - Suc 0 < 32" using False dn by simp_all
    have z: "(d = 0) = False" using False by simp
    have R1: "(if d = 1 then ucast (shl (ucast (dst8 i cpu) :: Bit32u) 1 OR of_bool (CF cpu)) else ucast (shl (ucast (dst8 i cpu) :: Bit32u) d OR shl (of_bool (CF cpu)) (d - 1) OR shr (ucast (dst8 i cpu) :: Bit32u) (9 - d))) = R"
      unfolding R_def using shr_all dn by (auto simp: or_ac ucast_or_shl16)
    show ?thesis
      unfolding Let_def c_def [symmetric] v_def [symmetric] d_def [symmetric] r
      unfolding alu_step_def RCL_EbR_def n_def [symmetric] and_masks_nat Let_def e getB_lf_get
      unfolding R1
      unfolding xor_top
      unfolding promoted_bit top_bit of_bool_xor z if_False
      by (simp add: lf_get_set_OC rot_flags_def b_def l False)
  qed
qed

lemma RCL_16_handler:
  "let c = shift_count BX_IA_RCL_Ew i cpu;
      v = word_rotl c (carry_cat (CF cpu) (dst16 i cpu)) :: 17 word; r = ucast v :: Bit16u
    in alu_step (BX_WRITE_16BIT_REG (i_dst i) r) (rot_flags (c mod 17) (bit v 16) (bit v 16 \<noteq> bit r 15) cpu) cpu (RCL_EwR i cpu)"
proof -
  define n where "n = (if i_op i = BX_IA_RCL_Ew then unat (CL cpu) else unat (i_Ib i))"
  define c where "c = shift_count BX_IA_RCL_Ew i cpu"
  define d where "d = c mod 17"
  define v where "v = (word_rotl c (carry_cat (CF cpu) (dst16 i cpu)) :: 17 word)"
  have c: "c = n mod 32" by (simp add: c_def shift_count_def n_def and_masks_nat)
  have v: "v = word_rotl d (carry_cat (CF cpu) (dst16 i cpu))"
    unfolding v_def d_def using rot_mod(1) [where 'n = 17] by simp
  have dn: "d \<le> 16" unfolding d_def using c by simp
  show ?thesis
  proof (cases "d = 0")
    case True
    then have r: "v = carry_cat (CF cpu) (dst16 i cpu)" by (simp add: v rot_mod)
    have e: "(n mod 32) mod 17 = 0" using True by (simp add: d_def c)
    show ?thesis
      unfolding Let_def c_def [symmetric] v_def [symmetric] d_def [symmetric] unfolding r
      using True e
      by (simp add: alu_step_def RCL_EwR_def n_def [symmetric] and_masks_nat BX_CLEAR_64BIT_HIGH_def
          carry_cat_parts write_read rot_flags_def )
  next
    case False
    define b where "b = bit (dst16 i cpu) (16 - d)"
    define R where "R = (ucast (shl (ucast (dst16 i cpu) :: Bit32u) d OR shl (of_bool (CF cpu)) (d - 1) OR shr (ucast (dst16 i cpu)) (17 - d)) :: Bit16u)"
    have cat: "v = carry_cat b R"
      using rcl_bits [where 'm = 17 and c = d and b = "CF cpu" and x = "dst16 i cpu"] False dn by (simp add: b_def R_def v)
    have r: "ucast v = R" "bit v 16 = b"
      using carry_cat_parts [where 'm = 17, of b R] by (simp_all add: cat)
    have e: "(n mod 32) mod 17 = d" by (simp add: d_def c)
    have l: "(16 :: nat) - d < 32" "d - Suc 0 < 32" using False dn by simp_all
    have z: "(d = 0) = False" using False by simp
    have R1: "(if d = 1 then ucast (shl (ucast (dst16 i cpu) :: Bit32u) 1 OR of_bool (CF cpu)) else if d = 16 then ucast (shl (of_bool (CF cpu)) 15 OR shr (ucast (dst16 i cpu) :: Bit32u) 1) else ucast (shl (ucast (dst16 i cpu) :: Bit32u) d OR shl (of_bool (CF cpu)) (d - 1) OR shr (ucast (dst16 i cpu) :: Bit32u) (17 - d))) = R"
      unfolding R_def using shr_all dn by (auto simp: or_ac ucast_or_shl16)
    show ?thesis
      unfolding Let_def c_def [symmetric] v_def [symmetric] d_def [symmetric] r
      unfolding alu_step_def RCL_EwR_def n_def [symmetric] and_masks_nat Let_def e getB_lf_get
      unfolding R1
      unfolding xor_top
      unfolding promoted_bit top_bit of_bool_xor z if_False
      by (simp add: lf_get_set_OC rot_flags_def b_def l False)
  qed
qed

lemma RCL_32_handler:
  "let c = shift_count BX_IA_RCL_Ed i cpu;
      v = word_rotl c (carry_cat (CF cpu) (dst32 i cpu)) :: 33 word; r = ucast v :: Bit32u
    in alu_step (BX_WRITE_32BIT_REGZ (i_dst i) r) (rot_flags c (bit v 32) (bit v 32 \<noteq> bit r 31) cpu) cpu (RCL_EdR i cpu)"
proof -
  define n where "n = (if i_op i = BX_IA_RCL_Ed then unat (CL cpu) else unat (i_Ib i))"
  define c where "c = shift_count BX_IA_RCL_Ed i cpu"
  define d where "d = c"
  define v where "v = (word_rotl c (carry_cat (CF cpu) (dst32 i cpu)) :: 33 word)"
  have c: "c = n mod 32" by (simp add: c_def shift_count_def n_def and_masks_nat)
  have v: "v = word_rotl d (carry_cat (CF cpu) (dst32 i cpu))"
    unfolding v_def d_def using rot_mod(1) [where 'n = 33] by simp
  have dn: "d \<le> 32" unfolding d_def using c by simp
  show ?thesis
  proof (cases "d = 0")
    case True
    then have r: "v = carry_cat (CF cpu) (dst32 i cpu)" by (simp add: v rot_mod)
    have e: "(n mod 32) = 0" using True by (simp add: d_def c)
    show ?thesis
      unfolding Let_def c_def [symmetric] v_def [symmetric]  unfolding r
      using True e
      by (simp add: alu_step_def RCL_EdR_def n_def [symmetric] and_masks_nat BX_CLEAR_64BIT_HIGH_def
          carry_cat_parts write_read rot_flags_def d_def)
  next
    case False
    define b where "b = bit (dst32 i cpu) (32 - d)"
    define R where "R = shl (dst32 i cpu) d OR shl (of_bool (CF cpu)) (d - 1) OR shr (dst32 i cpu) (33 - d)"
    have cat: "v = carry_cat b R"
      using rcl_bits [where 'm = 33 and c = d and b = "CF cpu" and x = "dst32 i cpu"] False dn by (simp add: b_def R_def v)
    have r: "ucast v = R" "bit v 32 = b"
      using carry_cat_parts [where 'm = 33, of b R] by (simp_all add: cat)
    have e: "(n mod 32) = d" by (simp add: d_def c)
    have l: "(32 :: nat) - d < 32" "d - Suc 0 < 32" using False dn by simp_all
    have z: "(d = 0) = False" using False by simp
    have R1: "(if d = 1 then shl (dst32 i cpu) 1 OR of_bool (CF cpu) else shl (dst32 i cpu) d OR shl (of_bool (CF cpu)) (d - 1) OR shr (dst32 i cpu) (33 - d)) = R"
      unfolding R_def using shr_all dn by (auto simp: or_ac ucast_or_shl16)
    show ?thesis
      unfolding Let_def c_def [symmetric] v_def [symmetric]  r
      unfolding alu_step_def RCL_EdR_def n_def [symmetric] and_masks_nat Let_def e getB_lf_get
      unfolding R1
      unfolding xor_top
      unfolding shr_and_1 top_bit of_bool_xor z if_False
      by (simp add: lf_get_set_OC rot_flags_def b_def l False d_def [symmetric])
  qed
qed

lemma RCR_8_handler:
  "let c = shift_count BX_IA_RCR_Eb i cpu;
      v = word_rotr c (carry_cat (CF cpu) (dst8 i cpu)) :: 9 word; r = ucast v :: Bit8u
    in alu_step (BX_WRITE_8BIT_REG (i_dst i) r) (rot_flags (c mod 9) (bit v 8) (bit r 6 \<noteq> bit r 7) cpu) cpu (RCR_EbR i cpu)"
proof -
  define n where "n = (if i_op i = BX_IA_RCR_Eb then unat (CL cpu) else unat (i_Ib i))"
  define c where "c = shift_count BX_IA_RCR_Eb i cpu"
  define d where "d = c mod 9"
  define v where "v = (word_rotr c (carry_cat (CF cpu) (dst8 i cpu)) :: 9 word)"
  have c: "c = n mod 32" by (simp add: c_def shift_count_def n_def and_masks_nat)
  have v: "v = word_rotr d (carry_cat (CF cpu) (dst8 i cpu))"
    unfolding v_def d_def using rot_mod(2) [where 'n = 9] by simp
  have dn: "d \<le> 8" unfolding d_def using c by simp
  show ?thesis
  proof (cases "d = 0")
    case True
    then have r: "v = carry_cat (CF cpu) (dst8 i cpu)" by (simp add: v rot_mod)
    have e: "(n mod 32) mod 9 = 0" using True by (simp add: d_def c)
    show ?thesis
      unfolding Let_def c_def [symmetric] v_def [symmetric] d_def [symmetric] unfolding r
      using True e
      by (simp add: alu_step_def RCR_EbR_def n_def [symmetric] and_masks_nat BX_CLEAR_64BIT_HIGH_def
          carry_cat_parts write_read rot_flags_def )
  next
    case False
    define b where "b = bit (dst8 i cpu) (d - 1)"
    define R where "R = (ucast (shr (ucast (dst8 i cpu) :: Bit32u) d OR shl (of_bool (CF cpu)) (8 - d) OR shl (ucast (dst8 i cpu)) (9 - d)) :: Bit8u)"
    have cat: "v = carry_cat b R"
      using rcr_bits [where 'm = 9 and c = d and b = "CF cpu" and x = "dst8 i cpu"] False dn by (simp add: b_def R_def v)
    have r: "ucast v = R" "bit v 8 = b"
      using carry_cat_parts [where 'm = 9, of b R] by (simp_all add: cat)
    have e: "(n mod 32) mod 9 = d" by (simp add: d_def c)
    have l: "(8 :: nat) - d < 32" "d - Suc 0 < 32" using False dn by simp_all
    have z: "(d = 0) = False" using False by simp
    show ?thesis
      unfolding Let_def c_def [symmetric] v_def [symmetric] d_def [symmetric] r
      unfolding alu_step_def RCR_EbR_def n_def [symmetric] and_masks_nat Let_def e getB_lf_get
      unfolding R_def [symmetric]
      unfolding xor_top
      unfolding promoted_bit top_bit of_bool_xor z if_False
      by (simp add: lf_get_set_OC rot_flags_def b_def l False)
  qed
qed

lemma RCR_16_handler:
  "let c = shift_count BX_IA_RCR_Ew i cpu;
      v = word_rotr c (carry_cat (CF cpu) (dst16 i cpu)) :: 17 word; r = ucast v :: Bit16u
    in alu_step (BX_WRITE_16BIT_REG (i_dst i) r) (rot_flags (c mod 17) (bit v 16) (bit r 14 \<noteq> bit r 15) cpu) cpu (RCR_EwR i cpu)"
proof -
  define n where "n = (if i_op i = BX_IA_RCR_Ew then unat (CL cpu) else unat (i_Ib i))"
  define c where "c = shift_count BX_IA_RCR_Ew i cpu"
  define d where "d = c mod 17"
  define v where "v = (word_rotr c (carry_cat (CF cpu) (dst16 i cpu)) :: 17 word)"
  have c: "c = n mod 32" by (simp add: c_def shift_count_def n_def and_masks_nat)
  have v: "v = word_rotr d (carry_cat (CF cpu) (dst16 i cpu))"
    unfolding v_def d_def using rot_mod(2) [where 'n = 17] by simp
  have dn: "d \<le> 16" unfolding d_def using c by simp
  show ?thesis
  proof (cases "d = 0")
    case True
    then have r: "v = carry_cat (CF cpu) (dst16 i cpu)" by (simp add: v rot_mod)
    have e: "(n mod 32) mod 17 = 0" using True by (simp add: d_def c)
    show ?thesis
      unfolding Let_def c_def [symmetric] v_def [symmetric] d_def [symmetric] unfolding r
      using True e
      by (simp add: alu_step_def RCR_EwR_def n_def [symmetric] and_masks_nat BX_CLEAR_64BIT_HIGH_def
          carry_cat_parts write_read rot_flags_def )
  next
    case False
    define b where "b = bit (dst16 i cpu) (d - 1)"
    define R where "R = (ucast (shr (ucast (dst16 i cpu) :: Bit32u) d OR shl (of_bool (CF cpu)) (16 - d) OR shl (ucast (dst16 i cpu)) (17 - d)) :: Bit16u)"
    have cat: "v = carry_cat b R"
      using rcr_bits [where 'm = 17 and c = d and b = "CF cpu" and x = "dst16 i cpu"] False dn by (simp add: b_def R_def v)
    have r: "ucast v = R" "bit v 16 = b"
      using carry_cat_parts [where 'm = 17, of b R] by (simp_all add: cat)
    have e: "(n mod 32) mod 17 = d" by (simp add: d_def c)
    have l: "(16 :: nat) - d < 32" "d - Suc 0 < 32" using False dn by simp_all
    have z: "(d = 0) = False" using False by simp
    show ?thesis
      unfolding Let_def c_def [symmetric] v_def [symmetric] d_def [symmetric] r
      unfolding alu_step_def RCR_EwR_def n_def [symmetric] and_masks_nat Let_def e getB_lf_get
      unfolding R_def [symmetric]
      unfolding xor_top
      unfolding promoted_bit top_bit of_bool_xor z if_False
      by (simp add: lf_get_set_OC rot_flags_def b_def l False)
  qed
qed

lemma RCR_32_handler:
  "let c = shift_count BX_IA_RCR_Ed i cpu;
      v = word_rotr c (carry_cat (CF cpu) (dst32 i cpu)) :: 33 word; r = ucast v :: Bit32u
    in alu_step (BX_WRITE_32BIT_REGZ (i_dst i) r) (rot_flags c (bit v 32) (bit r 30 \<noteq> bit r 31) cpu) cpu (RCR_EdR i cpu)"
proof -
  define n where "n = (if i_op i = BX_IA_RCR_Ed then unat (CL cpu) else unat (i_Ib i))"
  define c where "c = shift_count BX_IA_RCR_Ed i cpu"
  define d where "d = c"
  define v where "v = (word_rotr c (carry_cat (CF cpu) (dst32 i cpu)) :: 33 word)"
  have c: "c = n mod 32" by (simp add: c_def shift_count_def n_def and_masks_nat)
  have v: "v = word_rotr d (carry_cat (CF cpu) (dst32 i cpu))"
    unfolding v_def d_def using rot_mod(2) [where 'n = 33] by simp
  have dn: "d \<le> 32" unfolding d_def using c by simp
  show ?thesis
  proof (cases "d = 0")
    case True
    then have r: "v = carry_cat (CF cpu) (dst32 i cpu)" by (simp add: v rot_mod)
    have e: "(n mod 32) = 0" using True by (simp add: d_def c)
    show ?thesis
      unfolding Let_def c_def [symmetric] v_def [symmetric]  unfolding r
      using True e
      by (simp add: alu_step_def RCR_EdR_def n_def [symmetric] and_masks_nat BX_CLEAR_64BIT_HIGH_def
          carry_cat_parts write_read rot_flags_def d_def)
  next
    case False
    define b where "b = bit (dst32 i cpu) (d - 1)"
    define R where "R = shr (dst32 i cpu) d OR shl (of_bool (CF cpu)) (32 - d) OR shl (dst32 i cpu) (33 - d)"
    have cat: "v = carry_cat b R"
      using rcr_bits [where 'm = 33 and c = d and b = "CF cpu" and x = "dst32 i cpu"] False dn by (simp add: b_def R_def v)
    have r: "ucast v = R" "bit v 32 = b"
      using carry_cat_parts [where 'm = 33, of b R] by (simp_all add: cat)
    have e: "(n mod 32) = d" by (simp add: d_def c)
    have l: "(32 :: nat) - d < 32" "d - Suc 0 < 32" using False dn by simp_all
    have z: "(d = 0) = False" using False by simp
    have R1: "(if d = 1 then shr (dst32 i cpu) 1 OR shl (of_bool (CF cpu)) 31 else shr (dst32 i cpu) d OR shl (of_bool (CF cpu)) (32 - d) OR shl (dst32 i cpu) (33 - d)) = R"
      unfolding R_def using shr_all dn by (auto simp: or_ac ucast_or_shl16)
    show ?thesis
      unfolding Let_def c_def [symmetric] v_def [symmetric]  r
      unfolding alu_step_def RCR_EdR_def n_def [symmetric] and_masks_nat Let_def e getB_lf_get
      unfolding R1
      unfolding xor_top
      unfolding shr_and_1 top_bit of_bool_xor z if_False
      by (simp add: lf_get_set_OC rot_flags_def b_def l False d_def [symmetric])
  qed
qed

section \<open>Shifts\<close>

text \<open>The flags of a shift: nothing changes at count zero.\<close>

definition shift_flags :: "nat \<Rightarrow> bool \<Rightarrow> bool \<Rightarrow> 'n::len word \<Rightarrow> bx_cpu \<Rightarrow> eflag \<Rightarrow> bool" where
  "shift_flags c cf ov r cpu f =
    (if c = 0 then lf_get f (oszapc cpu)
     else if f = Carry then cf else if f = Overflow then ov else ref_logic r f)"

lemma lf_get_set_C:
  "lf_get f (set_flags_OxxxxC 0 (of_bool q) e) = (if f = Carry then q else if f = Overflow then False else lf_get f e)"
  using lf_get_set_OC [of f False q e] by simp

lemma lf_get_set_00:
  "lf_get f (set_flags_OxxxxC 0 0 e) = (f \<noteq> Carry \<and> f \<noteq> Overflow \<and> lf_get f e)"
  using lf_get_set_OC [of f False False e] by simp

lemma shift_promoted:
  "(ucast (shl (ucast b :: Bit32u) c) :: Bit8u) = shl b c" "(ucast (shl (ucast w :: Bit32u) c) :: Bit16u) = shl w c"
  "(ucast (shr (ucast b :: Bit32u) c) :: Bit8u) = shr b c" "(ucast (shr (ucast w :: Bit32u) c) :: Bit16u) = shr w c"
  "(ucast (signed_drop_bit c (scast b :: Bit32u)) :: Bit8u) = signed_drop_bit c b"
  "(ucast (signed_drop_bit c (scast w :: Bit32u)) :: Bit16u) = signed_drop_bit c w"
  for b :: Bit8u and w :: Bit16u
proof -
  show "(ucast (shl (ucast b :: Bit32u) c) :: Bit8u) = shl b c" "(ucast (shl (ucast w :: Bit32u) c) :: Bit16u) = shl w c"
    "(ucast (shr (ucast b :: Bit32u) c) :: Bit8u) = shr b c" "(ucast (shr (ucast w :: Bit32u) c) :: Bit16u) = shr w c"
    by (rule bit_word_eqI; auto simp: bit_ucast_iff bit_push_bit_iff bit_drop_bit_eq dest: bit_imp_le_length)+
  show "(ucast (signed_drop_bit c (scast b :: Bit32u)) :: Bit8u) = signed_drop_bit c b"
  proof (rule bit_word_eqI)
    show "n < LENGTH(8) \<Longrightarrow> bit (ucast (signed_drop_bit c (scast b :: Bit32u)) :: Bit8u) n = bit (signed_drop_bit c b) n" for n
      by (cases "c + n = 7") (auto simp: bit_ucast_iff bit_signed_drop_bit_iff bit_signed_iff min_def)
  qed
  show "(ucast (signed_drop_bit c (scast w :: Bit32u)) :: Bit16u) = signed_drop_bit c w"
  proof (rule bit_word_eqI)
    show "n < LENGTH(16) \<Longrightarrow> bit (ucast (signed_drop_bit c (scast w :: Bit32u)) :: Bit16u) n = bit (signed_drop_bit c w) n" for n
      by (cases "c + n = 15") (auto simp: bit_ucast_iff bit_signed_drop_bit_iff bit_signed_iff min_def)
  qed
qed

lemma shl_all: "c > 8 \<Longrightarrow> shl b c = 0" "c > 16 \<Longrightarrow> shl w c = 0" for b :: Bit8u and w :: Bit16u
  by (rule bit_word_eqI; simp add: bit_push_bit_iff)+

lemma sar_bit: "signed_drop_bit k (scast b) AND 1 = (of_bool (bit (signed_drop_bit k b) 0) :: Bit32u)"
  "signed_drop_bit k (scast w) AND 1 = (of_bool (bit (signed_drop_bit k w) 0) :: Bit32u)"
  "k < 32 \<Longrightarrow> bit (signed_drop_bit k d) 0 = bit d k"
  for b :: Bit8u and w :: Bit16u and d :: Bit32u
  by (cases "k = 7"; auto simp: bit_and_one bit_signed_drop_bit_iff bit_signed_iff min_def)
     (cases "k = 15"; auto simp: bit_and_one bit_signed_drop_bit_iff bit_signed_iff min_def)+

lemma SHL_8_handler:
  "let c = shift_count BX_IA_SHL_Eb i cpu; r = shl (dst8 i cpu) c
    in alu_step (BX_WRITE_8BIT_REG (i_dst i) r) (shift_flags c (c \<le> 8 \<and> bit (dst8 i cpu) (8 - c)) ((c \<le> 8 \<and> bit (dst8 i cpu) (8 - c)) \<noteq> bit r 7) r cpu) cpu (SHL_EbR i cpu)"
proof -
  define n where "n = (if i_op i = BX_IA_SHL_Eb then unat (CL cpu) else unat (i_Ib i))"
  define c where "c = shift_count BX_IA_SHL_Eb i cpu"
  have c: "n mod 32 = c" by (simp add: c_def shift_count_def n_def and_masks_nat)
  have l: "c < 32" unfolding c_def by (rule shift_count_lt)
  then have l': "c - Suc 0 < 32" "0 < c \<Longrightarrow> 8 - c < 32" by simp_all
  show ?thesis
  proof (cases "c = 0")
    case True
    then show ?thesis
      unfolding c_def [symmetric] Let_def
      by (simp add: alu_step_def SHL_EbR_def n_def [symmetric] and_masks_nat Let_def c
          BX_CLEAR_64BIT_HIGH_def shift_flags_def write_read)
  next
    case False
    then have z: "(c = 0) = False" by simp
    show ?thesis
      unfolding Let_def c_def [symmetric]
      unfolding alu_step_def SHL_EbR_def n_def [symmetric] and_masks_nat Let_def c z if_False
      unfolding shift_promoted xor_top
      unfolding promoted_bit
      unfolding shr_and_1 top_bit of_bool_xor
      using l l' False
      by (simp add: lf_get_set_OC lf_get_set_C lf_get_set_00 shift_flags_def LOGIC_8_ref write_upd_flags shl_all)
  qed
qed

lemma SHL_16_handler:
  "let c = shift_count BX_IA_SHL_Ew i cpu; r = shl (dst16 i cpu) c
    in alu_step (BX_WRITE_16BIT_REG (i_dst i) r) (shift_flags c (c \<le> 16 \<and> bit (dst16 i cpu) (16 - c)) ((c \<le> 16 \<and> bit (dst16 i cpu) (16 - c)) \<noteq> bit r 15) r cpu) cpu (SHL_EwR i cpu)"
proof -
  define n where "n = (if i_op i = BX_IA_SHL_Ew then unat (CL cpu) else unat (i_Ib i))"
  define c where "c = shift_count BX_IA_SHL_Ew i cpu"
  have c: "n mod 32 = c" by (simp add: c_def shift_count_def n_def and_masks_nat)
  have l: "c < 32" unfolding c_def by (rule shift_count_lt)
  then have l': "c - Suc 0 < 32" "0 < c \<Longrightarrow> 16 - c < 32" by simp_all
  show ?thesis
  proof (cases "c = 0")
    case True
    then show ?thesis
      unfolding c_def [symmetric] Let_def
      by (simp add: alu_step_def SHL_EwR_def n_def [symmetric] and_masks_nat Let_def c
          BX_CLEAR_64BIT_HIGH_def shift_flags_def write_read)
  next
    case False
    then have z: "(c = 0) = False" by simp
    show ?thesis
      unfolding Let_def c_def [symmetric]
      unfolding alu_step_def SHL_EwR_def n_def [symmetric] and_masks_nat Let_def c z if_False
      unfolding shift_promoted xor_top
      unfolding promoted_bit
      unfolding shr_and_1 top_bit of_bool_xor
      using l l' False
      by (simp add: lf_get_set_OC lf_get_set_C lf_get_set_00 shift_flags_def LOGIC_16_ref write_upd_flags shl_all)
  qed
qed

lemma SHL_32_handler:
  "let c = shift_count BX_IA_SHL_Ed i cpu; r = shl (dst32 i cpu) c
    in alu_step (BX_WRITE_32BIT_REGZ (i_dst i) r) (shift_flags c (c \<le> 32 \<and> bit (dst32 i cpu) (32 - c)) ((c \<le> 32 \<and> bit (dst32 i cpu) (32 - c)) \<noteq> bit r 31) r cpu) cpu (SHL_EdR i cpu)"
proof -
  define n where "n = (if i_op i = BX_IA_SHL_Ed then unat (CL cpu) else unat (i_Ib i))"
  define c where "c = shift_count BX_IA_SHL_Ed i cpu"
  have c: "n mod 32 = c" by (simp add: c_def shift_count_def n_def and_masks_nat)
  have l: "c < 32" unfolding c_def by (rule shift_count_lt)
  then have l': "c - Suc 0 < 32" "0 < c \<Longrightarrow> 32 - c < 32" by simp_all
  show ?thesis
  proof (cases "c = 0")
    case True
    then show ?thesis
      unfolding c_def [symmetric] Let_def
      by (simp add: alu_step_def SHL_EdR_def n_def [symmetric] and_masks_nat Let_def c
          BX_CLEAR_64BIT_HIGH_def shift_flags_def write_read)
  next
    case False
    then have z: "(c = 0) = False" by simp
    show ?thesis
      unfolding Let_def c_def [symmetric]
      unfolding alu_step_def SHL_EdR_def n_def [symmetric] and_masks_nat Let_def c z if_False
      unfolding xor_top
      unfolding shr_and_1 top_bit of_bool_xor
      using l l' False
      by (simp add: lf_get_set_OC lf_get_set_C lf_get_set_00 shift_flags_def LOGIC_32_ref write_upd_flags shl_all)
  qed
qed

lemma SHR_8_handler:
  "let c = shift_count BX_IA_SHR_Eb i cpu; r = shr (dst8 i cpu) c
    in alu_step (BX_WRITE_8BIT_REG (i_dst i) r) (shift_flags c (bit (dst8 i cpu) (c - 1)) (bit r 6 \<noteq> bit r 7) r cpu) cpu (SHR_EbR i cpu)"
proof -
  define n where "n = (if i_op i = BX_IA_SHR_Eb then unat (CL cpu) else unat (i_Ib i))"
  define c where "c = shift_count BX_IA_SHR_Eb i cpu"
  have c: "n mod 32 = c" by (simp add: c_def shift_count_def n_def and_masks_nat)
  have l: "c < 32" unfolding c_def by (rule shift_count_lt)
  then have l': "c - Suc 0 < 32" "0 < c \<Longrightarrow> 8 - c < 32" by simp_all
  show ?thesis
  proof (cases "c = 0")
    case True
    then show ?thesis
      unfolding c_def [symmetric] Let_def
      by (simp add: alu_step_def SHR_EbR_def n_def [symmetric] and_masks_nat Let_def c
          BX_CLEAR_64BIT_HIGH_def shift_flags_def write_read)
  next
    case False
    then have z: "(c = 0) = False" by simp
    show ?thesis
      unfolding Let_def c_def [symmetric]
      unfolding alu_step_def SHR_EbR_def n_def [symmetric] and_masks_nat Let_def c z if_False
      unfolding shift_promoted xor_top
      unfolding promoted_bit
      unfolding shr_and_1 top_bit of_bool_xor
      using l l' False
      by (simp add: lf_get_set_OC lf_get_set_C lf_get_set_00 shift_flags_def LOGIC_8_ref write_upd_flags)
  qed
qed

lemma SHR_16_handler:
  "let c = shift_count BX_IA_SHR_Ew i cpu; r = shr (dst16 i cpu) c
    in alu_step (BX_WRITE_16BIT_REG (i_dst i) r) (shift_flags c (bit (dst16 i cpu) (c - 1)) (bit r 14 \<noteq> bit r 15) r cpu) cpu (SHR_EwR i cpu)"
proof -
  define n where "n = (if i_op i = BX_IA_SHR_Ew then unat (CL cpu) else unat (i_Ib i))"
  define c where "c = shift_count BX_IA_SHR_Ew i cpu"
  have c: "n mod 32 = c" by (simp add: c_def shift_count_def n_def and_masks_nat)
  have l: "c < 32" unfolding c_def by (rule shift_count_lt)
  then have l': "c - Suc 0 < 32" "0 < c \<Longrightarrow> 16 - c < 32" by simp_all
  show ?thesis
  proof (cases "c = 0")
    case True
    then show ?thesis
      unfolding c_def [symmetric] Let_def
      by (simp add: alu_step_def SHR_EwR_def n_def [symmetric] and_masks_nat Let_def c
          BX_CLEAR_64BIT_HIGH_def shift_flags_def write_read)
  next
    case False
    then have z: "(c = 0) = False" by simp
    show ?thesis
      unfolding Let_def c_def [symmetric]
      unfolding alu_step_def SHR_EwR_def n_def [symmetric] and_masks_nat Let_def c z if_False
      unfolding shift_promoted xor_top
      unfolding promoted_bit
      unfolding shr_and_1 top_bit of_bool_xor
      using l l' False
      by (simp add: lf_get_set_OC lf_get_set_C lf_get_set_00 shift_flags_def LOGIC_16_ref write_upd_flags)
  qed
qed

lemma SHR_32_handler:
  "let c = shift_count BX_IA_SHR_Ed i cpu; r = shr (dst32 i cpu) c
    in alu_step (BX_WRITE_32BIT_REGZ (i_dst i) r) (shift_flags c (bit (dst32 i cpu) (c - 1)) (bit r 30 \<noteq> bit r 31) r cpu) cpu (SHR_EdR i cpu)"
proof -
  define n where "n = (if i_op i = BX_IA_SHR_Ed then unat (CL cpu) else unat (i_Ib i))"
  define c where "c = shift_count BX_IA_SHR_Ed i cpu"
  have c: "n mod 32 = c" by (simp add: c_def shift_count_def n_def and_masks_nat)
  have l: "c < 32" unfolding c_def by (rule shift_count_lt)
  then have l': "c - Suc 0 < 32" "0 < c \<Longrightarrow> 32 - c < 32" by simp_all
  show ?thesis
  proof (cases "c = 0")
    case True
    then show ?thesis
      unfolding c_def [symmetric] Let_def
      by (simp add: alu_step_def SHR_EdR_def n_def [symmetric] and_masks_nat Let_def c
          BX_CLEAR_64BIT_HIGH_def shift_flags_def write_read)
  next
    case False
    then have z: "(c = 0) = False" by simp
    show ?thesis
      unfolding Let_def c_def [symmetric]
      unfolding alu_step_def SHR_EdR_def n_def [symmetric] and_masks_nat Let_def c z if_False
      unfolding xor_top
      unfolding shr_and_1 top_bit of_bool_xor
      using l l' False
      by (simp add: lf_get_set_OC lf_get_set_C lf_get_set_00 shift_flags_def LOGIC_32_ref write_upd_flags)
  qed
qed

lemma SAR_8_handler:
  "let c = shift_count BX_IA_SAR_Eb i cpu; r = signed_drop_bit c (dst8 i cpu)
    in alu_step (BX_WRITE_8BIT_REG (i_dst i) r) (shift_flags c (bit (signed_drop_bit (c - 1) (dst8 i cpu)) 0) (False) r cpu) cpu (SAR_EbR i cpu)"
proof -
  define n where "n = (if i_op i = BX_IA_SAR_Eb then unat (CL cpu) else unat (i_Ib i))"
  define c where "c = shift_count BX_IA_SAR_Eb i cpu"
  have c: "n mod 32 = c" by (simp add: c_def shift_count_def n_def and_masks_nat)
  have l: "c < 32" unfolding c_def by (rule shift_count_lt)
  then have l': "c - Suc 0 < 32" "0 < c \<Longrightarrow> 8 - c < 32" by simp_all
  show ?thesis
  proof (cases "c = 0")
    case True
    then show ?thesis
      unfolding c_def [symmetric] Let_def
      by (simp add: alu_step_def SAR_EbR_def n_def [symmetric] and_masks_nat Let_def c
          BX_CLEAR_64BIT_HIGH_def shift_flags_def write_read)
  next
    case False
    then have z: "(c = 0) = False" by simp
    show ?thesis
      unfolding Let_def c_def [symmetric]
      unfolding alu_step_def SAR_EbR_def n_def [symmetric] and_masks_nat Let_def c z if_False
      unfolding shift_promoted xor_top
      unfolding shr_and_1 top_bit of_bool_xor
      using l l' False
      by (simp add: lf_get_set_OC lf_get_set_C lf_get_set_00 shift_flags_def LOGIC_8_ref write_upd_flags sar_bit)
  qed
qed

lemma SAR_16_handler:
  "let c = shift_count BX_IA_SAR_Ew i cpu; r = signed_drop_bit c (dst16 i cpu)
    in alu_step (BX_WRITE_16BIT_REG (i_dst i) r) (shift_flags c (bit (signed_drop_bit (c - 1) (dst16 i cpu)) 0) (False) r cpu) cpu (SAR_EwR i cpu)"
proof -
  define n where "n = (if i_op i = BX_IA_SAR_Ew then unat (CL cpu) else unat (i_Ib i))"
  define c where "c = shift_count BX_IA_SAR_Ew i cpu"
  have c: "n mod 32 = c" by (simp add: c_def shift_count_def n_def and_masks_nat)
  have l: "c < 32" unfolding c_def by (rule shift_count_lt)
  then have l': "c - Suc 0 < 32" "0 < c \<Longrightarrow> 16 - c < 32" by simp_all
  show ?thesis
  proof (cases "c = 0")
    case True
    then show ?thesis
      unfolding c_def [symmetric] Let_def
      by (simp add: alu_step_def SAR_EwR_def n_def [symmetric] and_masks_nat Let_def c
          BX_CLEAR_64BIT_HIGH_def shift_flags_def write_read)
  next
    case False
    then have z: "(c = 0) = False" by simp
    show ?thesis
      unfolding Let_def c_def [symmetric]
      unfolding alu_step_def SAR_EwR_def n_def [symmetric] and_masks_nat Let_def c z if_False
      unfolding shift_promoted xor_top
      unfolding shr_and_1 top_bit of_bool_xor
      using l l' False
      by (simp add: lf_get_set_OC lf_get_set_C lf_get_set_00 shift_flags_def LOGIC_16_ref write_upd_flags sar_bit)
  qed
qed

lemma SAR_32_handler:
  "let c = shift_count BX_IA_SAR_Ed i cpu; r = signed_drop_bit c (dst32 i cpu)
    in alu_step (BX_WRITE_32BIT_REGZ (i_dst i) r) (shift_flags c (bit (signed_drop_bit (c - 1) (dst32 i cpu)) 0) (False) r cpu) cpu (SAR_EdR i cpu)"
proof -
  define n where "n = (if i_op i = BX_IA_SAR_Ed then unat (CL cpu) else unat (i_Ib i))"
  define c where "c = shift_count BX_IA_SAR_Ed i cpu"
  have c: "n mod 32 = c" by (simp add: c_def shift_count_def n_def and_masks_nat)
  have l: "c < 32" unfolding c_def by (rule shift_count_lt)
  then have l': "c - Suc 0 < 32" "0 < c \<Longrightarrow> 32 - c < 32" by simp_all
  show ?thesis
  proof (cases "c = 0")
    case True
    then show ?thesis
      unfolding c_def [symmetric] Let_def
      by (simp add: alu_step_def SAR_EdR_def n_def [symmetric] and_masks_nat Let_def c
          BX_CLEAR_64BIT_HIGH_def shift_flags_def write_read)
  next
    case False
    then have z: "(c = 0) = False" by simp
    show ?thesis
      unfolding Let_def c_def [symmetric]
      unfolding alu_step_def SAR_EdR_def n_def [symmetric] and_masks_nat Let_def c z if_False
      unfolding xor_top
      unfolding shr_and_1 top_bit of_bool_xor
      using l l' False
      by (simp add: lf_get_set_OC lf_get_set_C lf_get_set_00 shift_flags_def LOGIC_32_ref write_upd_flags sar_bit)
  qed
qed

lemma if_of_bool: "(if b then of_bool p else of_bool q) = (of_bool (if b then p else q) :: 'a::zero_neq_one)"
  by simp


section \<open>Double shifts\<close>

lemma SHLD_32_handler:
  "let c = shift_count BX_IA_SHLD_EdGd i cpu; v = shl (ucast (dst32 i cpu)) 32 OR ucast (src32 i cpu) :: Bit64u;
      r = ucast (shr (shl v c) 32) :: Bit32u
    in alu_step (BX_WRITE_32BIT_REGZ (i_dst i) r) (shift_flags c (bit v (64 - c)) (bit v (64 - c) \<noteq> bit r 31) r cpu) cpu (SHLD_EdGdR i cpu)"
proof -
  define n where "n = (if i_op i = BX_IA_SHLD_EdGd then unat (CL cpu) else unat (i_Ib i))"
  define c where "c = shift_count BX_IA_SHLD_EdGd i cpu"
  define v where "v = (shl (ucast (dst32 i cpu)) 32 OR ucast (src32 i cpu) :: Bit64u)"
  have c: "n mod 32 = c" by (simp add: c_def shift_count_def n_def and_masks_nat)
  have l: "c < 32" unfolding c_def by (rule shift_count_lt)
  show ?thesis
  proof (cases "c = 0")
    case True
    have "ucast (shr (shl v c) 32) = dst32 i cpu"
      by (rule bit_word_eqI) (auto simp: v_def True bit_ucast_iff bit_drop_bit_eq bit_or_iff bit_push_bit_iff
          dest: bit_imp_le_length)
    then show ?thesis
      unfolding c_def [symmetric] v_def [symmetric] Let_def using True
      by (simp add: alu_step_def SHLD_EdGdR_def n_def [symmetric] and_masks_nat Let_def c
          BX_CLEAR_64BIT_HIGH_def shift_flags_def write_read)
  next
    case False
    then have z: "(c = 0) = False" by simp
    have R: "shl (dst32 i cpu) c OR shr (src32 i cpu) (32 - c) = ucast (shr (shl v c) 32)"
      using l False
      by (intro bit_word_eqI) (auto simp: v_def bit_ucast_iff bit_drop_bit_eq bit_or_iff bit_push_bit_iff
          add.commute [of _ c] dest: bit_imp_le_length)
    have F: "bit (dst32 i cpu) (32 - c) = bit v (64 - c)"
      using l False
      by (auto simp: v_def bit_ucast_iff bit_drop_bit_eq bit_or_iff bit_push_bit_iff
          add.commute [of _ c] dest: bit_imp_le_length)
    show ?thesis
      unfolding Let_def c_def [symmetric] v_def [symmetric]
      unfolding alu_step_def SHLD_EdGdR_def n_def [symmetric] and_masks_nat Let_def c z if_False
      unfolding R
      unfolding xor_top
      unfolding shr_and_1 top_bit of_bool_xor if_of_bool F
      using False
      by (simp add: lf_get_set_OC shift_flags_def LOGIC_32_ref)
  qed
qed

lemma SHLD_16_handler:
  "let c = shift_count BX_IA_SHLD_EwGw i cpu; v = shl (ucast (dst16 i cpu)) 32 OR shl (ucast (src16 i cpu)) 16 OR ucast (dst16 i cpu) :: 48 word;
      r = ucast (shr (shl v c) 32) :: Bit16u
    in alu_step (BX_WRITE_16BIT_REG (i_dst i) r) (shift_flags c (bit v (48 - c)) (bit v (48 - c) \<noteq> bit r 15) r cpu) cpu (SHLD_EwGwR i cpu)"
proof -
  define n where "n = (if i_op i = BX_IA_SHLD_EwGw then unat (CL cpu) else unat (i_Ib i))"
  define c where "c = shift_count BX_IA_SHLD_EwGw i cpu"
  define v where "v = (shl (ucast (dst16 i cpu)) 32 OR shl (ucast (src16 i cpu)) 16 OR ucast (dst16 i cpu) :: 48 word)"
  have c: "n mod 32 = c" by (simp add: c_def shift_count_def n_def and_masks_nat)
  have l: "c < 32" unfolding c_def by (rule shift_count_lt)
  show ?thesis
  proof (cases "c = 0")
    case True
    have "ucast (shr (shl v c) 32) = dst16 i cpu"
      by (rule bit_word_eqI) (auto simp: v_def True bit_ucast_iff bit_drop_bit_eq bit_or_iff bit_push_bit_iff
          dest: bit_imp_le_length)
    then show ?thesis
      unfolding c_def [symmetric] v_def [symmetric] Let_def using True
      by (simp add: alu_step_def SHLD_EwGwR_def n_def [symmetric] and_masks_nat Let_def c
          BX_CLEAR_64BIT_HIGH_def shift_flags_def write_read)
  next
    case False
    then have z: "(c = 0) = False" by simp
    have R: "ucast (shr (if 16 < c then shl (shl (ucast (dst16 i cpu)) 16 OR ucast (src16 i cpu)) c OR shl (ucast (dst16 i cpu)) (c - 16) else shl (shl (ucast (dst16 i cpu)) 16 OR ucast (src16 i cpu) :: Bit32u) c) 16) = (ucast (shr (shl v c) 32) :: Bit16u)"
      using l False
      by (intro bit_word_eqI) (auto simp: v_def bit_ucast_iff bit_drop_bit_eq bit_or_iff bit_push_bit_iff
          add.commute [of _ c] dest: bit_imp_le_length)
    have F: "bit (shl (ucast (dst16 i cpu)) 16 OR ucast (src16 i cpu) :: Bit32u) (32 - c) = bit v (48 - c)"
      using l False
      by (auto simp: v_def bit_ucast_iff bit_drop_bit_eq bit_or_iff bit_push_bit_iff
          add.commute [of _ c] dest: bit_imp_le_length)
    show ?thesis
      unfolding Let_def c_def [symmetric] v_def [symmetric]
      unfolding alu_step_def SHLD_EwGwR_def n_def [symmetric] and_masks_nat Let_def c z if_False
      unfolding R
      unfolding xor_top
      unfolding shr_and_1 top_bit of_bool_xor if_of_bool F
      using False
      by (simp add: lf_get_set_OC shift_flags_def LOGIC_16_ref)
  qed
qed

lemma SHRD_32_handler:
  "let c = shift_count BX_IA_SHRD_EdGd i cpu; v = shl (ucast (src32 i cpu)) 32 OR ucast (dst32 i cpu) :: Bit64u;
      r = ucast (shr v c) :: Bit32u
    in alu_step (BX_WRITE_32BIT_REGZ (i_dst i) r) (shift_flags c (bit v (c - 1)) (bit r 30 \<noteq> bit r 31) r cpu) cpu (SHRD_EdGdR i cpu)"
proof -
  define n where "n = (if i_op i = BX_IA_SHRD_EdGd then unat (CL cpu) else unat (i_Ib i))"
  define c where "c = shift_count BX_IA_SHRD_EdGd i cpu"
  define v where "v = (shl (ucast (src32 i cpu)) 32 OR ucast (dst32 i cpu) :: Bit64u)"
  have c: "n mod 32 = c" by (simp add: c_def shift_count_def n_def and_masks_nat)
  have l: "c < 32" unfolding c_def by (rule shift_count_lt)
  show ?thesis
  proof (cases "c = 0")
    case True
    have "ucast (shr v c) = dst32 i cpu"
      by (rule bit_word_eqI) (auto simp: v_def True bit_ucast_iff bit_drop_bit_eq bit_or_iff bit_push_bit_iff
          dest: bit_imp_le_length)
    then show ?thesis
      unfolding c_def [symmetric] v_def [symmetric] Let_def using True
      by (simp add: alu_step_def SHRD_EdGdR_def n_def [symmetric] and_masks_nat Let_def c
          BX_CLEAR_64BIT_HIGH_def shift_flags_def write_read)
  next
    case False
    then have z: "(c = 0) = False" by simp
    have R: "shl (src32 i cpu) (32 - c) OR shr (dst32 i cpu) c = ucast (shr v c)"
      using l False
      by (intro bit_word_eqI) (auto simp: v_def bit_ucast_iff bit_drop_bit_eq bit_or_iff bit_push_bit_iff
          add.commute [of _ c] dest: bit_imp_le_length)
    have F: "bit (dst32 i cpu) (c - 1) = bit v (c - 1)"
      using l False
      by (auto simp: v_def bit_ucast_iff bit_drop_bit_eq bit_or_iff bit_push_bit_iff
          add.commute [of _ c] dest: bit_imp_le_length)
    show ?thesis
      unfolding Let_def c_def [symmetric] v_def [symmetric]
      unfolding alu_step_def SHRD_EdGdR_def n_def [symmetric] and_masks_nat Let_def c z if_False
      unfolding R
      unfolding xor_top
      unfolding shr_and_1 top_bit of_bool_xor if_of_bool F
      using False
      by (simp add: lf_get_set_OC shift_flags_def LOGIC_32_ref)
  qed
qed

lemma SHRD_16_handler:
  "let c = shift_count BX_IA_SHRD_EwGw i cpu; v = shl (ucast (dst16 i cpu)) 32 OR shl (ucast (src16 i cpu)) 16 OR ucast (dst16 i cpu) :: 48 word;
      r = ucast (shr v c) :: Bit16u
    in alu_step (BX_WRITE_16BIT_REG (i_dst i) r) (shift_flags c (bit v (c - 1)) (bit r 14 \<noteq> bit r 15) r cpu) cpu (SHRD_EwGwR i cpu)"
proof -
  define n where "n = (if i_op i = BX_IA_SHRD_EwGw then unat (CL cpu) else unat (i_Ib i))"
  define c where "c = shift_count BX_IA_SHRD_EwGw i cpu"
  define v where "v = (shl (ucast (dst16 i cpu)) 32 OR shl (ucast (src16 i cpu)) 16 OR ucast (dst16 i cpu) :: 48 word)"
  have c: "n mod 32 = c" by (simp add: c_def shift_count_def n_def and_masks_nat)
  have l: "c < 32" unfolding c_def by (rule shift_count_lt)
  show ?thesis
  proof (cases "c = 0")
    case True
    have "ucast (shr v c) = dst16 i cpu"
      by (rule bit_word_eqI) (auto simp: v_def True bit_ucast_iff bit_drop_bit_eq bit_or_iff bit_push_bit_iff
          dest: bit_imp_le_length)
    then show ?thesis
      unfolding c_def [symmetric] v_def [symmetric] Let_def using True
      by (simp add: alu_step_def SHRD_EwGwR_def n_def [symmetric] and_masks_nat Let_def c
          BX_CLEAR_64BIT_HIGH_def shift_flags_def write_read)
  next
    case False
    then have z: "(c = 0) = False" by simp
    have R: "ucast (if 16 < c then shr (shl (ucast (src16 i cpu)) 16 OR ucast (dst16 i cpu)) c OR shl (ucast (dst16 i cpu)) (32 - c) else shr (shl (ucast (src16 i cpu)) 16 OR ucast (dst16 i cpu) :: Bit32u) c) = (ucast (shr v c) :: Bit16u)"
      using l False
      by (intro bit_word_eqI) (auto simp: v_def bit_ucast_iff bit_drop_bit_eq bit_or_iff bit_push_bit_iff
          add.commute [of _ c] dest: bit_imp_le_length)
    have F: "(if 16 < c then bit (ucast (src16 i cpu) :: Bit32u) (c - 17) else bit (ucast (dst16 i cpu) :: Bit32u) (c - 1)) = bit v (c - 1)"
      using l False
      by (auto simp: v_def bit_ucast_iff bit_drop_bit_eq bit_or_iff bit_push_bit_iff
          add.commute [of _ c] dest: bit_imp_le_length)
    show ?thesis
      unfolding Let_def c_def [symmetric] v_def [symmetric]
      unfolding alu_step_def SHRD_EwGwR_def n_def [symmetric] and_masks_nat Let_def c z if_False
      unfolding R
      unfolding xor_top
      unfolding shr_and_1 top_bit of_bool_xor if_of_bool F
      using False
      by (simp add: lf_get_set_OC shift_flags_def LOGIC_16_ref)
  qed
qed

section \<open>Correctness of the shift and rotate handlers\<close>

text \<open>
  C38. ROL and ROR on 8-, 16- and 32-bit registers rotate the destination by the count (CL or the
  immediate, modulo 32): CF is the bit that crossed the end, OF compares it with its neighbour,
  every other flag is kept, and a zero count changes nothing at all.
\<close>

theorem rotate_correct:
  "(let c = shift_count BX_IA_ROL_Eb i cpu; r = word_rotl c (dst8 i cpu)
    in alu_step (BX_WRITE_8BIT_REG (i_dst i) r) (rot_flags c (bit r 0) (bit r 0 \<noteq> bit r 7) cpu) cpu (ROL_EbR i cpu)) \<and>
   (let c = shift_count BX_IA_ROL_Ew i cpu; r = word_rotl c (dst16 i cpu)
    in alu_step (BX_WRITE_16BIT_REG (i_dst i) r) (rot_flags c (bit r 0) (bit r 0 \<noteq> bit r 15) cpu) cpu (ROL_EwR i cpu)) \<and>
   (let c = shift_count BX_IA_ROL_Ed i cpu; r = word_rotl c (dst32 i cpu)
    in alu_step (BX_WRITE_32BIT_REGZ (i_dst i) r) (rot_flags c (bit r 0) (bit r 0 \<noteq> bit r 31) cpu) cpu (ROL_EdR i cpu)) \<and>
   (let c = shift_count BX_IA_ROR_Eb i cpu; r = word_rotr c (dst8 i cpu)
    in alu_step (BX_WRITE_8BIT_REG (i_dst i) r) (rot_flags c (bit r 7) (bit r 6 \<noteq> bit r 7) cpu) cpu (ROR_EbR i cpu)) \<and>
   (let c = shift_count BX_IA_ROR_Ew i cpu; r = word_rotr c (dst16 i cpu)
    in alu_step (BX_WRITE_16BIT_REG (i_dst i) r) (rot_flags c (bit r 15) (bit r 14 \<noteq> bit r 15) cpu) cpu (ROR_EwR i cpu)) \<and>
   (let c = shift_count BX_IA_ROR_Ed i cpu; r = word_rotr c (dst32 i cpu)
    in alu_step (BX_WRITE_32BIT_REGZ (i_dst i) r) (rot_flags c (bit r 31) (bit r 30 \<noteq> bit r 31) cpu) cpu (ROR_EdR i cpu))"
  by (intro conjI) (fact ROL_8_handler ROL_16_handler ROL_32_handler ROR_8_handler ROR_16_handler ROR_32_handler)+

text \<open>
  C37. RCL and RCR rotate the word extended by the carry flag as its top bit, a 9-, 17- or 33-bit
  rotation: the low bits go to the destination and the top bit back to CF. The masked count may
  exceed the word; the code reduces it modulo 9 or 17 first.
\<close>

theorem rotate_through_carry_correct:
  "(let c = shift_count BX_IA_RCL_Eb i cpu;
      v = word_rotl c (carry_cat (CF cpu) (dst8 i cpu)) :: 9 word; r = ucast v :: Bit8u
    in alu_step (BX_WRITE_8BIT_REG (i_dst i) r) (rot_flags (c mod 9) (bit v 8) (bit v 8 \<noteq> bit r 7) cpu) cpu (RCL_EbR i cpu)) \<and>
   (let c = shift_count BX_IA_RCL_Ew i cpu;
      v = word_rotl c (carry_cat (CF cpu) (dst16 i cpu)) :: 17 word; r = ucast v :: Bit16u
    in alu_step (BX_WRITE_16BIT_REG (i_dst i) r) (rot_flags (c mod 17) (bit v 16) (bit v 16 \<noteq> bit r 15) cpu) cpu (RCL_EwR i cpu)) \<and>
   (let c = shift_count BX_IA_RCL_Ed i cpu;
      v = word_rotl c (carry_cat (CF cpu) (dst32 i cpu)) :: 33 word; r = ucast v :: Bit32u
    in alu_step (BX_WRITE_32BIT_REGZ (i_dst i) r) (rot_flags c (bit v 32) (bit v 32 \<noteq> bit r 31) cpu) cpu (RCL_EdR i cpu)) \<and>
   (let c = shift_count BX_IA_RCR_Eb i cpu;
      v = word_rotr c (carry_cat (CF cpu) (dst8 i cpu)) :: 9 word; r = ucast v :: Bit8u
    in alu_step (BX_WRITE_8BIT_REG (i_dst i) r) (rot_flags (c mod 9) (bit v 8) (bit r 6 \<noteq> bit r 7) cpu) cpu (RCR_EbR i cpu)) \<and>
   (let c = shift_count BX_IA_RCR_Ew i cpu;
      v = word_rotr c (carry_cat (CF cpu) (dst16 i cpu)) :: 17 word; r = ucast v :: Bit16u
    in alu_step (BX_WRITE_16BIT_REG (i_dst i) r) (rot_flags (c mod 17) (bit v 16) (bit r 14 \<noteq> bit r 15) cpu) cpu (RCR_EwR i cpu)) \<and>
   (let c = shift_count BX_IA_RCR_Ed i cpu;
      v = word_rotr c (carry_cat (CF cpu) (dst32 i cpu)) :: 33 word; r = ucast v :: Bit32u
    in alu_step (BX_WRITE_32BIT_REGZ (i_dst i) r) (rot_flags c (bit v 32) (bit r 30 \<noteq> bit r 31) cpu) cpu (RCR_EdR i cpu))"
  by (intro conjI) (fact RCL_8_handler RCL_16_handler RCL_32_handler RCR_8_handler RCR_16_handler RCR_32_handler)+

text \<open>
  C39. SHL, SHR and SAR shift the destination by the count (up to 31, also past the width of 8- and
  16-bit operands); CF is the last bit shifted out, OF the sign change of the last step, SF, ZF and
  PF describe the result, and a zero count changes neither the register nor the flags.
\<close>

theorem shift_correct:
  "(let c = shift_count BX_IA_SHL_Eb i cpu; r = shl (dst8 i cpu) c
    in alu_step (BX_WRITE_8BIT_REG (i_dst i) r) (shift_flags c (c \<le> 8 \<and> bit (dst8 i cpu) (8 - c)) ((c \<le> 8 \<and> bit (dst8 i cpu) (8 - c)) \<noteq> bit r 7) r cpu) cpu (SHL_EbR i cpu)) \<and>
   (let c = shift_count BX_IA_SHL_Ew i cpu; r = shl (dst16 i cpu) c
    in alu_step (BX_WRITE_16BIT_REG (i_dst i) r) (shift_flags c (c \<le> 16 \<and> bit (dst16 i cpu) (16 - c)) ((c \<le> 16 \<and> bit (dst16 i cpu) (16 - c)) \<noteq> bit r 15) r cpu) cpu (SHL_EwR i cpu)) \<and>
   (let c = shift_count BX_IA_SHL_Ed i cpu; r = shl (dst32 i cpu) c
    in alu_step (BX_WRITE_32BIT_REGZ (i_dst i) r) (shift_flags c (c \<le> 32 \<and> bit (dst32 i cpu) (32 - c)) ((c \<le> 32 \<and> bit (dst32 i cpu) (32 - c)) \<noteq> bit r 31) r cpu) cpu (SHL_EdR i cpu)) \<and>
   (let c = shift_count BX_IA_SHR_Eb i cpu; r = shr (dst8 i cpu) c
    in alu_step (BX_WRITE_8BIT_REG (i_dst i) r) (shift_flags c (bit (dst8 i cpu) (c - 1)) (bit r 6 \<noteq> bit r 7) r cpu) cpu (SHR_EbR i cpu)) \<and>
   (let c = shift_count BX_IA_SHR_Ew i cpu; r = shr (dst16 i cpu) c
    in alu_step (BX_WRITE_16BIT_REG (i_dst i) r) (shift_flags c (bit (dst16 i cpu) (c - 1)) (bit r 14 \<noteq> bit r 15) r cpu) cpu (SHR_EwR i cpu)) \<and>
   (let c = shift_count BX_IA_SHR_Ed i cpu; r = shr (dst32 i cpu) c
    in alu_step (BX_WRITE_32BIT_REGZ (i_dst i) r) (shift_flags c (bit (dst32 i cpu) (c - 1)) (bit r 30 \<noteq> bit r 31) r cpu) cpu (SHR_EdR i cpu)) \<and>
   (let c = shift_count BX_IA_SAR_Eb i cpu; r = signed_drop_bit c (dst8 i cpu)
    in alu_step (BX_WRITE_8BIT_REG (i_dst i) r) (shift_flags c (bit (signed_drop_bit (c - 1) (dst8 i cpu)) 0) (False) r cpu) cpu (SAR_EbR i cpu)) \<and>
   (let c = shift_count BX_IA_SAR_Ew i cpu; r = signed_drop_bit c (dst16 i cpu)
    in alu_step (BX_WRITE_16BIT_REG (i_dst i) r) (shift_flags c (bit (signed_drop_bit (c - 1) (dst16 i cpu)) 0) (False) r cpu) cpu (SAR_EwR i cpu)) \<and>
   (let c = shift_count BX_IA_SAR_Ed i cpu; r = signed_drop_bit c (dst32 i cpu)
    in alu_step (BX_WRITE_32BIT_REGZ (i_dst i) r) (shift_flags c (bit (signed_drop_bit (c - 1) (dst32 i cpu)) 0) (False) r cpu) cpu (SAR_EdR i cpu))"
  by (intro conjI) (fact SHL_8_handler SHL_16_handler SHL_32_handler SHR_8_handler SHR_16_handler SHR_32_handler SAR_8_handler SAR_16_handler SAR_32_handler)+

text \<open>
  SHLD and SHRD shift the concatenation of destination and source; for 16-bit operands and counts
  above 16 the code's extra step makes the value the shift of the 48-bit word dst:src:dst.
\<close>

theorem double_shift_correct:
  "(let c = shift_count BX_IA_SHLD_EdGd i cpu; v = shl (ucast (dst32 i cpu)) 32 OR ucast (src32 i cpu) :: Bit64u;
      r = ucast (shr (shl v c) 32) :: Bit32u
    in alu_step (BX_WRITE_32BIT_REGZ (i_dst i) r) (shift_flags c (bit v (64 - c)) (bit v (64 - c) \<noteq> bit r 31) r cpu) cpu (SHLD_EdGdR i cpu)) \<and>
   (let c = shift_count BX_IA_SHLD_EwGw i cpu; v = shl (ucast (dst16 i cpu)) 32 OR shl (ucast (src16 i cpu)) 16 OR ucast (dst16 i cpu) :: 48 word;
      r = ucast (shr (shl v c) 32) :: Bit16u
    in alu_step (BX_WRITE_16BIT_REG (i_dst i) r) (shift_flags c (bit v (48 - c)) (bit v (48 - c) \<noteq> bit r 15) r cpu) cpu (SHLD_EwGwR i cpu)) \<and>
   (let c = shift_count BX_IA_SHRD_EdGd i cpu; v = shl (ucast (src32 i cpu)) 32 OR ucast (dst32 i cpu) :: Bit64u;
      r = ucast (shr v c) :: Bit32u
    in alu_step (BX_WRITE_32BIT_REGZ (i_dst i) r) (shift_flags c (bit v (c - 1)) (bit r 30 \<noteq> bit r 31) r cpu) cpu (SHRD_EdGdR i cpu)) \<and>
   (let c = shift_count BX_IA_SHRD_EwGw i cpu; v = shl (ucast (dst16 i cpu)) 32 OR shl (ucast (src16 i cpu)) 16 OR ucast (dst16 i cpu) :: 48 word;
      r = ucast (shr v c) :: Bit16u
    in alu_step (BX_WRITE_16BIT_REG (i_dst i) r) (shift_flags c (bit v (c - 1)) (bit r 14 \<noteq> bit r 15) r cpu) cpu (SHRD_EwGwR i cpu))"
  by (intro conjI) (fact SHLD_32_handler SHLD_16_handler SHRD_32_handler SHRD_16_handler)+

text \<open>What an ALU step leaves in the register it writes.\<close>

lemma alu_read:
  "alu_step (BX_WRITE_8BIT_REG k r8) fl cpu cpu' \<Longrightarrow> BX_READ_8BIT_REG k cpu' = r8"
  "alu_step (BX_WRITE_16BIT_REG k r16) fl cpu cpu' \<Longrightarrow> BX_READ_16BIT_REG k cpu' = r16"
  "alu_step (BX_WRITE_32BIT_REGZ k r32) fl cpu cpu' \<Longrightarrow> BX_READ_32BIT_REG k cpu' = r32"
  by (auto simp: alu_step_def cpu_simps)

lemmas shift_reads =
  SHL_8_handler [unfolded Let_def, THEN alu_read(1)]
  SHL_16_handler [unfolded Let_def, THEN alu_read(2)]
  SHL_32_handler [unfolded Let_def, THEN alu_read(3)]
  SHR_8_handler [unfolded Let_def, THEN alu_read(1)]
  SHR_16_handler [unfolded Let_def, THEN alu_read(2)]
  SHR_32_handler [unfolded Let_def, THEN alu_read(3)]
  SAR_8_handler [unfolded Let_def, THEN alu_read(1)]
  SAR_16_handler [unfolded Let_def, THEN alu_read(2)]
  SAR_32_handler [unfolded Let_def, THEN alu_read(3)]

lemma shift_values:
  fixes x :: "'n::len word"
  shows "uint (shl x c) = uint x * 2 ^ c mod 2 ^ LENGTH('n)" "uint (shr x c) = uint x div 2 ^ c"
    "sint (signed_drop_bit c x) = sint x div 2 ^ c"
proof -
  show "uint (shl x c) = uint x * 2 ^ c mod 2 ^ LENGTH('n)"
    unfolding unsigned_push_bit_eq take_bit_eq_mod by (simp add: push_bit_eq_mult)
  show "uint (shr x c) = uint x div 2 ^ c"
    unfolding unsigned_drop_bit_eq by (simp add: drop_bit_eq_div)
  show "sint (signed_drop_bit c x) = sint x div 2 ^ c"
    unfolding sint_signed_drop_bit_eq drop_bit_eq_div by (rule refl)
qed

text \<open>
  A shift is arithmetic: SHL leaves the product with a power of two modulo the width, SHR
  the quotient of the unsigned value and SAR the quotient of the signed value, rounded down.
\<close>

theorem shift_arithmetic:
  "(uint (dst8 i (SHL_EbR i cpu)) = uint (dst8 i cpu) * 2 ^ shift_count BX_IA_SHL_Eb i cpu mod 2 ^ 8) \<and>
   (uint (dst16 i (SHL_EwR i cpu)) = uint (dst16 i cpu) * 2 ^ shift_count BX_IA_SHL_Ew i cpu mod 2 ^ 16) \<and>
   (uint (dst32 i (SHL_EdR i cpu)) = uint (dst32 i cpu) * 2 ^ shift_count BX_IA_SHL_Ed i cpu mod 2 ^ 32) \<and>
   (uint (dst8 i (SHR_EbR i cpu)) = uint (dst8 i cpu) div 2 ^ shift_count BX_IA_SHR_Eb i cpu) \<and>
   (uint (dst16 i (SHR_EwR i cpu)) = uint (dst16 i cpu) div 2 ^ shift_count BX_IA_SHR_Ew i cpu) \<and>
   (uint (dst32 i (SHR_EdR i cpu)) = uint (dst32 i cpu) div 2 ^ shift_count BX_IA_SHR_Ed i cpu) \<and>
   (sint (dst8 i (SAR_EbR i cpu)) = sint (dst8 i cpu) div 2 ^ shift_count BX_IA_SAR_Eb i cpu) \<and>
   (sint (dst16 i (SAR_EwR i cpu)) = sint (dst16 i cpu) div 2 ^ shift_count BX_IA_SAR_Ew i cpu) \<and>
   (sint (dst32 i (SAR_EdR i cpu)) = sint (dst32 i cpu) div 2 ^ shift_count BX_IA_SAR_Ed i cpu)"
  by (simp add: shift_reads shift_values)

lemmas rotate_steps =
  ROL_8_handler [unfolded Let_def, THEN alu_read(1)]
  ROL_16_handler [unfolded Let_def, THEN alu_read(2)]
  ROL_32_handler [unfolded Let_def, THEN alu_read(3)]
  ROR_8_handler [unfolded Let_def, THEN alu_read(1)]
  ROR_16_handler [unfolded Let_def, THEN alu_read(2)]
  ROR_32_handler [unfolded Let_def, THEN alu_read(3)]

lemma shift_count_imm: "i_op i = BX_IA_OTHER \<Longrightarrow> op \<noteq> BX_IA_OTHER \<Longrightarrow> shift_count op i cpu = unat (i_Ib i) AND 0x1f"
  by (simp add: shift_count_def)

text \<open>
  With the same immediate count, ROR undoes ROL and ROL undoes ROR at every operand size:
  the destination register holds its old value again.
\<close>

theorem rotate_roundtrip:
  assumes "i_op i = BX_IA_OTHER"
  shows "(dst8 i (ROR_EbR i (ROL_EbR i cpu)) = dst8 i cpu) \<and>
   (dst16 i (ROR_EwR i (ROL_EwR i cpu)) = dst16 i cpu) \<and>
   (dst32 i (ROR_EdR i (ROL_EdR i cpu)) = dst32 i cpu) \<and>
   (dst8 i (ROL_EbR i (ROR_EbR i cpu)) = dst8 i cpu) \<and>
   (dst16 i (ROL_EwR i (ROR_EwR i cpu)) = dst16 i cpu) \<and>
   (dst32 i (ROL_EdR i (ROR_EdR i cpu)) = dst32 i cpu)"
  by (simp add: rotate_steps shift_count_imm [OF assms])

lemma rotate_roundtrip_witness:
  "i_op (sample_instr 0 0) = BX_IA_OTHER \<and>
   dst32 (sample_instr 0 0) (ROR_EdR (sample_instr 0 0) (ROL_EdR (sample_instr 0 0) sample_cpu)) = 0xFFFFFFFF"
  using rotate_roundtrip [of "sample_instr 0 0" sample_cpu]
  by (simp add: sample_instr_def sample_cpu_def BX_READ_32BIT_REG_def)

end
