(* ===== verification/Pit.thy ===== *)
theory Pit
  imports Prelude
begin

text \<open>
  The 82C54 interval timer of iodev/pit82c54.cc, one record per counter with the fields of
  \<open>counter_type\<close>; flags of type \<open>bx_bool\<close> are booleans. A counter's OUT callback is a
  function pointer of its owner: here \<open>out_handler\<close> says whether one is installed and
  \<open>out_calls\<close> lists the values it was called with, oldest first. Error messages
  (BX_ERROR) are logging only, and \<open>seen_problems\<close>, which nothing but such a message
  reads, is left out.
\<close>

section \<open>State\<close>

datatype rw_status = LSByte | MSByte | LSByte_multiple | MSByte_multiple

record counter_type =
  GATE :: bool
  OUTpin :: bool
  count :: Bit32u
  outlatch :: Bit16u
  inlatch :: Bit16u
  status_latch :: Bit8u
  rw_mode :: Bit8u
  mode :: Bit8u
  bcd_mode :: bool
  null_count :: bool
  count_LSB_latched :: bool
  count_MSB_latched :: bool
  status_latched :: bool
  count_binary :: Bit32u
  triggerGATE :: bool
  write_state :: rw_status
  read_state :: rw_status
  count_written :: bool
  first_pass :: bool
  state_bit_1 :: bool
  state_bit_2 :: bool
  next_change_time :: Bit32u
  out_handler :: bool
  out_calls :: "bool list"

record pit_82C54 =
  counter :: "nat \<Rightarrow> counter_type"
  controlword :: Bit8u

definition MAX_COUNTER :: nat where "MAX_COUNTER = 2"
definition MAX_ADDRESS :: Bit8u where "MAX_ADDRESS = 3"
definition CONTROL_ADDRESS :: Bit8u where "CONTROL_ADDRESS = 3"

abbreviation upd_counter :: "nat \<Rightarrow> (counter_type \<Rightarrow> counter_type) \<Rightarrow> pit_82C54 \<Rightarrow> pit_82C54" where
  "upd_counter n f s \<equiv> s\<lparr>counter := (counter s)(n := f (counter s n))\<rparr>"

section \<open>Counter primitives\<close>

definition latch_counter :: "counter_type \<Rightarrow> counter_type" where
  "latch_counter c =
    (if count_LSB_latched c \<or> count_MSB_latched c then c
     else case read_state c of
       MSByte \<Rightarrow> c\<lparr>outlatch := ucast (count c AND 0xFFFF), count_MSB_latched := True\<rparr>
     | LSByte \<Rightarrow> c\<lparr>outlatch := ucast (count c AND 0xFFFF), count_LSB_latched := True\<rparr>
     | LSByte_multiple \<Rightarrow> c\<lparr>outlatch := ucast (count c AND 0xFFFF),
         count_LSB_latched := True, count_MSB_latched := True\<rparr>
     | MSByte_multiple \<Rightarrow> c\<lparr>read_state := LSByte_multiple, outlatch := ucast (count c AND 0xFFFF),
         count_LSB_latched := True, count_MSB_latched := True\<rparr>)"

definition set_OUT :: "bool \<Rightarrow> counter_type \<Rightarrow> counter_type" where
  "set_OUT data c =
    (if OUTpin c \<noteq> data
     then (let c = c\<lparr>OUTpin := data\<rparr>
           in if out_handler c then c\<lparr>out_calls := out_calls c @ [data]\<rparr> else c)
     else c)"

definition set_count_to_binary :: "counter_type \<Rightarrow> counter_type" where
  "set_count_to_binary c =
    (if bcd_mode c then
       c\<lparr>count := shl (count_binary c div 1 mod 10) 0 OR shl (count_binary c div 10 mod 10) 4 OR
          shl (count_binary c div 100 mod 10) 8 OR shl (count_binary c div 1000 mod 10) 12\<rparr>
     else c\<lparr>count := count_binary c\<rparr>)"

definition set_binary_to_count :: "counter_type \<Rightarrow> counter_type" where
  "set_binary_to_count c =
    (if bcd_mode c then
       c\<lparr>count_binary := 1 * (shr (count c) 0 AND 0xF) + 10 * (shr (count c) 4 AND 0xF) +
          100 * (shr (count c) 8 AND 0xF) + 1000 * (shr (count c) 12 AND 0xF)\<rparr>
     else c\<lparr>count_binary := count c\<rparr>)"

definition set_count :: "Bit32u \<Rightarrow> counter_type \<Rightarrow> counter_type" where
  "set_count data c = set_binary_to_count (c\<lparr>count := data AND 0xFFFF\<rparr>)"

definition decrement :: "counter_type \<Rightarrow> counter_type" where
  "decrement c =
    (if count c = 0
     then (if bcd_mode c then c\<lparr>count := 0x9999, count_binary := 9999\<rparr>
           else c\<lparr>count := 0xFFFF, count_binary := 0xFFFF\<rparr>)
     else set_count_to_binary (c\<lparr>count_binary := count_binary c - 1\<rparr>))"

text \<open>\<open>init\<close> leaves the latches of a counter as they are.\<close>

definition init_counter :: "counter_type \<Rightarrow> counter_type" where
  "init_counter c = c\<lparr>read_state := LSByte, write_state := LSByte, GATE := True, OUTpin := True,
     triggerGATE := False, mode := 4, first_pass := False, bcd_mode := False, count := 0,
     count_binary := 0, state_bit_1 := False, state_bit_2 := False, null_count := False,
     rw_mode := 1, count_written := True, count_LSB_latched := False, count_MSB_latched := False,
     status_latched := False, next_change_time := 0, out_handler := False\<rparr>"

definition pit_init :: "pit_82C54 \<Rightarrow> pit_82C54" where
  "pit_init s = s\<lparr>counter := (\<lambda>i. if i < 3 then init_counter (counter s i) else counter s i)\<rparr>"

function decrement_multiple :: "Bit32u \<Rightarrow> counter_type \<Rightarrow> counter_type" where
  "decrement_multiple cycles c =
    (if cycles > 0 then
       (if cycles \<le> count_binary c
        then decrement_multiple (cycles - cycles)
               (set_count_to_binary (c\<lparr>count_binary := count_binary c - cycles\<rparr>))
        else decrement_multiple (cycles - (count_binary c + 1))
               (decrement (set_count_to_binary (c\<lparr>count_binary := count_binary c - count_binary c\<rparr>))))
     else c)"
  by auto

lemma minus_below:
  fixes n b :: "'a::len word"
  assumes "b < n"
  shows "unat (n - (b + 1)) = unat n - (unat b + 1)" "unat n - (unat b + 1) < unat n"
proof -
  have b: "unat b < unat n" "unat n < 2 ^ LENGTH('a)" using assms by (simp_all add: word_less_nat_alt)
  then have "unat b + 1 < 2 ^ LENGTH('a)" by linarith
  then have "unat (b + 1) = unat b + 1" by (simp add: unat_word_ariths mod_less)
  moreover from this b have "b + 1 \<le> n" by (simp add: word_le_nat_alt)
  ultimately show "unat (n - (b + 1)) = unat n - (unat b + 1)" by (simp add: unat_sub)
  show "unat n - (unat b + 1) < unat n" using b by simp
qed

termination decrement_multiple
  by (relation "measure (\<lambda>(n, _). unat n)") (auto simp: not_le minus_below unat_gt_0)

declare decrement_multiple.simps [simp del]

section \<open>One clock of a counter\<close>

text \<open>\<open>clock\<close>, one definition for each mode of its switch.\<close>

definition clock_mode0 :: "counter_type \<Rightarrow> counter_type" where
  "clock_mode0 c =
    (let c =
       (if count_written c then
          (if null_count c then
             (let c = set_count (ucast (inlatch c)) c;
                  c = (if GATE c then
                         (if count_binary c = 0 then c\<lparr>next_change_time := 1\<rparr>
                          else c\<lparr>next_change_time := count_binary c AND 0xFFFF\<rparr>)
                       else c\<lparr>next_change_time := 0\<rparr>)
              in c\<lparr>null_count := False\<rparr>)
           else if GATE c \<and> write_state c \<noteq> MSByte_multiple then
             (let c = decrement c
              in if \<not> OUTpin c then
                   (let c = c\<lparr>next_change_time := count_binary c AND 0xFFFF\<rparr>
                    in if count c = 0 then set_OUT True c else c)
                 else c\<lparr>next_change_time := 0\<rparr>)
           else c\<lparr>next_change_time := 0\<rparr>)
        else c\<lparr>next_change_time := 0\<rparr>)
     in c\<lparr>triggerGATE := False\<rparr>)"

definition clock_mode1 :: "counter_type \<Rightarrow> counter_type" where
  "clock_mode1 c =
    (let c =
       (if count_written c then
          (if triggerGATE c then
             (let c = set_count (ucast (inlatch c)) c;
                  c = (if count_binary c = 0 then c\<lparr>next_change_time := 1\<rparr>
                       else c\<lparr>next_change_time := count_binary c AND 0xFFFF\<rparr>);
                  c = c\<lparr>null_count := False\<rparr>
              in set_OUT False c)
           else
             (let c = decrement c
              in if \<not> OUTpin c then
                   (let c = (if count_binary c = 0 then c\<lparr>next_change_time := 1\<rparr>
                             else c\<lparr>next_change_time := count_binary c AND 0xFFFF\<rparr>)
                    in if count c = 0 then set_OUT True c else c)
                 else c\<lparr>next_change_time := 0\<rparr>))
        else c\<lparr>next_change_time := 0\<rparr>)
     in c\<lparr>triggerGATE := False\<rparr>)"

definition clock_mode2 :: "counter_type \<Rightarrow> counter_type" where
  "clock_mode2 c =
    (let c =
       (if count_written c then
          (if triggerGATE c \<or> first_pass c then
             (let c = set_count (ucast (inlatch c)) c;
                  c = c\<lparr>next_change_time := (count_binary c - 1) AND 0xFFFF\<rparr>;
                  c = c\<lparr>null_count := False\<rparr>;
                  c = (if \<not> OUTpin c then set_OUT True c else c)
              in c\<lparr>first_pass := False\<rparr>)
           else if GATE c then
             (let c = decrement c;
                  c = c\<lparr>next_change_time := (count_binary c - 1) AND 0xFFFF\<rparr>
              in if count c = 1 then
                   (let c = c\<lparr>next_change_time := 1\<rparr>; c = set_OUT False c
                    in c\<lparr>first_pass := True\<rparr>)
                 else c)
           else c\<lparr>next_change_time := 0\<rparr>)
        else c\<lparr>next_change_time := 0\<rparr>)
     in c\<lparr>triggerGATE := False\<rparr>)"

definition clock_mode3 :: "counter_type \<Rightarrow> counter_type" where
  "clock_mode3 c =
    (let c =
       (if count_written c then
          (if (triggerGATE c \<or> first_pass c \<or> state_bit_2 c) \<and> GATE c then
             (let c = set_count (ucast (inlatch c AND 0xFFFE)) c;
                  c = c\<lparr>state_bit_1 := (inlatch c AND 0x1 \<noteq> 0)\<rparr>;
                  c = (if \<not> OUTpin c \<or> \<not> state_bit_1 c then
                         (if count_binary c div 2 - 1 = 0 then c\<lparr>next_change_time := 1\<rparr>
                          else c\<lparr>next_change_time := (count_binary c div 2 - 1) AND 0xFFFF\<rparr>)
                       else
                         (if count_binary c div 2 = 0 then c\<lparr>next_change_time := 1\<rparr>
                          else c\<lparr>next_change_time := (count_binary c div 2) AND 0xFFFF\<rparr>));
                  c = c\<lparr>null_count := False\<rparr>;
                  c = (if \<not> OUTpin c then set_OUT True c
                       else if OUTpin c \<and> \<not> first_pass c then set_OUT False c
                       else c)
              in c\<lparr>state_bit_2 := False, first_pass := False\<rparr>)
           else if GATE c then
             (let c = decrement c;
                  c = decrement c;
                  c = (if \<not> OUTpin c \<or> \<not> state_bit_1 c
                       then c\<lparr>next_change_time := (count_binary c div 2 - 1) AND 0xFFFF\<rparr>
                       else c\<lparr>next_change_time := (count_binary c div 2) AND 0xFFFF\<rparr>);
                  c = (if count c = 0 then c\<lparr>state_bit_2 := True, next_change_time := 1\<rparr> else c)
              in if count c = 2 \<and> (\<not> OUTpin c \<or> \<not> state_bit_1 c)
                 then c\<lparr>state_bit_2 := True, next_change_time := 1\<rparr> else c)
           else c\<lparr>next_change_time := 0\<rparr>)
        else c\<lparr>next_change_time := 0\<rparr>)
     in c\<lparr>triggerGATE := False\<rparr>)"

text \<open>The counting branch that modes 4 and 5 end with.\<close>

definition clock_strobe :: "counter_type \<Rightarrow> counter_type" where
  "clock_strobe c =
    (let c = decrement c
     in if first_pass c then
          (let c = c\<lparr>next_change_time := count_binary c AND 0xFFFF\<rparr>
           in if count c = 0 then (set_OUT False c)\<lparr>next_change_time := 1, first_pass := False\<rparr>
              else c)
        else c\<lparr>next_change_time := 0\<rparr>)"

definition clock_mode4 :: "counter_type \<Rightarrow> counter_type" where
  "clock_mode4 c =
    (let c =
       (if count_written c then
          (let c = (if \<not> OUTpin c then set_OUT True c else c)
           in if null_count c then
                (let c = set_count (ucast (inlatch c)) c;
                     c = (if GATE c then
                            (if count_binary c = 0 then c\<lparr>next_change_time := 1\<rparr>
                             else c\<lparr>next_change_time := count_binary c AND 0xFFFF\<rparr>)
                          else c\<lparr>next_change_time := 0\<rparr>)
                 in c\<lparr>null_count := False, first_pass := True\<rparr>)
              else if GATE c then clock_strobe c
              else c\<lparr>next_change_time := 0\<rparr>)
        else c\<lparr>next_change_time := 0\<rparr>)
     in c\<lparr>triggerGATE := False\<rparr>)"

definition clock_mode5 :: "counter_type \<Rightarrow> counter_type" where
  "clock_mode5 c =
    (let c =
       (if count_written c then
          (let c = (if \<not> OUTpin c then set_OUT True c else c)
           in if triggerGATE c then
                (let c = set_count (ucast (inlatch c)) c;
                     c = (if count_binary c = 0 then c\<lparr>next_change_time := 1\<rparr>
                          else c\<lparr>next_change_time := count_binary c AND 0xFFFF\<rparr>)
                 in c\<lparr>null_count := False, first_pass := True\<rparr>)
              else clock_strobe c)
        else c\<lparr>next_change_time := 0\<rparr>)
     in c\<lparr>triggerGATE := False\<rparr>)"

definition clock_counter :: "counter_type \<Rightarrow> counter_type" where
  "clock_counter c =
    (if mode c = 0 then clock_mode0 c
     else if mode c = 1 then clock_mode1 c
     else if mode c = 2 then clock_mode2 c
     else if mode c = 3 then clock_mode3 c
     else if mode c = 4 then clock_mode4 c
     else if mode c = 5 then clock_mode5 c
     else c\<lparr>next_change_time := 0, triggerGATE := False\<rparr>)"

definition clock :: "nat \<Rightarrow> pit_82C54 \<Rightarrow> pit_82C54" where
  "clock cnum s = (if cnum > MAX_COUNTER then s else upd_counter cnum clock_counter s)"

section \<open>Clocking many cycles\<close>

text \<open>
  The loop of \<open>clock_multiple\<close> on one counter. Its calls of \<open>clock(cnum)\<close> act on the same
  counter.
\<close>

function clock_multiple_counter :: "Bit32u \<Rightarrow> counter_type \<Rightarrow> counter_type" where
  "clock_multiple_counter cycles c =
    (if cycles > 0 then
       (if next_change_time c = 0 then
          (let c =
             (if count_written c then
                (if mode c = 0 then
                   (if GATE c \<and> write_state c \<noteq> MSByte_multiple then decrement_multiple cycles c else c)
                 else if mode c = 1 then decrement_multiple cycles c
                 else if mode c = 2 then
                   (if \<not> first_pass c \<and> GATE c then decrement_multiple cycles c else c)
                 else if mode c = 3 then
                   (if \<not> first_pass c \<and> GATE c then decrement_multiple (2 * cycles) c else c)
                 else if mode c = 4 then (if GATE c then decrement_multiple cycles c else c)
                 else if mode c = 5 then decrement_multiple cycles c
                 else c)
              else c)
           in clock_multiple_counter (cycles - cycles) c)
        else if mode c = 0 \<or> mode c = 1 \<or> mode c = 2 \<or> mode c = 4 \<or> mode c = 5 then
          (if next_change_time c > cycles
           then (let c = decrement_multiple cycles c;
                     c = c\<lparr>next_change_time := next_change_time c - cycles\<rparr>
                 in clock_multiple_counter (cycles - cycles) c)
           else clock_multiple_counter (cycles - next_change_time c)
                  (clock_counter (decrement_multiple (next_change_time c - 1) c)))
        else if mode c = 3 then
          (if next_change_time c > cycles
           then (let c = decrement_multiple (cycles * 2) c;
                     c = c\<lparr>next_change_time := next_change_time c - cycles\<rparr>
                 in clock_multiple_counter (cycles - cycles) c)
           else clock_multiple_counter (cycles - next_change_time c)
                  (clock_counter (decrement_multiple ((next_change_time c - 1) * 2) c)))
        else clock_multiple_counter (cycles - cycles) c)
     else c)"
  by auto

termination clock_multiple_counter
  by (relation "measure (\<lambda>(n, _). unat n)")
     (auto simp: not_less unat_sub word_le_nat_alt unat_gt_0 word_less_nat_alt)

declare clock_multiple_counter.simps [simp del]

definition clock_multiple :: "nat \<Rightarrow> Bit32u \<Rightarrow> pit_82C54 \<Rightarrow> pit_82C54" where
  "clock_multiple cnum cycles s =
    (if cnum > MAX_COUNTER then s else upd_counter cnum (clock_multiple_counter cycles) s)"

definition clock_all :: "Bit32u \<Rightarrow> pit_82C54 \<Rightarrow> pit_82C54" where
  "clock_all cycles s =
    (let s = clock_multiple 0 cycles s;
         s = clock_multiple 1 cycles s
     in clock_multiple 2 cycles s)"

section \<open>Register access\<close>

definition rw_code :: "rw_status \<Rightarrow> Bit8u" where
  "rw_code r = (case r of LSByte \<Rightarrow> 0 | MSByte \<Rightarrow> 1 | LSByte_multiple \<Rightarrow> 2 | MSByte_multiple \<Rightarrow> 3)"

text \<open>Reading one counter; the data byte and the state after the read.\<close>

definition read_counter :: "counter_type \<Rightarrow> Bit8u \<times> counter_type" where
  "read_counter c =
    (if status_latched c then
       (if count_MSB_latched c \<and> read_state c = MSByte_multiple then (0, c)
        else (status_latch c, c\<lparr>status_latched := False\<rparr>))
     else if count_LSB_latched c then
       (let c = (if read_state c = LSByte_multiple then c\<lparr>read_state := MSByte_multiple\<rparr> else c);
            c = c\<lparr>count_LSB_latched := False\<rparr>
        in (ucast (outlatch c AND 0xFF), c))
     else if count_MSB_latched c then
       (let c = (if read_state c = MSByte_multiple then c\<lparr>read_state := LSByte_multiple\<rparr> else c);
            c = c\<lparr>count_MSB_latched := False\<rparr>
        in (ucast (shr (outlatch c) 8 AND 0xFF), c))
     else if rw_code (read_state c) AND 0x1 = 0 then
       (let c = (if read_state c = LSByte_multiple then c\<lparr>read_state := MSByte_multiple\<rparr> else c)
        in (ucast (count c AND 0xFF), c))
     else
       (let c = (if read_state c = MSByte_multiple then c\<lparr>read_state := LSByte_multiple\<rparr> else c)
        in (ucast (shr (count c) 8 AND 0xFF), c)))"

definition pit_read :: "Bit8u \<Rightarrow> pit_82C54 \<Rightarrow> Bit8u \<times> pit_82C54" where
  "pit_read address s =
    (if address > MAX_ADDRESS then (0, s)
     else if address = CONTROL_ADDRESS then (0, s)
     else
       (let n = unat address; (v, c) = read_counter (counter s n)
        in (v, upd_counter n (\<lambda>_. c) s)))"

definition latch_status :: "counter_type \<Rightarrow> counter_type" where
  "latch_status c =
    (if status_latched c then c
     else c\<lparr>status_latch :=
              shl (of_bool (OUTpin c) AND 0x1) 7 OR shl (of_bool (null_count c) AND 0x1) 6 OR
              shl (rw_mode c AND 0x3) 4 OR shl (mode c AND 0x7) 1 OR (of_bool (bcd_mode c) AND 0x1),
            status_latched := True\<rparr>)"

definition read_back :: "Bit8u \<Rightarrow> counter_type \<Rightarrow> counter_type" where
  "read_back cw c =
    (let c = (if shr cw 5 AND 1 = 0 then latch_counter c else c)
     in if shr cw 4 AND 1 = 0 then latch_status c else c)"

fun read_back_all :: "Bit8u \<Rightarrow> Bit8u \<Rightarrow> nat list \<Rightarrow> pit_82C54 \<Rightarrow> pit_82C54" where
  "read_back_all cw M [] s = s"
| "read_back_all cw M (i # is) s =
    read_back_all cw M is
      (if shr M i AND 0x1 \<noteq> 0 then upd_counter i (read_back cw) s else s)"

definition program_counter :: "Bit8u \<Rightarrow> Bit8u \<Rightarrow> Bit8u \<Rightarrow> counter_type \<Rightarrow> counter_type" where
  "program_counter RW M BCD c =
    (let c = c\<lparr>null_count := True, count_LSB_latched := False, count_MSB_latched := False,
           status_latched := False, inlatch := 0, count_written := False, first_pass := True,
           rw_mode := RW, bcd_mode := (BCD > 0), mode := M\<rparr>;
         c = (if RW = 0x1 then c\<lparr>read_state := LSByte, write_state := LSByte\<rparr>
              else if RW = 0x2 then c\<lparr>read_state := MSByte, write_state := MSByte\<rparr>
              else if RW = 0x3 then c\<lparr>read_state := LSByte_multiple, write_state := LSByte_multiple\<rparr>
              else c);
         c = (if M \<noteq> 0 then set_OUT True c else set_OUT False c)
     in c\<lparr>next_change_time := 0\<rparr>)"

definition write_control :: "Bit8u \<Rightarrow> pit_82C54 \<Rightarrow> pit_82C54" where
  "write_control data s =
    (let s = s\<lparr>controlword := data\<rparr>;
         SC = shr (controlword s) 6 AND 0x3;
         RW = shr (controlword s) 4 AND 0x3;
         M = shr (controlword s) 1 AND 0x7;
         BCD = controlword s AND 0x1
     in if SC = 3 then read_back_all (controlword s) M [0, 1, 2] s
        else if RW = 0 then upd_counter (unat SC) latch_counter s
        else upd_counter (unat SC) (program_counter RW M BCD) s)"

definition write_count :: "Bit8u \<Rightarrow> counter_type \<Rightarrow> counter_type" where
  "write_count data c =
    (let c = (case write_state c of
           LSByte_multiple \<Rightarrow> c\<lparr>inlatch := ucast data, write_state := MSByte_multiple\<rparr>
         | LSByte \<Rightarrow> c\<lparr>inlatch := ucast data, count_written := True\<rparr>
         | MSByte_multiple \<Rightarrow> c\<lparr>write_state := LSByte_multiple,
             inlatch := inlatch c OR shl (ucast data) 8, count_written := True\<rparr>
         | MSByte \<Rightarrow> c\<lparr>inlatch := shl (ucast data) 8, count_written := True\<rparr>);
         c = (if count_written c \<and> write_state c \<noteq> MSByte_multiple
              then set_count (ucast (inlatch c)) (c\<lparr>null_count := True\<rparr>) else c)
     in if mode c = 0 then
          (let c = (if write_state c = MSByte_multiple then set_OUT False c else c)
           in c\<lparr>next_change_time := 1\<rparr>)
        else if mode c = 1 \<or> mode c = 5 then
          (if triggerGATE c then c\<lparr>next_change_time := 1\<rparr> else c)
        else if mode c = 6 \<or> mode c = 2 \<or> mode c = 7 \<or> mode c = 3 \<or> mode c = 4
        then c\<lparr>next_change_time := 1\<rparr>
        else c)"

definition pit_write :: "Bit8u \<Rightarrow> Bit8u \<Rightarrow> pit_82C54 \<Rightarrow> pit_82C54" where
  "pit_write address data s =
    (if address > MAX_ADDRESS then s
     else if address = CONTROL_ADDRESS then write_control data s
     else upd_counter (unat address) (write_count data) s)"

definition set_GATE_counter :: "bool \<Rightarrow> counter_type \<Rightarrow> counter_type" where
  "set_GATE_counter data c =
    (if \<not> ((GATE c \<and> data) \<or> \<not> (GATE c \<or> data)) then
       (let c = c\<lparr>GATE := data\<rparr>;
            c = (if GATE c then c\<lparr>triggerGATE := True\<rparr> else c)
        in if mode c = 0 then
             (if data \<and> count_written c then
                (if null_count c then c\<lparr>next_change_time := 1\<rparr>
                 else if \<not> OUTpin c \<and> write_state c \<noteq> MSByte_multiple then
                   (if count_binary c = 0 then c\<lparr>next_change_time := 1\<rparr>
                    else c\<lparr>next_change_time := count_binary c AND 0xFFFF\<rparr>)
                 else c\<lparr>next_change_time := 0\<rparr>)
              else if null_count c then c\<lparr>next_change_time := 1\<rparr>
              else c\<lparr>next_change_time := 0\<rparr>)
           else if mode c = 1 then
             (if data \<and> count_written c then c\<lparr>next_change_time := 1\<rparr> else c)
           else if mode c = 2 then
             (if \<not> data then (set_OUT True c)\<lparr>next_change_time := 0\<rparr>
              else if count_written c then c\<lparr>next_change_time := 1\<rparr>
              else c\<lparr>next_change_time := 0\<rparr>)
           else if mode c = 3 then
             (if \<not> data then (set_OUT True c)\<lparr>first_pass := True, next_change_time := 0\<rparr>
              else if count_written c then c\<lparr>next_change_time := 1\<rparr>
              else c\<lparr>next_change_time := 0\<rparr>)
           else if mode c = 4 then
             (if \<not> OUTpin c \<or> null_count c then c\<lparr>next_change_time := 1\<rparr>
              else if data \<and> count_written c then
                (if first_pass c then
                   (if count_binary c = 0 then c\<lparr>next_change_time := 1\<rparr>
                    else c\<lparr>next_change_time := count_binary c AND 0xFFFF\<rparr>)
                 else c\<lparr>next_change_time := 0\<rparr>)
              else c\<lparr>next_change_time := 0\<rparr>)
           else if mode c = 5 then
             (if data \<and> count_written c then c\<lparr>next_change_time := 1\<rparr> else c)
           else c)
     else c)"

definition set_GATE :: "nat \<Rightarrow> bool \<Rightarrow> pit_82C54 \<Rightarrow> pit_82C54" where
  "set_GATE cnum data s =
    (if cnum > MAX_COUNTER then s else upd_counter cnum (set_GATE_counter data) s)"

definition read_OUT :: "nat \<Rightarrow> pit_82C54 \<Rightarrow> bool" where
  "read_OUT cnum s = (if cnum > MAX_COUNTER then False else OUTpin (counter s cnum))"

definition read_GATE :: "nat \<Rightarrow> pit_82C54 \<Rightarrow> bool" where
  "read_GATE cnum s = (if cnum > MAX_COUNTER then False else GATE (counter s cnum))"

definition get_clock_event_time :: "nat \<Rightarrow> pit_82C54 \<Rightarrow> Bit32u" where
  "get_clock_event_time cnum s =
    (if cnum > MAX_COUNTER then 0 else next_change_time (counter s cnum))"

definition get_next_event_time :: "pit_82C54 \<Rightarrow> Bit32u" where
  "get_next_event_time s =
    (let time0 = get_clock_event_time 0 s; time1 = get_clock_event_time 1 s;
         time2 = get_clock_event_time 2 s;
         out = time0;
         out = (if time1 \<noteq> 0 \<and> time1 < out then time1 else out)
     in if time2 \<noteq> 0 \<and> time2 < out then time2 else out)"

definition get_inlatch :: "nat \<Rightarrow> pit_82C54 \<Rightarrow> Bit16u" where
  "get_inlatch n s = inlatch (counter s n)"

definition new_count_ready :: "nat \<Rightarrow> pit_82C54 \<Rightarrow> bool" where
  "new_count_ready n s = (write_state (counter s n) \<noteq> MSByte_multiple)"

definition get_mode :: "nat \<Rightarrow> pit_82C54 \<Rightarrow> Bit8u" where
  "get_mode n s = mode (counter s n)"

definition set_OUT_handler :: "nat \<Rightarrow> bool \<Rightarrow> pit_82C54 \<Rightarrow> pit_82C54" where
  "set_OUT_handler n outh s = upd_counter n (\<lambda>c. c\<lparr>out_handler := outh\<rparr>) s"

end
