(* ===== verification/Pit_Count.thy ===== *)
theory Pit_Count
  imports Pit
begin

text \<open>
  The count of an interval timer counter. The counters keep their value twice, as the binary or BCD
  register image and as a binary number; this theory shows that the two stay in step,
  that loading and storing them are inverse on valid digits, and that the loop \<open>decrement_multiple\<close> is repeated decrementing.
\<close>

section \<open>Values of the count register\<close>

definition encode :: "bool \<Rightarrow> Bit32u \<Rightarrow> Bit32u" where
  "encode bcd b =
    (if bcd then shl (b div 1 mod 10) 0 OR shl (b div 10 mod 10) 4 OR shl (b div 100 mod 10) 8 OR
       shl (b div 1000 mod 10) 12 else b)"

definition top_count :: "bool \<Rightarrow> Bit32u" where
  "top_count bcd = (if bcd then 9999 else 0xFFFF)"

definition counting_ok :: "counter_type \<Rightarrow> bool" where
  "counting_ok c \<longleftrightarrow> count_binary c \<le> top_count (bcd_mode c) \<and> count c = encode (bcd_mode c) (count_binary c)"

definition with_count :: "Bit32u \<Rightarrow> counter_type \<Rightarrow> counter_type" where
  "with_count b c = c\<lparr>count := encode (bcd_mode c) b, count_binary := b\<rparr>"

lemma set_count_to_binary_eq: "set_count_to_binary c = with_count (count_binary c) c"
  by (simp add: set_count_to_binary_def with_count_def encode_def)

lemma with_count_sel [simp]:
  "count_binary (with_count b c) = b" "count (with_count b c) = encode (bcd_mode c) b"
  "bcd_mode (with_count b c) = bcd_mode c" "mode (with_count b c) = mode c" "GATE (with_count b c) = GATE c"
  "OUTpin (with_count b c) = OUTpin c" "count_written (with_count b c) = count_written c"
  "null_count (with_count b c) = null_count c" "write_state (with_count b c) = write_state c"
  "triggerGATE (with_count b c) = triggerGATE c" "first_pass (with_count b c) = first_pass c"
  "state_bit_1 (with_count b c) = state_bit_1 c" "state_bit_2 (with_count b c) = state_bit_2 c"
  "inlatch (with_count b c) = inlatch c" "next_change_time (with_count b c) = next_change_time c"
  "out_calls (with_count b c) = out_calls c" "out_handler (with_count b c) = out_handler c"
  "with_count b (with_count b' c) = with_count b c" "with_count b (c\<lparr>count_binary := b'\<rparr>) = with_count b c"
  by (simp_all add: with_count_def)

lemma or_shl_unat:
  fixes x y :: Bit32u
  assumes x: "unat x < 2 ^ n" and y: "unat y < 2 ^ m" and nm: "n + m \<le> 32"
  shows "unat (x OR shl y n) = unat x + 2 ^ n * unat y" and "unat (x OR shl y n) < 2 ^ (n + m)"
proof -
  have lt: "unat x + 2 ^ n * unat y < 2 ^ (n + m)"
  proof -
    have "unat x + 2 ^ n * unat y < 2 ^ n * (unat y + 1)" using x by simp
    also have "\<dots> \<le> 2 ^ n * 2 ^ m" using y by (intro mult_le_mono2) simp
    finally show ?thesis by (simp add: power_add)
  qed
  have le: "(2 :: nat) ^ (n + m) \<le> 2 ^ 32" using nm by (intro power_increasing) auto
  have "take_bit n (unat x) = unat x" using x by (simp add: take_bit_nat_eq_self)
  then have "take_bit n x = x" by (metis unsigned_take_bit_eq word_unat_eq_iff)
  then have "x AND shl y n = 0"
    by (intro bit_word_eqI) (metis bit_and_iff bit_push_bit_iff bit_take_bit_iff bit_0_eq bot_apply bot_bool_def not_le)
  then have "x OR shl y n = x + shl y n" by (simp add: disjunctive_add_eq_or)
  moreover have "shl y n = word_of_nat (2 ^ n * unat y)"
    by (simp add: push_bit_eq_mult mult.commute)
  ultimately have "x OR shl y n = word_of_nat (unat x + 2 ^ n * unat y)" by simp
  then show eq: "unat (x OR shl y n) = unat x + 2 ^ n * unat y"
    using lt le by (simp only: unsigned_of_nat) (simp add: take_bit_nat_eq_self)
  show "unat (x OR shl y n) < 2 ^ (n + m)" using eq lt by simp
qed

lemma bcd_unat:
  fixes d0 d1 d2 d3 :: Bit32u
  assumes d: "unat d0 < 10" "unat d1 < 10" "unat d2 < 10" "unat d3 < 10"
  shows "unat (d0 OR shl d1 4 OR shl d2 8 OR shl d3 12) = unat d0 + 16 * unat d1 + 256 * unat d2 + 4096 * unat d3"
proof -
  have w: "unat d0 < 2 ^ 4" "unat d1 < 2 ^ 4" "unat d2 < 2 ^ 4" "unat d3 < 2 ^ 4" using d by simp_all
  note a = or_shl_unat [OF w(1,2)]
  have a': "unat (d0 OR shl d1 4) < 2 ^ 8" using a(2) by simp
  note b = or_shl_unat [OF a' w(3)]
  have b': "unat (d0 OR shl d1 4 OR shl d2 8) < 2 ^ 12" using b(2) by (simp add: or.assoc)
  note c = or_shl_unat [OF b' w(4)]
  show ?thesis using a(1) b(1) c(1) by (simp add: or.assoc)
qed

definition bcd_nat :: "nat \<Rightarrow> nat" where
  "bcd_nat k = k mod 10 + 16 * (k div 10 mod 10) + 256 * (k div 100 mod 10) + 4096 * (k div 1000 mod 10)"

lemma unat_encode: "unat (encode True b) = bcd_nat (unat b)"
proof -
  have "unat (encode True b) = unat (b mod 10 OR shl (b div 10 mod 10) 4 OR shl (b div 100 mod 10) 8 OR
       shl (b div 1000 mod 10) 12)" by (simp add: encode_def)
  also have "\<dots> = bcd_nat (unat b)"
    by (subst bcd_unat) (simp_all add: unat_mod unat_div bcd_nat_def)
  finally show ?thesis .
qed

lemma digits4:
  assumes "k \<le> (9999 :: nat)"
  shows "k = k mod 10 + 10 * (k div 10 mod 10) + 100 * (k div 100 mod 10) + 1000 * (k div 1000 mod 10)"
proof -
  have d: "k div 100 = k div 10 div 10" "k div 1000 = k div 10 div 10 div 10"
    by (simp_all add: div_mult2_eq [symmetric])
  have "k div 1000 < 10" using assms by simp
  then have m: "k div 10 div 10 div 10 mod 10 = k div 10 div 10 div 10" by (simp add: d [symmetric])
  have "k = 10 * (k div 10) + k mod 10" "k div 10 = 10 * (k div 10 div 10) + k div 10 mod 10"
    "k div 10 div 10 = 10 * (k div 10 div 10 div 10) + k div 10 div 10 mod 10" by simp_all
  then show ?thesis unfolding d m by linarith
qed

lemma bcd_nat_small:
  assumes "k \<le> 9999"
  shows "bcd_nat k = 0 \<longleftrightarrow> k = 0" "bcd_nat k = 1 \<longleftrightarrow> k = 1" "bcd_nat k = 2 \<longleftrightarrow> k = 2"
proof -
  define a b c d where "a = k mod 10" and "b = k div 10 mod 10" and "c = k div 100 mod 10" and "d = k div 1000 mod 10"
  have k: "k = a + 10 * b + 100 * c + 1000 * d"
    unfolding a_def b_def c_def d_def by (rule digits4 [OF assms])
  have lt: "a < 10" unfolding a_def by simp
  have e: "bcd_nat k = a + 16 * b + 256 * c + 4096 * d"
    by (simp add: bcd_nat_def a_def b_def c_def d_def)
  have "k = bcd_nat k \<or> 10 \<le> k \<and> 10 \<le> bcd_nat k"
  proof (cases "b + c + d = 0")
    case True
    then show ?thesis unfolding e using k by simp
  next
    case False
    then have "1 \<le> b + c + d" by linarith
    then show ?thesis unfolding e using k by linarith
  qed
  then show "bcd_nat k = 0 \<longleftrightarrow> k = 0" "bcd_nat k = 1 \<longleftrightarrow> k = 1" "bcd_nat k = 2 \<longleftrightarrow> k = 2"
    by linarith+
qed

lemma bcd_nat_inverse:
  assumes "k \<le> 9999"
  shows "bcd_nat k mod 16 + 10 * (bcd_nat k div 16 mod 16) + 100 * (bcd_nat k div 256 mod 16) +
    1000 * (bcd_nat k div 4096 mod 16) = k"
proof -
  define a b c d where "a = k mod 10" and "b = k div 10 mod 10" and "c = k div 100 mod 10" and "d = k div 1000 mod 10"
  have k: "k = a + 10 * b + 100 * c + 1000 * d"
    unfolding a_def b_def c_def d_def by (rule digits4 [OF assms])
  have lt: "a < 10" "b < 10" "c < 10" "d < 10" unfolding a_def b_def c_def d_def by simp_all
  have e: "bcd_nat k = a + 16 * (b + 16 * (c + 16 * d))"
    by (simp add: bcd_nat_def a_def b_def c_def d_def)
  have low: "(x + 16 * y) div 16 = y" "(x + 16 * y) mod 16 = x" if "x < 10" for x y :: nat
    using that by simp_all
  have dd: "n div 256 = n div 16 div 16" "n div 4096 = n div 16 div 16 div 16" for n :: nat
    by (simp_all add: div_mult2_eq [symmetric])
  have q: "bcd_nat k div 16 = b + 16 * (c + 16 * d)" "bcd_nat k div 256 = c + 16 * d" "bcd_nat k div 4096 = d"
    "bcd_nat k mod 16 = a"
    unfolding e dd using lt by (simp_all only: low)
  then show ?thesis using lt k by (simp only: low mod_less)
qed

lemma encode_small [simp]:
  assumes "b \<le> top_count bcd"
  shows "encode bcd b = 0 \<longleftrightarrow> b = 0" "encode bcd b = 1 \<longleftrightarrow> b = 1" "encode bcd b = 2 \<longleftrightarrow> b = 2"
proof -
  have "encode bcd b = 0 \<longleftrightarrow> b = 0" "encode bcd b = 1 \<longleftrightarrow> b = 1" "encode bcd b = 2 \<longleftrightarrow> b = 2" if "bcd"
  proof -
    have k: "unat b \<le> 9999" using assms that by (simp add: top_count_def word_le_nat_alt)
    show "encode bcd b = 0 \<longleftrightarrow> b = 0" "encode bcd b = 1 \<longleftrightarrow> b = 1" "encode bcd b = 2 \<longleftrightarrow> b = 2"
      using that bcd_nat_small [OF k] by (simp_all add: word_unat_eq_iff unat_encode)
  qed
  then show "encode bcd b = 0 \<longleftrightarrow> b = 0" "encode bcd b = 1 \<longleftrightarrow> b = 1" "encode bcd b = 2 \<longleftrightarrow> b = 2"
    by (cases bcd; simp add: encode_def)+
qed

lemma encode_top: "encode True 9999 = 0x9999" "encode False b = b"
  by (simp_all add: encode_def)

lemma decrement_eq:
  assumes "counting_ok c"
  shows "decrement c = with_count (if count_binary c = 0 then top_count (bcd_mode c) else count_binary c - 1) c"
proof -
  have c: "count_binary c \<le> top_count (bcd_mode c)" "count c = encode (bcd_mode c) (count_binary c)"
    using assms by (simp_all add: counting_ok_def)
  show ?thesis
    using c by (auto simp: decrement_def set_count_to_binary_eq with_count_def top_count_def encode_top)
qed

lemma with_count_same: "counting_ok c \<Longrightarrow> with_count (count_binary c) c = c"
  by (simp add: with_count_def counting_ok_def)

lemma counting_ok_with [simp]: "counting_ok (with_count b c) \<longleftrightarrow> b \<le> top_count (bcd_mode c)"
  by (simp add: counting_ok_def)

lemma minus_one_le: "b \<noteq> 0 \<Longrightarrow> b - 1 \<le> (b :: Bit32u)"
  by (simp add: word_le_nat_alt unat_minus_one)

lemma decrement_ok: "counting_ok c \<Longrightarrow> counting_ok (decrement c)"
  by (auto simp: decrement_eq counting_ok_def intro: order_trans [OF minus_one_le])

lemma decrement_down:
  assumes "counting_ok c"
  shows "k \<le> unat (count_binary c) \<Longrightarrow> (decrement ^^ k) c = with_count (count_binary c - of_nat k) c"
proof (induction k)
  case 0
  then show ?case using assms by (simp add: with_count_same)
next
  case (Suc k)
  have lt: "k < unat (count_binary c)" using Suc.prems by simp
  then have u: "unat (of_nat k :: Bit32u) = k"
    using unsigned_less [of "count_binary c", where 'a = nat] by (simp add: take_bit_nat_eq_self unsigned_of_nat)
  then have le: "of_nat k \<le> count_binary c" "count_binary c \<noteq> of_nat k"
    using lt by (auto simp: word_le_nat_alt)
  have top: "count_binary c - of_nat k \<le> top_count (bcd_mode c)"
    using assms le(1) by (meson counting_ok_def order_trans word_sub_le)
  have "(decrement ^^ Suc k) c = decrement (with_count (count_binary c - of_nat k) c)"
    using Suc by simp
  also have "\<dots> = with_count (count_binary c - of_nat (Suc k)) c"
    using top le by (subst decrement_eq) (simp_all add: algebra_simps)
  finally show ?case .
qed

lemma decrement_multiple_eq:
  "counting_ok c \<Longrightarrow> decrement_multiple n c = (decrement ^^ unat n) c"
proof (induction n c rule: decrement_multiple.induct)
  case (1 n c)
  note ok = \<open>counting_ok c\<close>
  show ?case
  proof (cases "n = 0")
    case True
    then show ?thesis by (simp add: decrement_multiple.simps)
  next
    case False
    then have n: "n > 0" by (simp add: word_gt_0)
    show ?thesis
    proof (cases "n \<le> count_binary c")
      case le: True
      then have "unat n \<le> unat (count_binary c)" by (simp add: word_le_nat_alt)
      from decrement_down [OF ok this] have "(decrement ^^ unat n) c = with_count (count_binary c - n) c" by simp
      then show ?thesis using n le
        by (simp add: decrement_multiple.simps [of n] decrement_multiple.simps [of 0] set_count_to_binary_eq)
    next
      case gt: False
      let ?b = "count_binary c"
      have b: "?b < n" using gt by simp
      have s: "set_count_to_binary (c\<lparr>count_binary := 0\<rparr>) = with_count 0 c"
        by (simp add: set_count_to_binary_eq)
      have "(decrement ^^ unat ?b) c = with_count 0 c" using decrement_down [OF ok order_refl] by simp
      then have d: "(decrement ^^ (unat ?b + 1)) c = decrement (with_count 0 c)" by simp
      have okd: "counting_ok (decrement (with_count 0 c))" by (simp add: decrement_ok)
      have "decrement_multiple n c = decrement_multiple (n - (?b + 1)) (decrement (with_count 0 c))"
        using n gt by (simp add: decrement_multiple.simps [of n] s)
      also have "\<dots> = (decrement ^^ unat (n - (?b + 1))) (decrement (with_count 0 c))"
        using "1.IH"(2) [OF n gt] okd by (simp add: s)
      also have "\<dots> = (decrement ^^ (unat n - (unat ?b + 1))) ((decrement ^^ (unat ?b + 1)) c)"
        by (simp only: d minus_below(1) [OF b])
      also have "\<dots> = (decrement ^^ (unat n - (unat ?b + 1) + (unat ?b + 1))) c"
        by (simp only: funpow_add comp_apply)
      also have "unat n - (unat ?b + 1) + (unat ?b + 1) = unat n"
        using b by (simp add: word_less_nat_alt)
      finally show ?thesis .
    qed
  qed
qed

section \<open>The two images of a count\<close>

definition digits_ok :: "Bit32u \<Rightarrow> bool" where
  "digits_ok d \<longleftrightarrow> unat d mod 16 < 10 \<and> unat d div 16 mod 16 < 10 \<and> unat d div 256 mod 16 < 10 \<and>
     unat d div 4096 mod 16 < 10"

definition load_value :: "bool \<Rightarrow> Bit32u \<Rightarrow> Bit32u" where
  "load_value bcd d =
    (if bcd then 1 * (shr d 0 AND 0xF) + 10 * (shr d 4 AND 0xF) + 100 * (shr d 8 AND 0xF) +
       1000 * (shr d 12 AND 0xF) else d)"

lemma unat_nibble: "unat (shr d n AND 0xF) = unat d div 2 ^ n mod 16" for d :: Bit32u
proof -
  have "shr d n AND 0xF = take_bit 4 (drop_bit n d)" by (simp add: take_bit_eq_mask mask_numeral)
  moreover have "unat d mod 4294967296 = unat d" using unsigned_less [of d, where 'a = nat] by simp
  ultimately show ?thesis
    by (simp only: unsigned_take_bit_eq unsigned_drop_bit_eq) (simp add: take_bit_eq_mod drop_bit_eq_div)
qed

lemma unat_load_value:
  "unat (load_value True d) = unat d mod 16 + 10 * (unat d div 16 mod 16) + 100 * (unat d div 256 mod 16) +
     1000 * (unat d div 4096 mod 16)"
proof -
  define a b c e where "a = shr d 0 AND 0xF" and "b = shr d 4 AND 0xF" and "c = shr d 8 AND 0xF"
    and "e = shr d 12 AND 0xF"
  have u: "unat a = unat d mod 16" "unat b = unat d div 16 mod 16" "unat c = unat d div 256 mod 16"
    "unat e = unat d div 4096 mod 16"
    unfolding a_def b_def c_def e_def unat_nibble by simp_all
  then have lt: "unat a < 16" "unat b < 16" "unat c < 16" "unat e < 16" by simp_all
  have "load_value True d = a + 10 * b + 100 * c + 1000 * e"
    by (simp add: load_value_def a_def b_def c_def e_def)
  also have "\<dots> = word_of_nat (unat a + 10 * unat b + 100 * unat c + 1000 * unat e)" by simp
  finally have l: "load_value True d = word_of_nat (unat a + 10 * unat b + 100 * unat c + 1000 * unat e)" .
  have "unat a + 10 * unat b + 100 * unat c + 1000 * unat e < 2 ^ 32" using lt by simp
  then have "unat (load_value True d) = unat a + 10 * unat b + 100 * unat c + 1000 * unat e"
    unfolding l by (simp only: unsigned_of_nat) (simp add: take_bit_nat_eq_self)
  then show ?thesis by (simp only: u)
qed

lemma load_encode: "b \<le> top_count bcd \<Longrightarrow> load_value bcd (encode bcd b) = b"
proof (cases bcd)
  case True
  assume "b \<le> top_count bcd"
  then have "unat b \<le> 9999" using True by (simp add: top_count_def word_le_nat_alt)
  then show ?thesis using True
    by (simp only: word_unat_eq_iff unat_load_value unat_encode bcd_nat_inverse)
qed (simp add: load_value_def encode_def)

lemma set_count_eq: "set_count d c = c\<lparr>count := d AND 0xFFFF, count_binary := load_value (bcd_mode c) (d AND 0xFFFF)\<rparr>"
  by (simp add: set_count_def set_binary_to_count_def load_value_def)

lemma and_ffff: "b AND 0xFFFF = b" if "b \<le> 0xFFFF" for b :: Bit32u
proof -
  have "take_bit 16 (unat b) = unat b" using that by (simp add: take_bit_nat_eq_self word_le_nat_alt)
  then have "take_bit 16 b = b" by (metis unsigned_take_bit_eq word_unat_eq_iff)
  then show ?thesis by (simp add: take_bit_eq_mask mask_numeral)
qed

lemma encode_load:
  assumes "digits_ok d" "d \<le> 0xFFFF"
  shows "encode True (load_value True d) = d" "load_value True d \<le> 9999"
proof -
  define a b c e where "a = unat d mod 16" and "b = unat d div 16 mod 16" and "c = unat d div 256 mod 16"
    and "e = unat d div 4096 mod 16"
  have lt: "a < 10" "b < 10" "c < 10" "e < 10" using assms by (simp_all add: digits_ok_def a_def b_def c_def e_def)
  have v: "unat (load_value True d) = a + 10 * (b + 10 * (c + 10 * e))"
    by (simp add: unat_load_value a_def b_def c_def e_def)
  have low: "(x + 10 * y) div 10 = y" "(x + 10 * y) mod 10 = x" if "x < 10" for x y :: nat
    using that by simp_all
  have dd: "n div 100 = n div 10 div 10" "n div 1000 = n div 10 div 10 div 10" for n :: nat
    by (simp_all add: div_mult2_eq [symmetric])
  have "bcd_nat (a + 10 * (b + 10 * (c + 10 * e))) = a + 16 * b + 256 * c + 4096 * e"
    unfolding bcd_nat_def dd using lt by (simp only: low mod_less)
  also have "\<dots> = unat d"
  proof -
    have "unat d < 65536" using assms(2) by (simp add: word_le_nat_alt)
    then have "unat d div 4096 < 16" by simp
    then have m: "unat d div 4096 mod 16 = unat d div 4096" by simp
    have dd: "unat d div 256 = unat d div 16 div 16" "unat d div 4096 = unat d div 16 div 16 div 16"
      by (simp_all add: div_mult2_eq [symmetric])
    have "unat d = 16 * (unat d div 16) + unat d mod 16"
      "unat d div 16 = 16 * (unat d div 16 div 16) + unat d div 16 mod 16"
      "unat d div 16 div 16 = 16 * (unat d div 16 div 16 div 16) + unat d div 16 div 16 mod 16" by simp_all
    then show ?thesis unfolding a_def b_def c_def e_def m unfolding dd by linarith
  qed
  finally show "encode True (load_value True d) = d" by (simp add: word_unat_eq_iff unat_encode v)
  show "load_value True d \<le> 9999" using lt by (simp add: word_le_nat_alt v)
qed

end
