(* ===== verification/Pit_Clock.thy ===== *)
theory Pit_Clock
  imports Pit_Count
begin

text \<open>
  Clocking a counter. The timer chip skips the clocks between two changes of a counter's
  output: \<open>clock_multiple\<close> decrements the count by many cycles at once and calls \<open>clock\<close>
  only when \<open>next_change_time\<close> has passed. This theory shows for which counters this is
  the same as calling \<open>clock\<close> once per cycle, and where it is not.
\<close>

section \<open>Skipping quiet cycles\<close>

text \<open>
  What an owner that skips cycles relies on: \<open>step\<close> is one cycle, \<open>wait\<close> the number of
  cycles to the next event (0 when there is none), and a cycle that is not an event acts as
  the cheap \<open>quiet\<close> does.
\<close>

locale event_timer =
  fixes step :: "'s \<Rightarrow> 's" and quiet :: "'s \<Rightarrow> 's" and wait :: "'s \<Rightarrow> nat" and ok :: "'s \<Rightarrow> bool"
  assumes step_ok: "ok c \<Longrightarrow> ok (step c)"
    and step_quiet: "ok c \<Longrightarrow> wait c \<noteq> 1 \<Longrightarrow> step c = quiet c"
    and wait_quiet: "ok c \<Longrightarrow> wait c \<noteq> 1 \<Longrightarrow> wait (quiet c) = wait c - 1"
begin

lemma funpow_ok: "ok c \<Longrightarrow> ok ((step ^^ k) c)"
  by (induction k) (simp_all add: step_ok)

lemma idle: "ok c \<Longrightarrow> wait c = 0 \<Longrightarrow> (step ^^ k) c = (quiet ^^ k) c \<and> wait ((quiet ^^ k) c) = 0"
proof (induction k)
  case (Suc k)
  let ?d = "(quiet ^^ k) c"
  have d: "(step ^^ k) c = ?d" "wait ?d = 0" using Suc by simp_all
  then have "ok ?d" using funpow_ok [OF Suc.prems(1), of k] by simp
  then show ?case using d step_quiet [of ?d] wait_quiet [of ?d] by simp
qed simp

lemma skip: "ok c \<Longrightarrow> k < wait c \<Longrightarrow> (step ^^ k) c = (quiet ^^ k) c \<and> wait ((quiet ^^ k) c) = wait c - k"
proof (induction k)
  case (Suc k)
  let ?d = "(quiet ^^ k) c"
  have d: "(step ^^ k) c = ?d" "wait ?d = wait c - k" using Suc by simp_all
  then have "ok ?d" using funpow_ok [OF Suc.prems(1), of k] by simp
  moreover have "wait ?d \<noteq> 1" using d(2) Suc.prems(2) by simp
  ultimately show ?case using d step_quiet [of ?d] wait_quiet [of ?d] by simp
qed simp

end

section \<open>Counters in step with their event time\<close>

text \<open>The count the next load takes from the input latch.\<close>

definition load :: "counter_type \<Rightarrow> Bit32u" where
  "load c = load_value (bcd_mode c) (ucast (inlatch c))"

definition load_ok :: "counter_type \<Rightarrow> bool" where
  "load_ok c \<longleftrightarrow> (bcd_mode c \<longrightarrow> digits_ok (ucast (inlatch c))) \<and>
     (mode c = 2 \<longrightarrow> load c \<noteq> 1 \<and> (bcd_mode c \<longrightarrow> load c \<noteq> 0)) \<and>
     (mode c = 3 \<longrightarrow> \<not> bcd_mode c \<and> inlatch c AND 1 = 0 \<and> 4 \<le> inlatch c)"

text \<open>The conditions each mode needs on top of the event time; a counter without a count needs none.\<close>

definition phase_ok :: "counter_type \<Rightarrow> bool" where
  "phase_ok c \<longleftrightarrow>
     (mode c = 0 \<longrightarrow> null_count c \<longrightarrow> \<not> OUTpin c \<and> write_state c \<noteq> MSByte_multiple) \<and>
     (mode c = 2 \<longrightarrow> GATE c \<and>
        (triggerGATE c \<or> first_pass c \<or> count_binary c \<noteq> 1 \<and> (bcd_mode c \<longrightarrow> count_binary c \<noteq> 0))) \<and>
     (mode c = 3 \<longrightarrow> GATE c \<longrightarrow> triggerGATE c \<or> first_pass c \<or> state_bit_2 c \<or>
        \<not> state_bit_1 c \<and> count_binary c AND 1 = 0 \<and> 4 \<le> count_binary c)"

text \<open>The event time that fits the state of a counter.\<close>

definition or_one :: "Bit32u \<Rightarrow> Bit32u" where
  "or_one b = (if b = 0 then 1 else b)"

definition due :: "counter_type \<Rightarrow> Bit32u" where
  "due c =
    (if \<not> count_written c then 0
     else if mode c = 0 then
       (if null_count c then 1
        else if GATE c \<and> write_state c \<noteq> MSByte_multiple \<and> \<not> OUTpin c then or_one (count_binary c) else 0)
     else if mode c = 1 then
       (if triggerGATE c then 1 else if \<not> OUTpin c then or_one (count_binary c) else 0)
     else if mode c = 2 then
       (if triggerGATE c \<or> first_pass c then 1 else if GATE c then (count_binary c - 1) AND 0xFFFF else 0)
     else if mode c = 3 then
       (if \<not> GATE c then 0
        else if triggerGATE c \<or> first_pass c \<or> state_bit_2 c then 1 else count_binary c div 2 - 1)
     else if mode c = 4 then
       (if \<not> OUTpin c \<or> null_count c then 1
        else if GATE c \<and> first_pass c then or_one (count_binary c) else 0)
     else if mode c = 5 then
       (if \<not> OUTpin c \<or> triggerGATE c then 1 else if first_pass c then or_one (count_binary c) else 0)
     else 0)"

definition in_step :: "counter_type \<Rightarrow> bool" where
  "in_step c \<longleftrightarrow> mode c \<le> 5 \<and> counting_ok c \<and> (count_written c \<longrightarrow> load_ok c \<and> phase_ok c) \<and>
     (next_change_time c = 1 \<or> next_change_time c = due c \<and> \<not> triggerGATE c)"

text \<open>The counters that count between events, and the count of one quiet cycle.\<close>

definition running :: "counter_type \<Rightarrow> bool" where
  "running c \<longleftrightarrow> count_written c \<and>
     (mode c = 0 \<and> GATE c \<and> write_state c \<noteq> MSByte_multiple \<or> mode c = 1 \<or>
      mode c = 2 \<and> \<not> first_pass c \<and> GATE c \<or> mode c = 3 \<and> \<not> first_pass c \<and> GATE c \<or>
      mode c = 4 \<and> GATE c \<or> mode c = 5)"

definition pace :: "counter_type \<Rightarrow> nat" where
  "pace c = (if mode c = 3 then 2 else 1)"

definition quiet :: "counter_type \<Rightarrow> counter_type" where
  "quiet c =
    (if next_change_time c = 0 then (if running c then (decrement ^^ pace c) c else c)
     else ((decrement ^^ pace c) c)\<lparr>next_change_time := next_change_time c - 1\<rparr>)"

lemma set_OUT_sel [simp]:
  "OUTpin (set_OUT d c) = d" "count (set_OUT d c) = count c" "count_binary (set_OUT d c) = count_binary c"
  "bcd_mode (set_OUT d c) = bcd_mode c" "mode (set_OUT d c) = mode c" "GATE (set_OUT d c) = GATE c"
  "count_written (set_OUT d c) = count_written c" "null_count (set_OUT d c) = null_count c"
  "write_state (set_OUT d c) = write_state c" "triggerGATE (set_OUT d c) = triggerGATE c"
  "first_pass (set_OUT d c) = first_pass c" "state_bit_1 (set_OUT d c) = state_bit_1 c"
  "state_bit_2 (set_OUT d c) = state_bit_2 c" "inlatch (set_OUT d c) = inlatch c"
  "next_change_time (set_OUT d c) = next_change_time c" "out_handler (set_OUT d c) = out_handler c"
  by (simp_all add: set_OUT_def Let_def)

lemma set_OUT_same: "OUTpin c = d \<Longrightarrow> set_OUT d c = c"
  by (simp add: set_OUT_def)

lemma load_upd [simp]:
  "load (with_count b c) = load c" "load (set_OUT d c) = load c" "load (c\<lparr>next_change_time := n\<rparr>) = load c"
  "load (c\<lparr>null_count := x\<rparr>) = load c" "load (c\<lparr>first_pass := x\<rparr>) = load c" "load (c\<lparr>state_bit_1 := x\<rparr>) = load c"
  "load (c\<lparr>state_bit_2 := x\<rparr>) = load c" "load (c\<lparr>triggerGATE := x\<rparr>) = load c"
  by (simp_all add: load_def)

lemma load_ok_upd [simp]:
  "load_ok (with_count b c) = load_ok c" "load_ok (set_OUT d c) = load_ok c" "load_ok (c\<lparr>next_change_time := n\<rparr>) = load_ok c"
  "load_ok (c\<lparr>null_count := x\<rparr>) = load_ok c" "load_ok (c\<lparr>first_pass := x\<rparr>) = load_ok c"
  "load_ok (c\<lparr>state_bit_1 := x\<rparr>) = load_ok c" "load_ok (c\<lparr>state_bit_2 := x\<rparr>) = load_ok c"
  "load_ok (c\<lparr>triggerGATE := x\<rparr>) = load_ok c"
  by (simp_all add: load_ok_def)

lemma counting_ok_upd [simp]:
  "counting_ok (set_OUT d c) = counting_ok c" "counting_ok (c\<lparr>next_change_time := n\<rparr>) = counting_ok c"
  "counting_ok (c\<lparr>null_count := x\<rparr>) = counting_ok c" "counting_ok (c\<lparr>first_pass := x\<rparr>) = counting_ok c"
  "counting_ok (c\<lparr>state_bit_1 := x\<rparr>) = counting_ok c" "counting_ok (c\<lparr>state_bit_2 := x\<rparr>) = counting_ok c"
  "counting_ok (c\<lparr>triggerGATE := x\<rparr>) = counting_ok c"
  by (simp_all add: counting_ok_def)

lemma trig_same: "\<not> triggerGATE c \<Longrightarrow> c\<lparr>triggerGATE := False\<rparr> = c"
  by (cases c) simp

lemma next_same: "next_change_time c = n \<Longrightarrow> c\<lparr>next_change_time := n\<rparr> = c"
  by (cases c) simp

lemma top_le: "b \<le> top_count bcd \<Longrightarrow> b \<le> 0xFFFF"
  by (cases bcd) (auto simp: top_count_def intro: order_trans)

lemma latch_word: "ucast d AND 0xFFFF = (ucast d :: Bit32u)" "(ucast d :: Bit32u) \<le> 0xFFFF" for d :: Bit16u
proof -
  show le: "(ucast d :: Bit32u) \<le> 0xFFFF"
    using unsigned_less [of d, where 'a = nat] by (simp add: word_le_nat_alt unsigned_ucast_eq take_bit_nat_eq_self)
  show "ucast d AND 0xFFFF = (ucast d :: Bit32u)" by (rule and_ffff [OF le])
qed

lemma load_image:
  assumes "bcd_mode c \<longrightarrow> digits_ok (ucast (inlatch c))"
  shows "load c \<le> top_count (bcd_mode c)" "encode (bcd_mode c) (load c) = ucast (inlatch c)"
  using assms latch_word [of "inlatch c"] encode_load [of "ucast (inlatch c)"]
  by (cases "bcd_mode c"; simp add: load_def load_value_def top_count_def encode_top)+

lemma set_count_load:
  "bcd_mode c \<longrightarrow> digits_ok (ucast (inlatch c)) \<Longrightarrow> set_count (ucast (inlatch c)) c = with_count (load c) c"
  using load_image [of c] by (simp add: set_count_eq with_count_def latch_word load_def)

lemmas clock_simps = in_step_def phase_ok_def due_def or_one_def quiet_def running_def pace_def
  decrement_eq set_count_load trig_same next_same Let_def

lemma top_count_simps [simp]:
  "top_count b AND 0xFFFF = top_count b" "top_count b \<noteq> 0" "top_count b \<noteq> 1" "top_count b \<noteq> 2"
  by (cases b; simp add: top_count_def)+

lemma below_top:
  assumes "b \<le> top_count bcd" "b \<noteq> 0"
  shows "b - 1 \<le> top_count bcd" "(b - 1) AND 0xFFFF = b - 1"
  using minus_one_le [OF assms(2)] assms(1) top_le [of "b - 1"] by (auto intro: order_trans and_ffff)

lemma clock0_quiet:
  assumes c: "in_step c" and m: "mode c = 0" and n: "next_change_time c \<noteq> 1"
  shows "clock_counter c = quiet c"
proof (cases "count_written c \<and> GATE c \<and> write_state c \<noteq> MSByte_multiple")
  case True
  have ok: "counting_ok c" "\<not> null_count c" "\<not> triggerGATE c" and le: "count_binary c \<le> top_count (bcd_mode c)"
    using c m n True by (auto simp: clock_simps counting_ok_def)
  show ?thesis
  proof (cases "OUTpin c")
    case out: True
    then show ?thesis using c m n True ok
      by (simp add: clock_counter_def clock_mode0_def clock_simps)
  next
    case out: False
    have b: "next_change_time c = count_binary c" "count_binary c \<noteq> 0" "count_binary c \<noteq> 1"
      using c m n True ok out by (auto simp: clock_simps split: if_splits)
    then show ?thesis using c m n True ok out below_top [OF le b(2)]
      by (simp add: clock_counter_def clock_mode0_def clock_simps)
  qed
next
  case False
  have t: "\<not> triggerGATE c" and d: "next_change_time c = due c" using c n by (auto simp: in_step_def)
  have nn: "count_written c \<longrightarrow> \<not> null_count c" using d n m by (auto simp: due_def)
  then have z: "next_change_time c = 0" "\<not> running c" using d m False by (auto simp: due_def running_def)
  show ?thesis using False t z m nn
    by (cases "count_written c") (auto simp: clock_counter_def clock_mode0_def quiet_def trig_same next_same Let_def)
qed

lemma in_stepI:
  "mode c \<le> 5 \<Longrightarrow> counting_ok c \<Longrightarrow> (count_written c \<Longrightarrow> load_ok c \<and> phase_ok c) \<Longrightarrow>
   (next_change_time c = 1 \<or> next_change_time c = due c) \<Longrightarrow> \<not> triggerGATE c \<Longrightarrow> in_step c"
  by (simp add: in_step_def)

lemma in_step_load: "in_step c \<Longrightarrow> count_written c \<Longrightarrow> set_count (ucast (inlatch c)) c = with_count (load c) c \<and>
    load c \<le> top_count (bcd_mode c) \<and> load c AND 0xFFFF = load c"
  using top_le [THEN and_ffff, of "load c" "bcd_mode c"]
  by (simp add: in_step_def load_ok_def set_count_load load_image)

lemma clock0_in_step:
  assumes c: "in_step c" and m: "mode c = 0"
  shows "in_step (clock_counter c)"
proof (cases "count_written c")
  case False
  then show ?thesis using c m by (simp add: clock_counter_def clock_mode0_def clock_simps)
next
  case w: True
  have ok: "counting_ok c" "load_ok c" and le: "count_binary c \<le> top_count (bcd_mode c)"
    using c w by (auto simp: clock_simps counting_ok_def)
  note l = in_step_load [OF c w]
  show ?thesis
  proof (cases "null_count c")
    case n: True
    then show ?thesis using c m w ok l
      by (simp add: clock_counter_def clock_mode0_def clock_simps)
  next
    case n: False
    show ?thesis
    proof (cases "GATE c \<and> write_state c \<noteq> MSByte_multiple")
      case g: True
      show ?thesis using c m w n ok g below_top [OF le]
        by (auto simp: clock_counter_def clock_mode0_def clock_simps)
    next
      case g: False
      then show ?thesis using c m w n ok
        by (auto simp: clock_counter_def clock_mode0_def clock_simps)
    qed
  qed
qed

lemma clock1_quiet:
  assumes c: "in_step c" and m: "mode c = 1" and n: "next_change_time c \<noteq> 1"
  shows "clock_counter c = quiet c"
proof (cases "count_written c")
  case w: True
  have ok: "counting_ok c" "\<not> triggerGATE c" and le: "count_binary c \<le> top_count (bcd_mode c)"
    using c m n w by (auto simp: clock_simps counting_ok_def)
  show ?thesis
  proof (cases "OUTpin c")
    case out: True
    then show ?thesis using c m n w ok
      by (simp add: clock_counter_def clock_mode1_def clock_simps)
  next
    case out: False
    have b: "next_change_time c = count_binary c" "count_binary c \<noteq> 0" "count_binary c \<noteq> 1"
      using c m n w ok out by (auto simp: clock_simps split: if_splits)
    then show ?thesis using c m n w ok out below_top [OF le b(2)]
      by (simp add: clock_counter_def clock_mode1_def clock_simps)
  qed
next
  case False
  then show ?thesis using c m n
    by (auto simp: clock_counter_def clock_mode1_def clock_simps)
qed

lemma clock1_in_step:
  assumes c: "in_step c" and m: "mode c = 1"
  shows "in_step (clock_counter c)"
proof (cases "count_written c")
  case False
  then show ?thesis using c m by (simp add: clock_counter_def clock_mode1_def clock_simps)
next
  case w: True
  have ok: "counting_ok c" "load_ok c" and le: "count_binary c \<le> top_count (bcd_mode c)"
    using c w by (auto simp: clock_simps counting_ok_def)
  note l = in_step_load [OF c w]
  show ?thesis
  proof (cases "triggerGATE c")
    case n: True
    then show ?thesis using c m w ok l
      by (simp add: clock_counter_def clock_mode1_def clock_simps)
  next
    case n: False
    show ?thesis using c m w n ok below_top [OF le]
      by (auto simp: clock_counter_def clock_mode1_def clock_simps)
  qed
qed

lemma clock2_quiet:
  assumes c: "in_step c" and m: "mode c = 2" and n: "next_change_time c \<noteq> 1"
  shows "clock_counter c = quiet c"
proof (cases "count_written c")
  case w: True
  let ?b = "count_binary c"
  have ok: "counting_ok c" "\<not> triggerGATE c" "\<not> first_pass c" "GATE c" and le: "?b \<le> top_count (bcd_mode c)"
    and b: "?b \<noteq> 1" "bcd_mode c \<longrightarrow> ?b \<noteq> 0" and nx: "next_change_time c = (?b - 1) AND 0xFFFF"
    using c m n w by (auto simp: clock_simps counting_ok_def)
  show ?thesis
  proof (cases "?b = 0")
    case True
    then show ?thesis using c m n w ok b nx
      by (simp add: clock_counter_def clock_mode2_def clock_simps top_count_def encode_top)
  next
    case z: False
    note d = below_top [OF le z]
    have b1: "?b - 1 \<noteq> 0" "?b - 1 \<noteq> 1" using b n nx d by auto
    show ?thesis using c m n w ok b nx z d b1 below_top [OF d(1) b1(1)]
      by (simp add: clock_counter_def clock_mode2_def clock_simps)
  qed
next
  case False
  then show ?thesis using c m n
    by (auto simp: clock_counter_def clock_mode2_def clock_simps)
qed

lemma clock2_in_step:
  assumes c: "in_step c" and m: "mode c = 2"
  shows "in_step (clock_counter c)"
proof (cases "count_written c")
  case False
  then show ?thesis using c m by (simp add: clock_counter_def clock_mode2_def clock_simps)
next
  case w: True
  let ?b = "count_binary c"
  have ok: "counting_ok c" "load_ok c" "GATE c" and le: "?b \<le> top_count (bcd_mode c)"
    using c w m by (auto simp: clock_simps counting_ok_def)
  note l = in_step_load [OF c w]
  show ?thesis
  proof (cases "triggerGATE c \<or> first_pass c")
    case n: True
    have "load c \<noteq> 1" "bcd_mode c \<longrightarrow> load c \<noteq> 0" using ok m by (auto simp: load_ok_def)
    then show ?thesis using c m w ok l n
      by (auto simp: clock_counter_def clock_mode2_def clock_simps)
  next
    case n: False
    have b: "?b \<noteq> 1" "bcd_mode c \<longrightarrow> ?b \<noteq> 0" using c m w n by (auto simp: clock_simps)
    show ?thesis using c m w n ok b below_top [OF le]
      by (auto simp: clock_counter_def clock_mode2_def clock_simps top_count_def encode_top)
  qed
qed

lemma clock4_quiet:
  assumes c: "in_step c" and m: "mode c = 4" and n: "next_change_time c \<noteq> 1"
  shows "clock_counter c = quiet c"
proof (cases "count_written c \<and> GATE c")
  case w: True
  have ok: "counting_ok c" "\<not> triggerGATE c" "OUTpin c" "\<not> null_count c" and le: "count_binary c \<le> top_count (bcd_mode c)"
    using c m n w by (auto simp: clock_simps counting_ok_def split: if_splits)
  show ?thesis
  proof (cases "first_pass c")
    case f: False
    then show ?thesis using c m n w ok
      by (simp add: clock_counter_def clock_mode4_def clock_strobe_def clock_simps)
  next
    case f: True
    have b: "next_change_time c = count_binary c" "count_binary c \<noteq> 0" "count_binary c \<noteq> 1"
      using c m n w ok f by (auto simp: clock_simps split: if_splits)
    then show ?thesis using c m n w ok f below_top [OF le b(2)]
      by (simp add: clock_counter_def clock_mode4_def clock_strobe_def clock_simps)
  qed
next
  case False
  have t: "\<not> triggerGATE c" and d: "next_change_time c = due c" using c n by (auto simp: in_step_def)
  have nn: "count_written c \<longrightarrow> OUTpin c \<and> \<not> null_count c" using d n m by (auto simp: due_def split: if_splits)
  then have z: "next_change_time c = 0" "\<not> running c" using d m False by (auto simp: due_def running_def)
  show ?thesis using False t z m nn
    by (cases "count_written c") (auto simp: clock_counter_def clock_mode4_def quiet_def trig_same next_same Let_def)
qed

lemma clock4_in_step:
  assumes c: "in_step c" and m: "mode c = 4"
  shows "in_step (clock_counter c)"
proof (cases "count_written c")
  case False
  then show ?thesis using c m by (simp add: clock_counter_def clock_mode4_def clock_simps)
next
  case w: True
  define c' where "c' = set_OUT True c"
  have c': "(if \<not> OUTpin c then set_OUT True c else c) = c'" by (simp add: c'_def set_OUT_same)
  have ok: "counting_ok c'" "load_ok c'" "phase_ok c'" "OUTpin c'" "mode c' = 4" "count_written c'"
    and le: "count_binary c' \<le> top_count (bcd_mode c')"
    using c w m by (auto simp: clock_simps counting_ok_def c'_def)
  have l: "set_count (ucast (inlatch c')) c' = with_count (load c') c'" "load c' \<le> top_count (bcd_mode c')"
    "load c' AND 0xFFFF = load c'"
    using ok load_image(1) [of c'] top_le [THEN and_ffff, of "load c'" "bcd_mode c'"]
    by (simp_all add: load_ok_def set_count_load)
  have e: "clock_counter c = clock_mode4 c" using m by (simp add: clock_counter_def)
  show ?thesis unfolding e clock_mode4_def using w ok l below_top [OF le]
    by (auto simp: Let_def c' clock_strobe_def clock_simps)
qed

lemma clock5_quiet:
  assumes c: "in_step c" and m: "mode c = 5" and n: "next_change_time c \<noteq> 1"
  shows "clock_counter c = quiet c"
proof (cases "count_written c")
  case w: True
  have ok: "counting_ok c" "\<not> triggerGATE c" "OUTpin c" and le: "count_binary c \<le> top_count (bcd_mode c)"
    using c m n w by (auto simp: clock_simps counting_ok_def split: if_splits)
  show ?thesis
  proof (cases "first_pass c")
    case f: False
    then show ?thesis using c m n w ok
      by (simp add: clock_counter_def clock_mode5_def clock_strobe_def clock_simps)
  next
    case f: True
    have b: "next_change_time c = count_binary c" "count_binary c \<noteq> 0" "count_binary c \<noteq> 1"
      using c m n w ok f by (auto simp: clock_simps split: if_splits)
    then show ?thesis using c m n w ok f below_top [OF le b(2)]
      by (simp add: clock_counter_def clock_mode5_def clock_strobe_def clock_simps)
  qed
next
  case False
  then show ?thesis using c m n
    by (auto simp: clock_counter_def clock_mode5_def clock_simps)
qed

lemma clock5_in_step:
  assumes c: "in_step c" and m: "mode c = 5"
  shows "in_step (clock_counter c)"
proof (cases "count_written c")
  case False
  then show ?thesis using c m by (simp add: clock_counter_def clock_mode5_def clock_simps)
next
  case w: True
  define c' where "c' = set_OUT True c"
  have c': "(if \<not> OUTpin c then set_OUT True c else c) = c'" by (simp add: c'_def set_OUT_same)
  have ok: "counting_ok c'" "load_ok c'" "phase_ok c'" "OUTpin c'" "mode c' = 5" "count_written c'"
    and le: "count_binary c' \<le> top_count (bcd_mode c')"
    using c w m by (auto simp: clock_simps counting_ok_def c'_def)
  have l: "set_count (ucast (inlatch c')) c' = with_count (load c') c'" "load c' \<le> top_count (bcd_mode c')"
    "load c' AND 0xFFFF = load c'"
    using ok load_image(1) [of c'] top_le [THEN and_ffff, of "load c'" "bcd_mode c'"]
    by (simp_all add: load_ok_def set_count_load)
  have e: "clock_counter c = clock_mode5 c" using m by (simp add: clock_counter_def)
  show ?thesis unfolding e clock_mode5_def using w ok l below_top [OF le]
    by (auto simp: Let_def c' clock_strobe_def clock_simps)
qed

lemma even_minus_two:
  fixes b :: Bit32u
  assumes e: "b AND 1 = 0" and b: "4 \<le> b"
  shows "(b - 2) AND 1 = 0" "(b - 2) div 2 = b div 2 - 1" "b \<noteq> 0" "b \<noteq> 1" "b - 1 \<noteq> 0"
    "b - 2 \<noteq> 0" "b - 2 \<noteq> 1" "b - 2 \<le> b" "b - 2 = 2 \<longleftrightarrow> b = 4" "b \<noteq> 4 \<longrightarrow> 4 \<le> b - 2"
    "b div 2 = 2 \<longleftrightarrow> b = 4" "2 \<le> b div 2" "b div 2 - 1 \<le> b" "b div 2 - 2 \<le> b"
    "b div 2 - 1 = 1 \<longleftrightarrow> b = 4" "b div 2 - 1 \<noteq> 0"
proof -
  have "even b" using e by (simp add: and_one_eq even_iff_mod_2_eq_zero)
  then have "unat b mod 2 = 0" by (simp add: even_iff_mod_2_eq_zero word_unat_eq_iff unat_mod)
  then obtain k where k: "unat b = 2 * k" by (metis dvdE even_iff_mod_2_eq_zero)
  have k2: "2 \<le> k" using b k by (simp add: word_le_nat_alt)
  have u: "unat (b - 2) = 2 * k - 2" "unat (b - 1) = 2 * k - 1" "unat (b div 2) = k"
    using b k k2 by (simp_all add: unat_sub word_le_nat_alt unat_div)
  have v: "unat (b div 2 - 1) = k - 1" "unat (b div 2 - 2) = k - 2"
    using u k2 by (simp_all add: unat_sub word_le_nat_alt)
  have "even (b - 2)" using \<open>even b\<close> by simp
  then show "(b - 2) AND 1 = 0" by (simp add: and_one_eq even_iff_mod_2_eq_zero)
  show "(b - 2) div 2 = b div 2 - 1" using u v by (simp add: word_unat_eq_iff unat_div)
  show "b \<noteq> 0" "b \<noteq> 1" "b - 1 \<noteq> 0" "b - 2 \<noteq> 0" "b - 2 \<noteq> 1" "b - 2 = 2 \<longleftrightarrow> b = 4"
    "b div 2 = 2 \<longleftrightarrow> b = 4" "b div 2 - 1 = 1 \<longleftrightarrow> b = 4" "b div 2 - 1 \<noteq> 0"
    unfolding word_unat_eq_iff u v k using k2 by (simp; presburger)+
  show "b - 2 \<le> b" "b \<noteq> 4 \<longrightarrow> 4 \<le> b - 2" "2 \<le> b div 2" "b div 2 - 1 \<le> b" "b div 2 - 2 \<le> b"
    unfolding word_unat_eq_iff word_le_nat_alt u v k using k2 by (simp; presburger)+
qed

lemma even_latch:
  fixes d :: Bit16u
  assumes d: "d AND 1 = 0" "4 \<le> d"
  shows "d AND 0xFFFE = d" "(ucast d :: Bit32u) AND 1 = 0" "4 \<le> (ucast d :: Bit32u)"
proof -
  have b: "\<not> bit d 0" using d(1) by (simp add: and_one_eq bit_0 even_iff_mod_2_eq_zero)
  have m: "0xFFFE = (NOT 1 :: Bit16u)" by simp
  show "d AND 0xFFFE = d" unfolding m
    by (rule bit_word_eqI) (use b in \<open>auto simp: bit_and_iff bit_not_iff bit_1_iff intro: gr0I\<close>)
  show "(ucast d :: Bit32u) AND 1 = 0"
    by (rule bit_word_eqI) (use b in \<open>auto simp: bit_and_iff bit_1_iff bit_ucast_iff intro: gr0I\<close>)
  show "4 \<le> (ucast d :: Bit32u)"
    using d(2) unsigned_less [of d, where 'a = nat] by (simp add: word_le_nat_alt unsigned_ucast_eq take_bit_nat_eq_self)
qed

lemma clock3_load:
  assumes c: "load_ok c" "mode c = 3" "count_written c" "GATE c" "triggerGATE c \<or> first_pass c \<or> state_bit_2 c"
  defines "x \<equiv> (with_count (load c) c)\<lparr>state_bit_1 := False, next_change_time := load c div 2 - 1, null_count := False\<rparr>"
  shows "clock_counter c =
    (if \<not> OUTpin c then set_OUT True x else if \<not> first_pass c then set_OUT False x else x)
      \<lparr>state_bit_2 := False, first_pass := False, triggerGATE := False\<rparr>"
    and "load c AND 1 = 0" "4 \<le> load c"
proof -
  have l: "load c = ucast (inlatch c)" and i: "inlatch c AND 1 = 0" "4 \<le> inlatch c" "\<not> bcd_mode c"
    using c by (simp_all add: load_ok_def load_def load_value_def)
  note el = even_latch [OF i(1,2)]
  show ev: "load c AND 1 = 0" "4 \<le> load c" using el by (simp_all add: l)
  note e = even_minus_two [OF ev]
  have n: "(load c div 2 - 1) AND 0xFFFF = load c div 2 - 1"
    using e(13) latch_word(2) [of "inlatch c"] by (intro and_ffff) (auto simp: l intro: order_trans)
  have s: "set_count (ucast (inlatch c AND 0xFFFE)) c = with_count (load c) c"
    using i by (simp add: el set_count_load)
  show "clock_counter c =
    (if \<not> OUTpin c then set_OUT True x else if \<not> first_pass c then set_OUT False x else x)
      \<lparr>state_bit_2 := False, first_pass := False, triggerGATE := False\<rparr>"
    using c i n e(16) by (simp add: clock_counter_def clock_mode3_def Let_def s x_def)
qed

lemma decrement_twice:
  assumes c: "counting_ok c" and b: "count_binary c AND 1 = 0" "4 \<le> count_binary c"
  shows "decrement (decrement c) = with_count (count_binary c - 2) c"
proof -
  have "2 \<le> unat (count_binary c)" using b(2) by (simp add: word_le_nat_alt)
  from decrement_down [OF c this] show ?thesis by (simp add: numeral_2_eq_2)
qed

lemma clock3_count:
  assumes c: "counting_ok c" "mode c = 3" "count_written c" "GATE c" "\<not> triggerGATE c" "\<not> first_pass c" "\<not> state_bit_2 c"
    "\<not> state_bit_1 c" "count_binary c AND 1 = 0" "4 \<le> count_binary c" "\<not> bcd_mode c"
  shows "clock_counter c = (with_count (count_binary c - 2) c)
    \<lparr>next_change_time := count_binary c div 2 - 2, state_bit_2 := (count_binary c = 4),
     next_change_time := (if count_binary c = 4 then 1 else count_binary c div 2 - 2)\<rparr>"
proof -
  let ?b = "count_binary c"
  have le: "?b \<le> top_count (bcd_mode c)" using c by (simp add: counting_ok_def)
  note e = even_minus_two [OF c(9,10)] and d = decrement_twice [OF c(1,9,10)]
  have le2: "?b - 2 \<le> top_count (bcd_mode c)" using e(8) le by (rule order_trans)
  have h: "(?b - 2) div 2 - 1 = ?b div 2 - 2" by (simp add: e(2))
  have "(?b div 2 - 2) AND 0xFFFF = ?b div 2 - 2"
    using e(14) top_le [OF le] by (intro and_ffff) (rule order_trans)
  then have h': "((?b - 2) div 2 - 1) AND 0xFFFF = ?b div 2 - 2" by (simp only: h)
  have z: "encode (bcd_mode c) (?b - 2) = 0 \<longleftrightarrow> False" "encode (bcd_mode c) (?b - 2) = 2 \<longleftrightarrow> ?b = 4"
    using encode_small(1,3) [OF le2] e(6,9) by simp_all
  have two: "2 \<le> top_count (bcd_mode c)" by (simp add: top_count_def)
  have s: "(with_count b c)\<lparr>next_change_time := v, state_bit_2 := False\<rparr> = (with_count b c)\<lparr>next_change_time := v\<rparr>" for b v
    using c(7) by (cases c) (simp add: with_count_def)
  show ?thesis using c(2-8)
    by (cases "?b = 4")
      (simp_all add: clock_counter_def clock_mode3_def Let_def d z h' trig_same s encode_small [OF two])
qed

lemma clock3_quiet:
  assumes c: "in_step c" and m: "mode c = 3" and n: "next_change_time c \<noteq> 1"
  shows "clock_counter c = quiet c"
proof (cases "count_written c \<and> GATE c")
  case w: True
  have ok: "counting_ok c" "\<not> triggerGATE c" "\<not> first_pass c" "\<not> state_bit_2 c" "\<not> bcd_mode c" "\<not> state_bit_1 c"
    "count_written c" "GATE c"
    and b: "count_binary c AND 1 = 0" "4 \<le> count_binary c" and nx: "next_change_time c = count_binary c div 2 - 1"
    using c m n w by (auto simp: clock_simps load_ok_def)
  have b4: "count_binary c \<noteq> 4" using n nx by auto
  note k = clock3_count [OF ok(1) m ok(7,8,2,3,4,6) b ok(5)] and d = decrement_twice [OF ok(1) b]
  have "(with_count b c)\<lparr>next_change_time := v, state_bit_2 := False\<rparr> = (with_count b c)\<lparr>next_change_time := v\<rparr>" for b v
    using ok(4) by (cases c) (simp add: with_count_def)
  then show ?thesis using nx m even_minus_two(16) [OF b] b4
    by (simp add: k d quiet_def pace_def numeral_2_eq_2)
next
  case False
  then show ?thesis using c m n
    by (auto simp: clock_counter_def clock_mode3_def clock_simps)
qed

lemma clock3_in_step:
  assumes c: "in_step c" and m: "mode c = 3"
  shows "in_step (clock_counter c)"
proof (cases "count_written c \<and> GATE c")
  case False
  then show ?thesis using c m by (auto simp: clock_counter_def clock_mode3_def clock_simps)
next
  case w: True
  have ok: "counting_ok c" "load_ok c" "\<not> bcd_mode c"
    using c w m by (auto simp: clock_simps load_ok_def)
  show ?thesis
  proof (cases "triggerGATE c \<or> first_pass c \<or> state_bit_2 c")
    case n: True
    note l = clock3_load [OF ok(2) m _ _ n]
    have "load c \<le> top_count (bcd_mode c)" using load_image(1) [of c] ok by simp
    then show ?thesis using c m w ok l(2,3) by (simp add: l(1) in_step_def phase_ok_def due_def)
  next
    case n: False
    then have b: "\<not> state_bit_1 c" "count_binary c AND 1 = 0" "4 \<le> count_binary c" using c m w by (auto simp: clock_simps)
    have "counting_ok c" "count_written c" "GATE c" "\<not> triggerGATE c" "\<not> first_pass c" "\<not> state_bit_2 c"
      using ok w n by auto
    note e = even_minus_two [OF b(2,3)] and k = clock3_count [OF this(1) m this(2-6) b ok(3)]
    have "count_binary c - 2 \<le> top_count (bcd_mode c)"
      using e(8) ok(1) by (auto simp: counting_ok_def intro: order_trans)
    then show ?thesis using c m w ok n b e by (simp add: k in_step_def phase_ok_def due_def)
  qed
qed


section \<open>Many cycles at once\<close>

lemma decrement_next: "decrement (c\<lparr>next_change_time := v\<rparr>) = (decrement c)\<lparr>next_change_time := v\<rparr>"
  by (simp add: decrement_def set_count_to_binary_def)

lemma set_count_next: "set_count d (c\<lparr>next_change_time := v\<rparr>) = (set_count d c)\<lparr>next_change_time := v\<rparr>"
  by (simp add: set_count_eq)

lemma set_OUT_next: "set_OUT d (c\<lparr>next_change_time := v\<rparr>) = (set_OUT d c)\<lparr>next_change_time := v\<rparr>"
  by (simp add: set_OUT_def Let_def)

lemma decrement_sel [simp]:
  "mode (decrement c) = mode c" "GATE (decrement c) = GATE c" "count_written (decrement c) = count_written c"
  "write_state (decrement c) = write_state c" "first_pass (decrement c) = first_pass c"
  "next_change_time (decrement c) = next_change_time c" "OUTpin (decrement c) = OUTpin c"
  "null_count (decrement c) = null_count c" "triggerGATE (decrement c) = triggerGATE c"
  "state_bit_1 (decrement c) = state_bit_1 c" "state_bit_2 (decrement c) = state_bit_2 c"
  "inlatch (decrement c) = inlatch c"
  by (simp_all add: decrement_def set_count_to_binary_def)

lemma set_count_sel [simp]:
  "GATE (set_count d c) = GATE c" "OUTpin (set_count d c) = OUTpin c" "first_pass (set_count d c) = first_pass c"
  "inlatch (set_count d c) = inlatch c" "mode (set_count d c) = mode c"
  by (simp_all add: set_count_eq)

lemma next_if: "(if b then c\<lparr>next_change_time := x\<rparr> else c\<lparr>next_change_time := y\<rparr>) =
  c\<lparr>next_change_time := (if b then x else y)\<rparr>"
  by simp

lemma clock_ignores_next: "clock_counter (c\<lparr>next_change_time := v\<rparr>) = clock_counter c"
proof -
  have m: "clock_mode0 (c\<lparr>next_change_time := v\<rparr>) = clock_mode0 c" "clock_mode1 (c\<lparr>next_change_time := v\<rparr>) = clock_mode1 c"
    "clock_mode2 (c\<lparr>next_change_time := v\<rparr>) = clock_mode2 c" "clock_mode3 (c\<lparr>next_change_time := v\<rparr>) = clock_mode3 c"
    by (simp_all add: clock_mode0_def clock_mode1_def clock_mode2_def clock_mode3_def decrement_next set_count_next
        set_OUT_next Let_def next_if cong del: if_weak_cong split del: if_split)
  have m': "clock_mode4 (c\<lparr>next_change_time := v\<rparr>) = clock_mode4 c" "clock_mode5 (c\<lparr>next_change_time := v\<rparr>) = clock_mode5 c"
    by (cases "OUTpin c"; simp add: clock_mode4_def clock_mode5_def clock_strobe_def decrement_next set_count_next
        set_OUT_next Let_def cong del: if_weak_cong split del: if_split)+
  show ?thesis by (simp add: clock_counter_def m m')
qed

lemma clock_mode_keep: "mode (clock_counter c) = mode c"
  by (simp add: clock_counter_def clock_mode0_def clock_mode1_def clock_mode2_def clock_mode3_def clock_mode4_def
      clock_mode5_def clock_strobe_def Let_def if_distrib [of mode] cong del: if_weak_cong split del: if_split)


lemma in_step_modes: "in_step c \<Longrightarrow> mode c = 0 \<or> mode c = 1 \<or> mode c = 2 \<or> mode c = 3 \<or> mode c = 4 \<or> mode c = 5"
proof -
  assume "in_step c"
  then have "unat (mode c) \<le> 5" by (simp add: in_step_def word_le_nat_alt)
  then have "unat (mode c) = 0 \<or> unat (mode c) = 1 \<or> unat (mode c) = 2 \<or> unat (mode c) = 3 \<or> unat (mode c) = 4 \<or>
    unat (mode c) = 5" by arith
  then show ?thesis by (simp add: word_unat_eq_iff)
qed

lemma clock_quiet: "in_step c \<Longrightarrow> next_change_time c \<noteq> 1 \<Longrightarrow> clock_counter c = quiet c"
  and clock_in_step: "in_step c \<Longrightarrow> in_step (clock_counter c)"
proof -
  show "in_step c \<Longrightarrow> next_change_time c \<noteq> 1 \<Longrightarrow> clock_counter c = quiet c"
    using in_step_modes clock0_quiet clock1_quiet clock2_quiet clock3_quiet clock4_quiet clock5_quiet by blast
  show "in_step c \<Longrightarrow> in_step (clock_counter c)"
    using in_step_modes clock0_in_step clock1_in_step clock2_in_step clock3_in_step clock4_in_step clock5_in_step by blast
qed

lemma funpow_decrement_sel [simp]:
  "next_change_time ((decrement ^^ k) c) = next_change_time c" "mode ((decrement ^^ k) c) = mode c"
  "running ((decrement ^^ k) c) = running c" "pace ((decrement ^^ k) c) = pace c"
  by (induction k) (simp_all add: running_def pace_def)

interpretation timer: event_timer clock_counter quiet "\<lambda>c. unat (next_change_time c)" in_step
proof unfold_locales
  fix c assume c: "in_step c"
  show "in_step (clock_counter c)" by (rule clock_in_step [OF c])
  assume n: "unat (next_change_time c) \<noteq> 1"
  show "clock_counter c = quiet c" using n by (intro clock_quiet [OF c]) auto
  show "unat (next_change_time (quiet c)) = unat (next_change_time c) - 1"
    by (simp add: quiet_def unat_minus_one)
qed

lemma funpow_decrement_next:
  "(decrement ^^ k) (c\<lparr>next_change_time := v\<rparr>) = ((decrement ^^ k) c)\<lparr>next_change_time := v\<rparr>"
  by (induction k) (simp_all add: decrement_next)

lemma quiet_idle:
  "next_change_time c = 0 \<Longrightarrow> (quiet ^^ k) c = (if running c then (decrement ^^ (pace c * k)) c else c)"
proof (induction k)
  case (Suc k)
  then show ?case
    by (simp add: quiet_def funpow_add)
qed simp

lemma quiet_skip:
  "k < unat (next_change_time c) \<Longrightarrow>
   (quiet ^^ k) c = ((decrement ^^ (pace c * k)) c)\<lparr>next_change_time := next_change_time c - of_nat k\<rparr>"
proof (induction k)
  case 0
  then show ?case by (simp add: next_same)
next
  case (Suc k)
  have "next_change_time c \<noteq> of_nat k"
  proof
    assume "next_change_time c = of_nat k"
    then have "unat (next_change_time c) = take_bit 32 k" by (simp add: unsigned_of_nat)
    then show False using Suc.prems take_bit_nat_less_eq_self [of 32 k] by linarith
  qed
  then show ?case using Suc
    by (simp add: quiet_def funpow_decrement_next pace_def funpow_add diff_diff_eq)
qed

lemma skip_cycles:
  assumes "counting_ok c" "mode c = 3 \<longrightarrow> n < 0x80000000"
  shows "(if mode c = 3 then decrement_multiple (n * 2) c else decrement_multiple n c) = (decrement ^^ (pace c * unat n)) c"
    "decrement_multiple (2 * n) c = decrement_multiple (n * 2) c"
proof -
  have "unat (n * 2) = 2 * unat n" if "n < 0x80000000"
    using that by (simp add: word_less_nat_alt unat_word_ariths)
  then show "(if mode c = 3 then decrement_multiple (n * 2) c else decrement_multiple n c) = (decrement ^^ (pace c * unat n)) c"
    using assms by (simp add: decrement_multiple_eq pace_def)
  show "decrement_multiple (2 * n) c = decrement_multiple (n * 2) c" by (simp add: mult.commute)
qed

text \<open>The body of \<open>clock_multiple\<close>'s loop, with the two cases of the mode joined.\<close>

lemma clock_multiple_unfold:
  assumes c: "in_step c" and n: "n \<noteq> 0" "mode c = 3 \<longrightarrow> n < 0x80000000"
  shows "clock_multiple_counter n c =
    (if next_change_time c = 0 then (if running c then (decrement ^^ (pace c * unat n)) c else c)
     else if n < next_change_time c
     then ((decrement ^^ (pace c * unat n)) c)\<lparr>next_change_time := next_change_time c - n\<rparr>
     else clock_multiple_counter (n - next_change_time c)
       (clock_counter ((decrement ^^ (pace c * unat (next_change_time c - 1))) c)))"
proof -
  have ok: "counting_ok c" using c by (simp add: in_step_def)
  note s = skip_cycles [OF ok n(2)]
  have z: "clock_multiple_counter 0 x = x" for x by (simp add: clock_multiple_counter.simps)
  have n0: "n > 0" using n(1) by (simp add: word_gt_0)
  consider "next_change_time c = 0" | "next_change_time c \<noteq> 0" "n < next_change_time c"
    | "next_change_time c \<noteq> 0" "next_change_time c \<le> n" by fastforce
  then show ?thesis
  proof cases
    case 1
    then show ?thesis using in_step_modes [OF c] s n0
      by (subst clock_multiple_counter.simps) (auto simp: z running_def Let_def)
  next
    case 2
    then show ?thesis using in_step_modes [OF c] s n0
      by (subst clock_multiple_counter.simps) (auto simp: z Let_def)
  next
    case 3
    have le: "next_change_time c - 1 \<le> n" using 3 minus_one_le by (blast intro: order_trans)
    then have "mode c = 3 \<longrightarrow> next_change_time c - 1 < 0x80000000" using n(2) by (blast intro: order.strict_trans1)
    note s' = skip_cycles(1) [OF ok this]
    show ?thesis using in_step_modes [OF c] s' n0 3
      by (subst clock_multiple_counter.simps) (auto simp: z Let_def not_less)
  qed
qed

lemma clock_multiple_eq:
  "in_step c \<Longrightarrow> (mode c = 3 \<longrightarrow> n < 0x80000000) \<Longrightarrow> clock_multiple_counter n c = (clock_counter ^^ unat n) c"
proof (induction "unat n" arbitrary: n c rule: less_induct)
  case less
  note c = less.prems
  show ?case
  proof (cases "n = 0")
    case True
    then show ?thesis by (simp add: clock_multiple_counter.simps)
  next
    case n: False
    let ?w = "next_change_time c"
    note u = clock_multiple_unfold [OF c(1) n c(2)]
    consider "?w = 0" | "n < ?w" | "?w \<noteq> 0" "?w \<le> n" by fastforce
    then show ?thesis
    proof cases
      case 1
      then show ?thesis using timer.idle [OF c(1), of "unat n"] by (simp add: u quiet_idle)
    next
      case 2
      then have "unat n < unat ?w" by (simp add: word_less_nat_alt)
      then show ?thesis using timer.skip [OF c(1), of "unat n"] quiet_skip [of "unat n" c] 2 by (auto simp: u)
    next
      case 3
      define k where "k = unat (?w - 1)"
      have w: "unat ?w = Suc k" "unat ?w \<le> unat n"
        using 3 unat_gt_0 [of ?w] by (auto simp: k_def unat_minus_one word_le_nat_alt)
      have "(clock_counter ^^ k) c = ((decrement ^^ (pace c * k)) c)\<lparr>next_change_time := ?w - of_nat k\<rparr>"
        using timer.skip [OF c(1), of k] quiet_skip [of k c] w by simp
      then have e: "(clock_counter ^^ unat ?w) c = clock_counter ((decrement ^^ (pace c * k)) c)"
        by (simp add: w(1) clock_ignores_next)
      let ?d = "clock_counter ((decrement ^^ (pace c * k)) c)"
      have d: "in_step ?d" using timer.funpow_ok [OF c(1), of "unat ?w"] by (simp only: e)
      have m: "mode ?d = mode c" by (simp add: clock_mode_keep)
      have sub: "unat (n - ?w) = unat n - unat ?w" using 3 by (simp add: unat_sub)
      have "n - ?w \<le> n" using sub by (simp add: word_le_nat_alt)
      then have b: "mode ?d = 3 \<longrightarrow> n - ?w < 0x80000000" using c(2) by (auto simp: m intro: order.strict_trans1)
      have "clock_multiple_counter n c = clock_multiple_counter (n - ?w) ?d" using 3 by (simp add: u k_def not_less)
      also have "\<dots> = (clock_counter ^^ unat (n - ?w)) ?d"
        using less.hyps [of "n - ?w" ?d] w sub d b by simp
      also have "\<dots> = (clock_counter ^^ (unat n - unat ?w + unat ?w)) c"
        by (simp only: funpow_add comp_apply e sub)
      also have "unat n - unat ?w + unat ?w = unat n" using w(2) by simp
      finally show ?thesis .
    qed
  qed
qed

end
