(* ===== verification/Pit_Waves.thy ===== *)
theory Pit_Waves
  imports Pit_Clock
begin

text \<open>
  What the interval timer counters do over whole periods: the one-shot of mode 0, the rate
  generator of mode 2 and the square wave of mode 3, the registers through which software
  programs and reads a counter, and the cases where the skipped cycles do not agree
  with the counted ones.
\<close>

section \<open>Jumping to the next event\<close>

lemma funpow_until_event:
  assumes c: "in_step c" and w: "unat (next_change_time c) = Suc k"
  shows "(clock_counter ^^ k) c = ((decrement ^^ (pace c * k)) c)\<lparr>next_change_time := 1\<rparr>"
    "j \<le> k \<Longrightarrow> OUTpin ((clock_counter ^^ j) c) = OUTpin c"
proof -
  have s: "(clock_counter ^^ j) c = ((decrement ^^ (pace c * j)) c)\<lparr>next_change_time := next_change_time c - of_nat j\<rparr>"
    if "j \<le> k" for j
    using that timer.skip [OF c, of j] quiet_skip [of j c] w by simp
  have "next_change_time c = of_nat (unat (next_change_time c))" by simp
  then have "next_change_time c - of_nat k = 1" unfolding w by simp
  then show "(clock_counter ^^ k) c = ((decrement ^^ (pace c * k)) c)\<lparr>next_change_time := 1\<rparr>"
    using s [of k] by simp
  have d: "OUTpin ((decrement ^^ i) c) = OUTpin c" for i by (induction i) simp_all
  show "j \<le> k \<Longrightarrow> OUTpin ((clock_counter ^^ j) c) = OUTpin c" by (simp add: s d)
qed

lemma with_count_next: "with_count b (c\<lparr>next_change_time := v\<rparr>) = (with_count b c)\<lparr>next_change_time := v\<rparr>"
  "with_count b (c\<lparr>state_bit_2 := x\<rparr>) = (with_count b c)\<lparr>state_bit_2 := x\<rparr>"
  "with_count b (c\<lparr>first_pass := x\<rparr>) = (with_count b c)\<lparr>first_pass := x\<rparr>"
  by (simp_all add: with_count_def)

section \<open>Square wave\<close>

definition square_phase :: "counter_type \<Rightarrow> bool" where
  "square_phase c \<longleftrightarrow> in_step c \<and> mode c = 3 \<and> count_written c \<and> GATE c \<and> \<not> null_count c \<and>
     \<not> triggerGATE c \<and> \<not> first_pass c \<and> \<not> state_bit_2 c \<and> count_binary c = load c \<and>
     next_change_time c = load c div 2 - 1"

lemma square_reload:
  assumes "\<not> state_bit_1 c" "\<not> null_count c" "\<not> triggerGATE c" "\<not> first_pass c" "\<not> state_bit_2 c"
    "next_change_time c = n"
  shows "(set_OUT d (c\<lparr>state_bit_2 := True, state_bit_1 := False, next_change_time := n, null_count := False\<rparr>))
    \<lparr>state_bit_2 := False, first_pass := False, triggerGATE := False\<rparr> = set_OUT d c"
  using assms by (cases c) (simp add: set_OUT_def Let_def)

lemma square_half:
  assumes c: "square_phase c"
  defines "k \<equiv> unat (load c) div 2"
  shows "(clock_counter ^^ k) c = set_OUT (\<not> OUTpin c) c"
    "j < k \<Longrightarrow> OUTpin ((clock_counter ^^ j) c) = OUTpin c"
proof -
  have m: "mode c = 3" "count_written c" "GATE c" "\<not> null_count c" "\<not> triggerGATE c" "\<not> first_pass c" "\<not> state_bit_2 c"
    and s: "in_step c" "count_binary c = load c" and w: "next_change_time c = load c div 2 - 1"
    using c by (simp_all add: square_phase_def)
  have o: "counting_ok c" "load_ok c" "phase_ok c" using s m by (simp_all add: in_step_def)
  have i: "in_step c" "counting_ok c" "load_ok c" "\<not> bcd_mode c" "\<not> state_bit_1 c"
    and b: "count_binary c = load c" "load c AND 1 = 0" "4 \<le> load c"
    using s o m by (simp_all add: phase_ok_def load_ok_def)
  note e = even_minus_two [OF b(2,3)]
  have u: "4 \<le> unat (load c)" using b(3) by (simp add: word_le_nat_alt)
  have "unat (load c) mod 2 = 0"
    using b(2) by (simp add: and_one_eq word_unat_eq_iff unat_mod)
  then have k: "2 \<le> k" "unat (load c) = 2 * k" using u by (auto simp: k_def)
  obtain n where n: "k = Suc (Suc n)" using k by (metis add_2_eq_Suc le_Suc_ex)
  have "unat (load c div 2) = k" by (simp add: k_def unat_div)
  then have "unat (next_change_time c) = Suc n" using n by (simp add: w) (subst unat_sub, simp_all add: word_le_nat_alt)
  note u = funpow_until_event [OF i(1) this]
  have "2 * n \<le> unat (count_binary c)" using k n by (simp add: b)
  moreover have "load c = of_nat (2 * n) + 4"
  proof -
    have "load c = of_nat (unat (load c))" by simp
    then show ?thesis unfolding k(2) n by simp
  qed
  then have "load c - of_nat (2 * n) = 4" by simp
  ultimately have "2 * n \<le> unat (count_binary c)" "load c - of_nat (2 * n) = 4" by simp_all
  then have "(decrement ^^ (2 * n)) c = with_count 4 c"
    using decrement_down [OF i(2), of "2 * n"] by (simp only: b)
  then have s1: "(clock_counter ^^ n) c = (with_count 4 c)\<lparr>next_change_time := 1\<rparr>" (is "_ = ?c1")
    using u(1) m(1) by (simp add: pace_def)
  have s2: "clock_counter ?c1 = (with_count 2 c)\<lparr>state_bit_2 := True, next_change_time := 1\<rparr>" (is "_ = ?c2")
    using clock3_count [of ?c1] i m by (simp add: top_count_def with_count_next)
  have l: "load_ok ?c2" "mode ?c2 = 3" "count_written ?c2" "GATE ?c2" "triggerGATE ?c2 \<or> first_pass ?c2 \<or> state_bit_2 ?c2"
    using i m by simp_all
  have "clock_counter ?c2 = set_OUT (\<not> OUTpin c) c"
  proof -
    have "load ?c2 = load c" by simp
    moreover have "with_count (load c) ?c2 = c\<lparr>state_bit_2 := True, next_change_time := 1\<rparr>"
      using with_count_same [OF i(2)] by (simp add: with_count_next b(1))
    ultimately show ?thesis using square_reload [OF i(5) m(4-7) w] m(6)
      unfolding clock3_load(1) [OF l] by simp
  qed
  then show "(clock_counter ^^ k) c = set_OUT (\<not> OUTpin c) c" by (simp add: n s1 s2)
  show "OUTpin ((clock_counter ^^ j) c) = OUTpin c" if "j < k"
  proof (cases "j = Suc n")
    case True
    then show ?thesis by (simp add: s1 s2)
  qed (use that n u(2) in auto)
qed

lemma set_OUT_twice:
  "set_OUT (OUTpin c) (set_OUT (\<not> OUTpin c) c) =
    (if out_handler c then c\<lparr>out_calls := out_calls c @ [\<not> OUTpin c, OUTpin c]\<rparr> else c)"
  by (cases c) (simp add: set_OUT_def Let_def)

lemma square_phase_set_OUT: "square_phase c \<Longrightarrow> square_phase (set_OUT d c)"
proof -
  assume c: "square_phase c"
  then have s: "in_step c" and m: "mode c = 3" "count_written c" "GATE c" "\<not> triggerGATE c" "\<not> first_pass c"
    "\<not> state_bit_2 c" by (simp_all add: square_phase_def)
  then have "in_step (set_OUT d c)" by (simp add: in_step_def phase_ok_def due_def)
  then show "square_phase (set_OUT d c)" using c by (simp add: square_phase_def)
qed

lemma square_period:
  assumes c: "square_phase c"
  shows "(clock_counter ^^ unat (load c)) c =
    (if out_handler c then c\<lparr>out_calls := out_calls c @ [\<not> OUTpin c, OUTpin c]\<rparr> else c)"
proof -
  have "load_ok c" "mode c = 3" using c by (simp_all add: square_phase_def in_step_def)
  then have "load c AND 1 = 0" using even_latch(2) [of "inlatch c"] by (simp add: load_ok_def load_def load_value_def)
  then have "unat (load c) mod 2 = 0" by (simp add: and_one_eq word_unat_eq_iff unat_mod)
  then have "unat (load c) = unat (load c) div 2 + unat (load c) div 2" by presburger
  then have "(clock_counter ^^ unat (load c)) c =
    (clock_counter ^^ (unat (load c) div 2)) ((clock_counter ^^ (unat (load c) div 2)) c)"
    by (metis comp_apply funpow_add)
  also have "\<dots> = set_OUT (OUTpin c) (set_OUT (\<not> OUTpin c) c)"
    using square_half(1) [OF c] square_half(1) [OF square_phase_set_OUT [OF c], of "\<not> OUTpin c"] by simp
  finally show ?thesis by (simp only: set_OUT_twice)
qed

section \<open>Rate generator\<close>

definition rate_phase :: "counter_type \<Rightarrow> bool" where
  "rate_phase c \<longleftrightarrow> in_step c \<and> mode c = 2 \<and> count_written c \<and> OUTpin c \<and> \<not> null_count c \<and>
     \<not> triggerGATE c \<and> \<not> first_pass c \<and> count_binary c = load c \<and> load c \<noteq> 0 \<and>
     next_change_time c = load c - 1"

lemma rate_reload:
  assumes "\<not> null_count c" "\<not> triggerGATE c" "\<not> first_pass c" "next_change_time c = n" "OUTpin c"
  shows "(set_OUT True (set_OUT False c\<lparr>first_pass := True, next_change_time := n, null_count := False\<rparr>))
    \<lparr>first_pass := False, triggerGATE := False\<rparr> = set_OUT True (set_OUT False c)"
  using assms by (cases c) (simp add: set_OUT_def Let_def)

lemma with_count_OUT: "with_count b (set_OUT d c) = set_OUT d (with_count b c)"
  by (simp add: set_OUT_def Let_def with_count_def)

lemma rate_period:
  assumes c: "rate_phase c"
  defines "n \<equiv> unat (load c)"
  shows "(clock_counter ^^ n) c = (if out_handler c then c\<lparr>out_calls := out_calls c @ [False, True]\<rparr> else c)"
    and "j < n \<Longrightarrow> OUTpin ((clock_counter ^^ j) c) \<longleftrightarrow> j \<noteq> n - 1"
proof -
  have m: "mode c = 2" "count_written c" "OUTpin c" "\<not> null_count c" "\<not> triggerGATE c" "\<not> first_pass c"
    and s: "in_step c" "count_binary c = load c" "load c \<noteq> 0" and w: "next_change_time c = load c - 1"
    using c by (simp_all add: rate_phase_def)
  have o: "counting_ok c" "load_ok c" "phase_ok c" using s m by (simp_all add: in_step_def)
  have g: "GATE c" and l1: "load c \<noteq> 1" using o m by (simp_all add: phase_ok_def load_ok_def)
  have "n \<noteq> 0" "n \<noteq> 1" using s(3) l1 by (simp_all add: n_def word_unat_eq_iff)
  then obtain k where k: "n = Suc (Suc k)" by (metis One_nat_def not0_implies_Suc)
  have "unat (next_change_time c) = Suc k" using s(3) k by (simp add: w unat_minus_one n_def)
  note u = funpow_until_event [OF s(1) this]
  have "load c = of_nat n" by (simp add: n_def)
  then have "load c - of_nat k = 2" unfolding k by simp
  moreover have "k \<le> unat (count_binary c)" using k by (simp add: s n_def)
  ultimately have "(decrement ^^ k) c = with_count 2 c"
    using decrement_down [OF o(1), of k] by (simp add: s)
  then have s1: "(clock_counter ^^ k) c = (with_count 2 c)\<lparr>next_change_time := 1\<rparr>" (is "_ = ?c1")
    using u(1) m(1) by (simp add: pace_def)
  have top: "2 \<le> top_count (bcd_mode c)" "1 \<le> top_count (bcd_mode c)" by (simp_all add: top_count_def)
  have d: "decrement ?c1 = (with_count 1 c)\<lparr>next_change_time := 1\<rparr>"
    using decrement_eq [of ?c1] top by (simp add: with_count_next)
  have s2: "clock_counter ?c1 = (set_OUT False (with_count 1 c))\<lparr>next_change_time := 1, first_pass := True\<rparr>" (is "_ = ?c2")
    using m g encode_small(2) [OF top(2)]
    by (simp add: clock_counter_def clock_mode2_def Let_def d set_OUT_next)
  have lc: "load ?c2 = load c" "load_ok ?c2" using o by simp_all
  have sc: "set_count (ucast (inlatch ?c2)) ?c2 = set_OUT False c\<lparr>next_change_time := 1, first_pass := True\<rparr>"
    using set_count_load [of ?c2] lc(2) with_count_same [OF o(1)]
    by (simp add: load_ok_def with_count_next with_count_OUT s)
  have "load c AND 0xFFFF = load c" "load c - 1 \<le> top_count (bcd_mode c)" "(load c - 1) AND 0xFFFF = load c - 1"
    using below_top [of "load c" "bcd_mode c"] s o(1) top_le [THEN and_ffff, of "load c" "bcd_mode c"]
    by (simp_all add: counting_ok_def)
  then have "clock_counter ?c2 = set_OUT True (set_OUT False c)"
    using m g sc s w rate_reload [OF m(4-6) w m(3)]
    by (simp add: clock_counter_def clock_mode2_def Let_def)
  then have "(clock_counter ^^ n) c = set_OUT True (set_OUT False c)" by (simp add: k s1 s2)
  then show "(clock_counter ^^ n) c = (if out_handler c then c\<lparr>out_calls := out_calls c @ [False, True]\<rparr> else c)"
    using set_OUT_twice [of c] m(3) by simp
  show "OUTpin ((clock_counter ^^ j) c) \<longleftrightarrow> j \<noteq> n - 1" if "j < n"
  proof (cases "j = Suc k")
    case True
    then show ?thesis by (simp add: s1 s2 k)
  qed (use that k u(2) m in auto)
qed

section \<open>Terminal count\<close>

definition one_shot_phase :: "counter_type \<Rightarrow> bool" where
  "one_shot_phase c \<longleftrightarrow> in_step c \<and> mode c = 0 \<and> count_written c \<and> GATE c \<and> write_state c \<noteq> MSByte_multiple \<and>
     \<not> OUTpin c \<and> \<not> null_count c \<and> \<not> triggerGATE c \<and> count_binary c \<noteq> 0 \<and> next_change_time c = count_binary c"

lemma terminal_count:
  assumes c: "one_shot_phase c"
  shows "OUTpin ((clock_counter ^^ j) c) \<longleftrightarrow> unat (count_binary c) \<le> j"
proof -
  have m: "mode c = 0" "count_written c" "GATE c" "write_state c \<noteq> MSByte_multiple" "\<not> OUTpin c" "\<not> null_count c"
      "\<not> triggerGATE c"
    and s: "in_step c" "count_binary c \<noteq> 0" "next_change_time c = count_binary c"
    using c by (simp_all add: one_shot_phase_def)
  have o: "counting_ok c" using s by (simp add: in_step_def)
  have "unat (count_binary c) \<noteq> 0" using s(2) by (simp add: unat_eq_zero)
  then obtain k where k: "unat (count_binary c) = Suc k" by (metis not0_implies_Suc)
  note u = funpow_until_event [OF s(1), unfolded s(3), OF k]
  have "count_binary c = of_nat (unat (count_binary c))" by simp
  then have "count_binary c - of_nat k = 1" unfolding k by simp
  then have "(decrement ^^ k) c = with_count 1 c" using decrement_down [OF o, of k] k by simp
  then have s1: "(clock_counter ^^ k) c = (with_count 1 c)\<lparr>next_change_time := 1\<rparr>" (is "_ = ?c1")
    using u(1) m(1) by (simp add: pace_def)
  have top: "1 \<le> top_count (bcd_mode c)" "0 \<le> top_count (bcd_mode c)" by (simp_all add: top_count_def)
  have d: "decrement ?c1 = (with_count 0 c)\<lparr>next_change_time := 1\<rparr>"
    using decrement_eq [of ?c1] top by (simp add: with_count_next)
  have "clock_counter ?c1 = set_OUT True ((with_count 0 c)\<lparr>next_change_time := 0\<rparr>)" (is "_ = ?c2")
    using m encode_small(1) [OF top(2)]
    by (simp add: clock_counter_def clock_mode0_def Let_def d set_OUT_next)
  then have s2: "(clock_counter ^^ Suc k) c = ?c2" by (simp add: s1)
  have ok: "in_step ?c2" using timer.funpow_ok [OF s(1), of "Suc k"] by (simp only: s2)
  have high: "OUTpin ((clock_counter ^^ i) ?c2)" for i
  proof -
    have "OUTpin ((decrement ^^ i) x) = OUTpin x" for i x by (induction i) simp_all
    then show ?thesis using timer.idle [OF ok, of i] by (simp add: quiet_idle)
  qed
  show ?thesis
  proof (cases "j \<le> k")
    case True
    then show ?thesis using u(2) [OF True] m k by simp
  next
    case False
    then have "j = (j - Suc k) + Suc k" by simp
    then have "(clock_counter ^^ j) c = (clock_counter ^^ (j - Suc k)) ?c2" by (metis comp_apply funpow_add s2)
    then show ?thesis using high False k by simp
  qed
qed

end
