(* ===== verification/Pit_Ports.thy ===== *)
theory Pit_Ports
  imports Pit_Waves
begin

text \<open>
  The registers of the interval timer: programming a counter through its command and data
  port puts it in step, reading a latched count returns both bytes of one moment, and the
  time the chip reports for its next event. The cases where skipping cycles is not counting
  them close the theory.
\<close>

section \<open>Programming a counter\<close>

text \<open>The counts a mode can be programmed with.\<close>

definition count_ok :: "Bit8u \<Rightarrow> bool \<Rightarrow> Bit16u \<Rightarrow> bool" where
  "count_ok m bcd d \<longleftrightarrow> (bcd \<longrightarrow> digits_ok (ucast d)) \<and>
     (m = 2 \<longrightarrow> d \<noteq> 1 \<and> (bcd \<longrightarrow> d \<noteq> 0)) \<and> (m = 3 \<longrightarrow> \<not> bcd \<and> d AND 1 = 0 \<and> 4 \<le> d)"

definition program :: "Bit8u \<Rightarrow> Bit8u \<Rightarrow> Bit8u \<Rightarrow> Bit8u \<Rightarrow> counter_type \<Rightarrow> counter_type" where
  "program M BCD lo hi c = write_count hi (write_count lo (program_counter 3 M BCD c))"

lemma le_five:
  assumes "M \<le> (5 :: Bit8u)"
  shows "M = 0 \<or> M = 1 \<or> M = 2 \<or> M = 3 \<or> M = 4 \<or> M = 5"
proof -
  have "unat M \<le> 5" using assms by (simp add: word_le_nat_alt)
  then have "unat M = 0 \<or> unat M = 1 \<or> unat M = 2 \<or> unat M = 3 \<or> unat M = 4 \<or> unat M = 5" by arith
  then show ?thesis by (simp add: word_unat_eq_iff)
qed

lemma set_OUT_latches [simp]:
  "read_state (set_OUT d c) = read_state c" "count_LSB_latched (set_OUT d c) = count_LSB_latched c"
  "count_MSB_latched (set_OUT d c) = count_MSB_latched c" "status_latched (set_OUT d c) = status_latched c"
  "outlatch (set_OUT d c) = outlatch c"
  by (simp_all add: set_OUT_def Let_def)

lemma set_count_latches [simp]:
  "read_state (set_count d c) = read_state c" "count_LSB_latched (set_count d c) = count_LSB_latched c"
  "count_MSB_latched (set_count d c) = count_MSB_latched c" "status_latched (set_count d c) = status_latched c"
  "outlatch (set_count d c) = outlatch c" "write_state (set_count d c) = write_state c"
  "triggerGATE (set_count d c) = triggerGATE c"
  by (simp_all add: set_count_eq)

lemma program_counter_sel [simp]:
  "mode (program_counter 3 M BCD c) = M" "bcd_mode (program_counter 3 M BCD c) = (BCD > 0)"
  "count_written (program_counter 3 M BCD c) = False" "first_pass (program_counter 3 M BCD c) = True"
  "GATE (program_counter 3 M BCD c) = GATE c" "triggerGATE (program_counter 3 M BCD c) = triggerGATE c"
  "OUTpin (program_counter 3 M BCD c) = (M \<noteq> 0)" "write_state (program_counter 3 M BCD c) = LSByte_multiple"
  "read_state (program_counter 3 M BCD c) = LSByte_multiple" "next_change_time (program_counter 3 M BCD c) = 0"
  "count_LSB_latched (program_counter 3 M BCD c) = False" "count_MSB_latched (program_counter 3 M BCD c) = False"
  "status_latched (program_counter 3 M BCD c) = False"
  by (simp_all add: program_counter_def Let_def)

lemma program_fields:
  fixes M BCD lo hi :: Bit8u and c :: counter_type
  assumes "M \<le> 5"
  defines "p \<equiv> program M BCD lo hi c"
  shows "mode p = M \<and> bcd_mode p = (BCD > 0) \<and> inlatch p = ucast lo OR shl (ucast hi) 8 \<and> count_written p \<and>
    first_pass p \<and> null_count p \<and> GATE p = GATE c \<and> triggerGATE p = triggerGATE c \<and> OUTpin p = (M \<noteq> 0) \<and>
    write_state p = LSByte_multiple \<and> read_state p = LSByte_multiple \<and>
    next_change_time p = (if (M = 1 \<or> M = 5) \<and> \<not> triggerGATE c then 0 else 1)"
  using le_five [OF assms(1)]
  by (elim disjE) (simp_all add: p_def program_def write_count_def set_count_eq)

lemma program_counting_ok:
  assumes "M \<le> 5" "BCD > 0 \<longrightarrow> digits_ok (ucast (ucast lo OR shl (ucast hi) 8 :: Bit16u))"
  shows "counting_ok (program M BCD lo hi c)"
proof -
  define d where "d = (ucast lo OR shl (ucast hi) 8 :: Bit16u)"
  have ok: "counting_ok (set_count (ucast d) x)" if "bcd_mode x = (BCD > 0)" for x
  proof -
    have "bcd_mode (x\<lparr>inlatch := d\<rparr>) \<longrightarrow> digits_ok (ucast (inlatch (x\<lparr>inlatch := d\<rparr>)))"
      using assms that by (simp add: d_def)
    from load_image [OF this] show ?thesis using that
      by (simp add: counting_ok_def set_count_eq latch_word load_def)
  qed
  show ?thesis using le_five [OF assms(1)]
    by (elim disjE; cases "triggerGATE c") (simp_all add: program_def write_count_def ok Let_def d_def [symmetric])
qed

lemma ucast_latch:
  "(ucast d :: Bit32u) = 0 \<longleftrightarrow> d = 0" "(ucast d :: Bit32u) = 1 \<longleftrightarrow> d = 1" for d :: Bit16u
  using unsigned_less [of d, where 'a = nat]
  by (simp_all add: word_unat_eq_iff unsigned_ucast_eq take_bit_nat_eq_self)

lemma program_in_step:
  assumes M: "M \<le> 4" and d: "count_ok M (BCD > 0) (ucast lo OR shl (ucast hi) 8)" and g: "M = 2 \<longrightarrow> GATE c"
  shows "in_step (program M BCD lo hi c)"
proof -
  define p where "p = program M BCD lo hi c"
  have M5: "M \<le> 5" using M by (auto intro: order_trans)
  note f = program_fields [OF M5, of BCD lo hi c, folded p_def]
  have "counting_ok p" unfolding p_def using d M5 by (intro program_counting_ok) (auto simp: count_ok_def)
  moreover have "load_ok p"
  proof -
    let ?d = "ucast lo OR shl (ucast hi) 8 :: Bit16u"
    have g: "bcd_mode p \<longrightarrow> digits_ok (ucast (inlatch p))" using d f by (simp add: count_ok_def)
    have u: "(ucast ?d :: Bit32u) = 0 \<longleftrightarrow> ?d = 0" "(ucast ?d :: Bit32u) = 1 \<longleftrightarrow> ?d = 1"
      by (rule ucast_latch)+
    have "load p = 0 \<longleftrightarrow> ?d = 0" "load p = 1 \<longleftrightarrow> ?d = 1"
      using encode_small(1,2) [OF load_image(1) [OF g]] f u unfolding load_image(2) [OF g] by simp_all
    then show ?thesis using d f by (simp add: load_ok_def count_ok_def)
  qed
  moreover have "phase_ok p" using f g by (simp add: phase_ok_def)
  moreover have "next_change_time p = 1 \<or> next_change_time p = due p \<and> \<not> triggerGATE p"
    using f M by (auto simp: due_def)
  ultimately show ?thesis using M5 f by (simp add: in_step_def p_def)
qed

lemma pit_program:
  assumes a: "a \<le> 2" and cw: "shr cw 6 AND 3 = a" "shr cw 4 AND 3 = 3"
  shows "counter (pit_write a hi (pit_write a lo (pit_write 3 cw s))) (unat a) =
    program (shr cw 1 AND 7) (cw AND 1) lo hi (counter s (unat a))"
proof -
  have "unat a \<le> 2" using a by (simp add: word_le_nat_alt)
  then have "a \<noteq> 3" "\<not> 3 < a" by (auto simp: word_less_nat_alt)
  then show ?thesis using cw
    by (simp add: pit_write_def MAX_ADDRESS_def CONTROL_ADDRESS_def write_control_def Let_def program_def)
qed

section \<open>Reading a latched count\<close>

definition latches :: "counter_type \<Rightarrow> Bit16u \<times> bool \<times> bool \<times> bool \<times> rw_status" where
  "latches c = (outlatch c, count_LSB_latched c, count_MSB_latched c, status_latched c, read_state c)"

lemma latches_upd [simp]:
  "latches (c\<lparr>next_change_time := n\<rparr>) = latches c" "latches (c\<lparr>null_count := x\<rparr>) = latches c"
  "latches (c\<lparr>triggerGATE := x\<rparr>) = latches c" "latches (c\<lparr>first_pass := x\<rparr>) = latches c"
  "latches (c\<lparr>state_bit_1 := x\<rparr>) = latches c" "latches (c\<lparr>state_bit_2 := x\<rparr>) = latches c"
  "latches (c\<lparr>count_binary := b\<rparr>) = latches c"
  "latches (set_OUT d c) = latches c" "latches (set_count e c) = latches c" "latches (decrement c) = latches c"
  "latches (set_count_to_binary c) = latches c"
  by (simp_all add: latches_def set_OUT_def Let_def set_count_eq decrement_def set_count_to_binary_def)

lemma latches_clock [simp]: "latches (clock_counter c) = latches c"
  by (simp add: clock_counter_def clock_mode0_def clock_mode1_def clock_mode2_def clock_mode3_def clock_mode4_def
      clock_mode5_def clock_strobe_def Let_def if_distrib [of latches] cong del: if_weak_cong split del: if_split)

lemma latches_decrement_multiple [simp]: "latches (decrement_multiple n c) = latches c"
proof (induction n c rule: decrement_multiple.induct)
  case (1 n c)
  then show ?case by (subst decrement_multiple.simps) auto
qed

lemma latches_clock_multiple [simp]: "latches (clock_multiple_counter n c) = latches c"
proof (induction "unat n" arbitrary: n c rule: less_induct)
  case less
  have z: "clock_multiple_counter 0 x = x" for x by (simp add: clock_multiple_counter.simps)
  let ?w = "next_change_time c"
  consider "?w = 0 \<or> n = 0" | "n < ?w" "?w \<noteq> 0" | "n \<noteq> 0" "?w \<noteq> 0" "?w \<le> n" by fastforce
  then show ?case
  proof cases
    case 1
    then show ?thesis
      by (subst clock_multiple_counter.simps)
        (auto simp: z Let_def if_distrib [of latches] cong del: if_weak_cong split del: if_split)
  next
    case 2
    then show ?thesis
      by (subst clock_multiple_counter.simps)
        (simp add: z Let_def if_distrib [of latches] cong del: if_weak_cong split del: if_split)
  next
    case 3
    then have "unat (n - ?w) < unat n" by (simp add: unat_sub word_le_nat_alt unat_gt_0)
    then have "latches (clock_multiple_counter (n - ?w) d) = latches d" for d by (rule less)
    then show ?thesis using 3
      by (subst clock_multiple_counter.simps)
        (simp add: z Let_def not_less if_distrib [of latches] cong del: if_weak_cong split del: if_split)
  qed
qed

lemma latches_clock_all: "latches (counter (clock_all n s) i) = latches (counter s i)"
  by (simp add: clock_all_def clock_multiple_def MAX_COUNTER_def)

text \<open>
  A counter read in two bytes: the latch command takes the count, the reads return its low and
  its high byte however many clocks pass, and leave the counter as before the command.
\<close>

lemma latch_fields:
  assumes "read_state c = LSByte_multiple" "\<not> count_LSB_latched c" "\<not> count_MSB_latched c" "\<not> status_latched c"
  shows "latches (latch_counter c) = (ucast (count c AND 0xFFFF), True, True, False, LSByte_multiple)"
  using assms by (simp add: latch_counter_def latches_def)

lemma read_low:
  assumes "latches c = (v, True, True, False, LSByte_multiple)"
  shows "fst (read_counter c) = ucast (v AND 0xFF)"
    "latches (snd (read_counter c)) = (v, False, True, False, MSByte_multiple)"
  using assms by (auto simp: latches_def read_counter_def Let_def)

lemma read_high:
  assumes "latches c = (v, False, True, False, MSByte_multiple)"
  shows "fst (read_counter c) = ucast (shr v 8 AND 0xFF)"
    "latches (snd (read_counter c)) = (v, False, False, False, LSByte_multiple)"
  using assms by (auto simp: latches_def read_counter_def Let_def)

lemma pit_read_counter:
  assumes "a \<le> 2"
  shows "pit_read a s = (fst (read_counter (counter s (unat a))), upd_counter (unat a) (\<lambda>c. snd (read_counter c)) s)"
proof -
  have "unat a \<le> 2" using assms by (simp add: word_le_nat_alt)
  then have "a \<noteq> 3" "\<not> 3 < a" by (auto simp: word_less_nat_alt)
  then show ?thesis
    by (simp add: pit_read_def MAX_ADDRESS_def CONTROL_ADDRESS_def Let_def split_beta)
qed

lemma pit_latch:
  assumes "a \<le> 2" "shr cw 6 AND 3 = a" "shr cw 4 AND 3 = 0"
  shows "counter (pit_write 3 cw s) (unat a) = latch_counter (counter s (unat a))"
proof -
  have "unat a \<le> 2" using assms by (simp add: word_le_nat_alt)
  then have "a \<noteq> 3" by auto
  then show ?thesis using assms(2,3)
    by (simp add: pit_write_def MAX_ADDRESS_def CONTROL_ADDRESS_def write_control_def Let_def)
qed

section \<open>Waveforms of a programmed counter\<close>

lemma square_wave:
  "square_phase c \<Longrightarrow> OUTpin c \<Longrightarrow>
   OUTpin ((clock_counter ^^ j) c) \<longleftrightarrow> j mod unat (load c) < unat (load c) div 2"
proof (induction j arbitrary: c rule: less_induct)
  case (less j)
  note c = less.prems
  let ?n = "unat (load c)" and ?k = "unat (load c) div 2"
  have lo: "load_ok c" "mode c = 3" using c by (simp_all add: square_phase_def in_step_def)
  have ev: "load c AND 1 = 0" "4 \<le> load c"
    using lo even_latch(2,3) [of "inlatch c"] by (simp_all add: load_ok_def load_def load_value_def)
  have "?n mod 2 = 0" using ev(1) by (simp add: and_one_eq word_unat_eq_iff unat_mod)
  moreover have "4 \<le> ?n" using ev(2) by (simp add: word_le_nat_alt)
  ultimately have n: "?n = ?k + ?k" "0 < ?k" by presburger+
  consider "j < ?k" | "?k \<le> j" "j < ?n" | "?n \<le> j" by linarith
  then show ?case
  proof cases
    case 1
    then show ?thesis using square_half(2) [OF c(1), of j] c(2) n by simp
  next
    case 2
    have l: "load (set_OUT False c) = load c" by simp
    have "(clock_counter ^^ j) c = (clock_counter ^^ (j - ?k)) ((clock_counter ^^ ?k) c)"
      using 2 by (metis comp_apply funpow_add le_add_diff_inverse2)
    also have "(clock_counter ^^ ?k) c = set_OUT False c" using square_half(1) [OF c(1)] c(2) by simp
    finally have e: "(clock_counter ^^ j) c = (clock_counter ^^ (j - ?k)) (set_OUT False c)" .
    have "j - ?k < ?k" using 2 n by linarith
    then have "\<not> OUTpin ((clock_counter ^^ j) c)"
      using square_half(2) [OF square_phase_set_OUT [OF c(1), of False], of "j - ?k"] by (simp add: e)
    then show ?thesis using 2 by simp
  next
    case 3
    let ?c = "set_OUT True (set_OUT False c)"
    have "(clock_counter ^^ j) c = (clock_counter ^^ (j - ?n)) ((clock_counter ^^ ?n) c)"
      using 3 by (metis comp_apply funpow_add le_add_diff_inverse2)
    also have "(clock_counter ^^ ?n) c = ?c" using square_period [OF c(1)] set_OUT_twice [of c] c(2) by simp
    finally have "(clock_counter ^^ j) c = (clock_counter ^^ (j - ?n)) ?c" .
    moreover have "OUTpin ((clock_counter ^^ (j - ?n)) ?c) \<longleftrightarrow> (j - ?n) mod unat (load ?c) < unat (load ?c) div 2"
      using 3 n c by (intro less.IH) (auto intro: square_phase_set_OUT)
    ultimately show ?thesis using 3 by (simp add: le_mod_geq)
  qed
qed

lemma rate_phase_set_OUT: "rate_phase c \<Longrightarrow> rate_phase (set_OUT True (set_OUT False c))"
proof -
  assume c: "rate_phase c"
  then have "in_step c" "mode c = 2" "count_written c" "\<not> triggerGATE c" "\<not> first_pass c" by (simp_all add: rate_phase_def)
  then have "in_step (set_OUT True (set_OUT False c))" by (auto simp: in_step_def phase_ok_def due_def)
  then show ?thesis using c by (simp add: rate_phase_def)
qed

lemma rate_wave: "rate_phase c \<Longrightarrow> OUTpin ((clock_counter ^^ j) c) \<longleftrightarrow> j mod unat (load c) \<noteq> unat (load c) - 1"
proof (induction j arbitrary: c rule: less_induct)
  case (less j)
  note c = less.prems
  let ?n = "unat (load c)"
  have o: "OUTpin c" and "load c \<noteq> 0" using c by (simp_all add: rate_phase_def)
  then have n: "0 < ?n" by (simp add: unat_gt_0)
  show ?case
  proof (cases "j < ?n")
    case True
    then show ?thesis using rate_period(2) [OF c True] by simp
  next
    case False
    let ?c = "set_OUT True (set_OUT False c)"
    have "(clock_counter ^^ j) c = (clock_counter ^^ (j - ?n)) ((clock_counter ^^ ?n) c)"
      using False by (metis comp_apply funpow_add le_add_diff_inverse2 not_less)
    also have "(clock_counter ^^ ?n) c = ?c" using rate_period(1) [OF c] set_OUT_twice [of c] o by simp
    finally have "(clock_counter ^^ j) c = (clock_counter ^^ (j - ?n)) ?c" .
    moreover have "OUTpin ((clock_counter ^^ (j - ?n)) ?c) \<longleftrightarrow> (j - ?n) mod unat (load ?c) \<noteq> unat (load ?c) - 1"
      using False n rate_phase_set_OUT [OF c] by (intro less.IH) auto
    ultimately show ?thesis using False by (simp add: le_mod_geq not_less)
  qed
qed

text \<open>The first clock after programming loads the count.\<close>

lemma load_program:
  assumes "M \<le> 5" "\<not> BCD > 0"
  shows "load (program M BCD lo hi c) = ucast (ucast lo OR shl (ucast hi) 8 :: Bit16u)"
  using program_fields [OF assms(1), of BCD lo hi c] assms(2) by (simp add: load_def load_value_def)

lemma program_square:
  assumes d: "count_ok 3 (BCD > 0) (ucast lo OR shl (ucast hi) 8)" and g: "GATE c"
  defines "p \<equiv> program 3 BCD lo hi c"
  shows "square_phase (clock_counter p)" "OUTpin (clock_counter p)" "load (clock_counter p) = load p"
proof -
  have s: "in_step p" unfolding p_def by (rule program_in_step) (use d in auto)
  have f: "mode p = 3" "count_written p" "first_pass p" "GATE p" "OUTpin p"
    using program_fields [of 3 BCD lo hi c] g by (simp_all add: p_def)
  have l: "load_ok p" using s f by (simp add: in_step_def)
  note c = clock3_load(1) [OF l f(1,2,4) disjI2, OF disjI1, OF f(3)]
  show "OUTpin (clock_counter p)" "load (clock_counter p) = load p" using f by (simp_all add: c)
  show "square_phase (clock_counter p)" using clock_in_step [OF s] f by (simp add: square_phase_def c)
qed

lemma program_rate:
  assumes d: "count_ok 2 (BCD > 0) (ucast lo OR shl (ucast hi) 8)" and g: "GATE c"
  defines "p \<equiv> program 2 BCD lo hi c"
  assumes z: "load p \<noteq> 0"
  shows "rate_phase (clock_counter p)" "load (clock_counter p) = load p"
proof -
  have s: "in_step p" unfolding p_def by (rule program_in_step) (use d g in auto)
  have f: "mode p = 2" "count_written p" "first_pass p" "GATE p" "OUTpin p"
    using program_fields [of 2 BCD lo hi c] g by (simp_all add: p_def)
  note l = in_step_load [OF s f(2)]
  have n: "(load p - 1) AND 0xFFFF = load p - 1" using below_top(2) [of "load p"] l z by blast
  have c: "clock_counter p =
    (with_count (load p) p)\<lparr>next_change_time := load p - 1, null_count := False, first_pass := False, triggerGATE := False\<rparr>"
    using f l n by (simp add: clock_counter_def clock_mode2_def)
  show "load (clock_counter p) = load p" by (simp add: c)
  show "rate_phase (clock_counter p)" using clock_in_step [OF s] f z by (simp add: rate_phase_def c)
qed

lemma program_one_shot:
  assumes d: "count_ok 0 (BCD > 0) (ucast lo OR shl (ucast hi) 8)" and g: "GATE c"
  defines "p \<equiv> program 0 BCD lo hi c"
  assumes z: "load p \<noteq> 0"
  shows "one_shot_phase (clock_counter p)" "count_binary (clock_counter p) = load p"
proof -
  have s: "in_step p" unfolding p_def by (rule program_in_step) (use d g in auto)
  have f: "mode p = 0" "count_written p" "null_count p" "GATE p" "\<not> OUTpin p" "write_state p \<noteq> MSByte_multiple"
    using program_fields [of 0 BCD lo hi c] g by (simp_all add: p_def)
  note l = in_step_load [OF s f(2)]
  have c: "clock_counter p =
    (with_count (load p) p)\<lparr>next_change_time := load p, null_count := False, triggerGATE := False\<rparr>"
    using f l z by (simp add: clock_counter_def clock_mode0_def)
  show "count_binary (clock_counter p) = load p" by (simp add: c)
  show "one_shot_phase (clock_counter p)" using clock_in_step [OF s] f z by (simp add: one_shot_phase_def c)
qed

lemma clock_counter_of: "i \<le> MAX_COUNTER \<Longrightarrow> (clock i ^^ k) s = upd_counter i (clock_counter ^^ k) s"
  by (induction k) (simp_all add: clock_def)

lemma clock_multiple_of: "i \<le> MAX_COUNTER \<Longrightarrow> clock_multiple i n s = upd_counter i (clock_multiple_counter n) s"
  by (simp add: clock_multiple_def)

lemma skipped_is_counted:
  "i \<le> MAX_COUNTER \<Longrightarrow> in_step (counter s i) \<Longrightarrow> (mode (counter s i) = 3 \<longrightarrow> n < 0x80000000) \<Longrightarrow>
   clock_multiple i n s = (clock i ^^ unat n) s"
  by (simp add: clock_counter_of clock_multiple_of clock_multiple_eq)

lemma first_clock: "n \<noteq> 0 \<Longrightarrow> (clock_counter ^^ unat n) c = (clock_counter ^^ (unat n - 1)) (clock_counter c)"
proof -
  assume "n \<noteq> 0"
  then have "unat n = Suc (unat n - 1)" using unat_gt_0 [of n] by simp
  then show ?thesis by (metis comp_apply funpow_Suc_right)
qed

section \<open>Properties of the timer chip\<close>

text \<open>A command byte that selects counter \<open>a\<close>, both data bytes, and mode \<open>M\<close>; the three writes that program it.\<close>

definition selects :: "Bit8u \<Rightarrow> Bit8u \<Rightarrow> Bit8u \<Rightarrow> bool" where
  "selects cw a M \<longleftrightarrow> a \<le> 2 \<and> shr cw 6 AND 3 = a \<and> shr cw 4 AND 3 = 3 \<and> shr cw 1 AND 7 = M"

definition program_pit :: "Bit8u \<Rightarrow> Bit8u \<Rightarrow> Bit8u \<Rightarrow> Bit8u \<Rightarrow> pit_82C54 \<Rightarrow> pit_82C54" where
  "program_pit a cw lo hi s = pit_write a hi (pit_write a lo (pit_write 3 cw s))"

definition sample_counter :: counter_type where
  "sample_counter = \<lparr>GATE = True, OUTpin = True, count = 0, outlatch = 0, inlatch = 0, status_latch = 0,
     rw_mode = 1, mode = 4, bcd_mode = False, null_count = False, count_LSB_latched = False,
     count_MSB_latched = False, status_latched = False, count_binary = 0, triggerGATE = False,
     write_state = LSByte, read_state = LSByte_multiple, count_written = True, first_pass = False,
     state_bit_1 = False, state_bit_2 = False, next_change_time = 0, out_handler = True, out_calls = []\<rparr>"

definition sample_pit :: pit_82C54 where
  "sample_pit = \<lparr>counter = \<lambda>_. sample_counter, controlword = 0\<rparr>"

lemma selects_counter:
  assumes "selects cw a M"
  shows "counter (program_pit a cw lo hi s) (unat a) = program M (cw AND 1) lo hi (counter s (unat a))"
  using pit_program [of a cw hi lo s] assms by (auto simp: selects_def program_pit_def)

lemma selects_low: "selects cw a M \<Longrightarrow> unat a \<le> MAX_COUNTER"
  by (simp add: selects_def MAX_COUNTER_def word_le_nat_alt)

lemma output_after:
  assumes c: "selects cw a M" and s: "in_step (program M (cw AND 1) lo hi (counter s (unat a)))"
    and n: "n \<noteq> 0" "n < 0x80000000"
  shows "counter (clock_multiple (unat a) n (program_pit a cw lo hi s)) (unat a) =
    (clock_counter ^^ (unat n - 1)) (clock_counter (program M (cw AND 1) lo hi (counter s (unat a))))"
  using selects_counter [OF c, of lo hi s] selects_low [OF c] clock_multiple_eq [OF s] n first_clock [OF n(1)]
  by (simp add: clock_multiple_of)

lemma unat_latch: "unat (ucast d :: Bit32u) = unat d" for d :: Bit16u
  using unsigned_less [of d, where 'a = nat] by (simp add: unsigned_ucast_eq take_bit_nat_eq_self)

text \<open>
  C20. Skipping cycles is counting them: for a counter in step with its event time, what
  \<open>clock_multiple\<close> does in one go is what \<open>clock\<close> does called once per cycle.
\<close>

theorem skipped_cycles_are_counted:
  assumes "i \<le> MAX_COUNTER" and "in_step (counter s i)" and "mode (counter s i) = 3 \<longrightarrow> n < 0x80000000"
  shows "clock_multiple i n s = (clock i ^^ unat n) s"
  by (rule skipped_is_counted [OF assms])

theorem skipped_cycles_are_counted_witness:
  "clock_multiple 0 5 (program_pit 0 0x34 6 0 sample_pit) = (clock 0 ^^ 5) (program_pit 0 0x34 6 0 sample_pit)"
proof -
  have p: "counter (program_pit 0 0x34 6 0 sample_pit) 0 = program 2 0 6 0 sample_counter"
    using selects_counter [of "0x34" 0 2 6 0 sample_pit] by (simp add: selects_def sample_pit_def)
  have "in_step (program 2 0 6 0 sample_counter)"
    by (rule program_in_step) (simp_all add: count_ok_def sample_counter_def)
  then show ?thesis
    using skipped_cycles_are_counted [of 0 "program_pit 0 0x34 6 0 sample_pit" 5]
    by (simp add: p MAX_COUNTER_def program_fields)
qed

text \<open>
  Programming a counter in modes 0 to 4 with a valid count, through the command port and
  two writes to its data port, puts it in step with its event time, and every clock
  keeps it there.
\<close>

theorem programming_puts_in_step:
  assumes "selects cw a M" and "M \<le> 4" and "count_ok M (cw AND 1 > 0) (ucast lo OR shl (ucast hi) 8)"
    and "M = 2 \<longrightarrow> GATE (counter s (unat a))"
  shows "in_step (counter ((clock (unat a) ^^ k) (program_pit a cw lo hi s)) (unat a))"
proof -
  note c = selects_counter [OF assms(1), of lo hi s] selects_low [OF assms(1)]
  show ?thesis
    using timer.funpow_ok [OF program_in_step [OF assms(2-4)], of k] by (simp add: clock_counter_of c)
qed

theorem programming_puts_in_step_witness:
  "in_step (counter ((clock 2 ^^ 7) (program_pit 2 0xB6 0x34 0x12 sample_pit)) 2)"
  using programming_puts_in_step [of "0xB6" 2 3 "0x34" "0x12" sample_pit 7]
  by (simp add: selects_def count_ok_def)

text \<open>
  C21. The square wave of mode 3: a counter programmed with an even count \<open>N\<close> of at least 4
  and clocked by the emulator \<open>n\<close> cycles, of which the first loads the count, has its output
  high for the first half of every \<open>N\<close> cycles and low for the second.
\<close>

theorem square_wave_output:
  fixes lo hi :: Bit8u
  defines "N \<equiv> ucast lo OR shl (ucast hi) 8 :: Bit16u"
  assumes "selects cw a 3" and "cw AND 1 = 0" and "GATE (counter s (unat a))" and "N AND 1 = 0" "4 \<le> N"
    and "n \<noteq> 0" "n < 0x80000000"
  shows "OUTpin (counter (clock_multiple (unat a) n (program_pit a cw lo hi s)) (unat a)) \<longleftrightarrow>
    (unat n - 1) mod unat N < unat N div 2"
proof -
  have d: "count_ok 3 (cw AND 1 > 0) (ucast lo OR shl (ucast hi) 8)" using assms by (simp add: count_ok_def)
  have "in_step (program 3 (cw AND 1) lo hi (counter s (unat a)))" by (rule program_in_step [OF _ d]) simp_all
  note o = output_after [OF assms(2) this assms(7,8)] and q = program_square [OF d assms(4)]
  have "load (program 3 (cw AND 1) lo hi (counter s (unat a))) = ucast N"
    using assms(3) unfolding N_def by (intro load_program) simp_all
  then show ?thesis using square_wave [OF q(1,2), of "unat n - 1"] q(3) by (simp add: o unat_latch)
qed

theorem square_wave_output_witness:
  "OUTpin (counter (clock_multiple 0 23863 (program_pit 0 0x36 0x36 0x5D sample_pit)) 0) = (23862 mod 23862 < (11931 :: nat))"
  using square_wave_output [of "0x36" 0 sample_pit "0x36" "0x5D" 23863]
  by (simp add: selects_def sample_pit_def sample_counter_def)

text \<open>
  C22. The rate generator of mode 2: a counter programmed with a count \<open>N\<close> of at least 2 has
  its output low for exactly one of every \<open>N\<close> cycles, the last one.
\<close>

theorem rate_generator_output:
  fixes lo hi :: Bit8u
  defines "N \<equiv> ucast lo OR shl (ucast hi) 8 :: Bit16u"
  assumes "selects cw a 2" and "cw AND 1 = 0" and "GATE (counter s (unat a))" and "2 \<le> N"
    and "n \<noteq> 0" "n < 0x80000000"
  shows "OUTpin (counter (clock_multiple (unat a) n (program_pit a cw lo hi s)) (unat a)) \<longleftrightarrow>
    (unat n - 1) mod unat N \<noteq> unat N - 1"
proof -
  have N: "N \<noteq> 0" "N \<noteq> 1" using assms(5) by (auto simp: word_le_nat_alt)
  then have d: "count_ok 2 (cw AND 1 > 0) (ucast lo OR shl (ucast hi) 8)" using assms by (simp add: count_ok_def)
  have "in_step (program 2 (cw AND 1) lo hi (counter s (unat a)))"
    by (rule program_in_step [OF _ d]) (simp_all add: assms(4))
  note o = output_after [OF assms(2) this assms(6,7)]
  have l: "load (program 2 (cw AND 1) lo hi (counter s (unat a))) = ucast N"
    using assms(3) unfolding N_def by (intro load_program) simp_all
  then have "load (program 2 (cw AND 1) lo hi (counter s (unat a))) \<noteq> 0" using N by (simp add: ucast_latch)
  note q = program_rate [OF d assms(4) this]
  show ?thesis using rate_wave [OF q(1), of "unat n - 1"] q(2) l by (simp add: o unat_latch)
qed

theorem rate_generator_output_witness:
  "\<not> OUTpin (counter (clock_multiple 0 1000 (program_pit 0 0x34 100 0 sample_pit)) 0)"
  using rate_generator_output [of "0x34" 0 sample_pit 100 0 1000]
  by (simp add: selects_def sample_pit_def sample_counter_def)

text \<open>
  C23. The terminal count of mode 0: the output goes low when the counter is programmed with a
  count \<open>N\<close>, rises \<open>N + 1\<close> cycles later, and stays high however long it is clocked.
\<close>

theorem terminal_count_output:
  fixes lo hi :: Bit8u
  defines "N \<equiv> ucast lo OR shl (ucast hi) 8 :: Bit16u"
  assumes "selects cw a 0" and "cw AND 1 = 0" and "GATE (counter s (unat a))" and "N \<noteq> 0"
    and "n \<noteq> 0" "n < 0x80000000"
  shows "OUTpin (counter (clock_multiple (unat a) n (program_pit a cw lo hi s)) (unat a)) \<longleftrightarrow> unat N < unat n"
proof -
  have d: "count_ok 0 (cw AND 1 > 0) (ucast lo OR shl (ucast hi) 8)" using assms by (simp add: count_ok_def)
  have "in_step (program 0 (cw AND 1) lo hi (counter s (unat a)))" by (rule program_in_step [OF _ d]) simp_all
  note o = output_after [OF assms(2) this assms(6,7)]
  have l: "load (program 0 (cw AND 1) lo hi (counter s (unat a))) = ucast N"
    using assms(3) unfolding N_def by (intro load_program) simp_all
  then have "load (program 0 (cw AND 1) lo hi (counter s (unat a))) \<noteq> 0" using assms(5) by (simp add: ucast_latch)
  note q = program_one_shot [OF d assms(4) this]
  have "unat n \<noteq> 0" using assms(6) by (simp add: unat_eq_zero)
  then show ?thesis using terminal_count [OF q(1), of "unat n - 1"] q(2) l by (auto simp: o unat_latch)
qed

theorem terminal_count_output_witness:
  "OUTpin (counter (clock_multiple 1 101 (program_pit 1 0x70 100 0 sample_pit)) 1) \<and>
   \<not> OUTpin (counter (clock_multiple 1 100 (program_pit 1 0x70 100 0 sample_pit)) 1)"
  using terminal_count_output [of "0x70" 1 sample_pit 100 0 101] terminal_count_output [of "0x70" 1 sample_pit 100 0 100]
  by (simp add: selects_def sample_pit_def sample_counter_def)

section \<open>Where skipping is not counting\<close>

text \<open>The counter of the examples below while it counts in mode 3.\<close>

definition wave_state :: "Bit16u \<Rightarrow> Bit32u \<Rightarrow> Bit32u \<Rightarrow> bool \<Rightarrow> bool \<Rightarrow> bool \<Rightarrow> bool list \<Rightarrow> counter_type" where
  "wave_state l b n out sb1 sb2 calls = sample_counter\<lparr>OUTpin := out, count := b, inlatch := l, rw_mode := 3, mode := 3,
     count_binary := b, write_state := LSByte_multiple, state_bit_1 := sb1, state_bit_2 := sb2,
     next_change_time := n, out_calls := calls\<rparr>"

lemmas wave_simps = wave_state_def sample_counter_def clock_counter_def clock_mode3_def set_count_eq load_value_def
  decrement_def set_count_to_binary_def set_OUT_def Let_def

lemma wave_program:
  "program 3 0 5 0 sample_counter = (wave_state 5 5 1 True False False [])\<lparr>null_count := True, first_pass := True\<rparr>"
  "program 3 0 0 0 sample_counter = (wave_state 0 0 1 True False False [])\<lparr>null_count := True, first_pass := True\<rparr>"
  by (simp_all add: program_def program_counter_def write_count_def wave_simps)

lemma wave_five:
  "clock_counter (program 3 0 5 0 sample_counter) = wave_state 5 4 2 True True False []"
  "clock_counter (wave_state 5 4 2 True True False []) = wave_state 5 2 1 True True False []"
  "clock_counter (wave_state 5 2 1 True True False []) = wave_state 5 0 1 True True True []"
  "clock_counter (wave_state 5 0 1 True True True []) = wave_state 5 4 2 False True False [False]"
  "clock_counter (wave_state 5 4 2 False True False [False]) = wave_state 5 2 1 False True True [False]"
  "clock_counter (wave_state 5 2 1 False True True [False]) = wave_state 5 4 1 True True False [False, True]"
  unfolding wave_program by (simp_all add: wave_simps)

lemma wave_zero:
  "clock_counter (program 3 0 0 0 sample_counter) = wave_state 0 0 0xFFFF True False False []"
  "clock_counter (wave_state 0 0 0xFFFF True False False []) = wave_state 0 0xFFFE 0x7FFE True False False []"
  "clock_counter (wave_state 0 2 1 True False True []) = wave_state 0 0 0xFFFF False False False [False]"
  unfolding wave_program by (simp_all add: wave_simps)

lemma wave_down:
  "b AND 1 = 0 \<Longrightarrow> 4 \<le> b \<Longrightarrow> b \<le> 0xFFFF \<Longrightarrow> clock_counter (wave_state 0 b n True False False []) =
   wave_state 0 (b - 2) (if b = 4 then 1 else b div 2 - 2) True False (b = 4) []"
  using clock3_count [of "wave_state 0 b n True False False []"]
  by (auto simp: wave_state_def sample_counter_def counting_ok_def with_count_def encode_def top_count_def)

lemma wave_down_nat:
  assumes m: "2 \<le> m" "m < 0x8000"
  shows "\<exists>n. clock_counter (wave_state 0 (of_nat (2 * m)) v True False False []) =
    wave_state 0 (of_nat (2 * (m - 1))) n True False (m = 2) [] \<and> (m = 2 \<longrightarrow> n = 1)"
proof -
  define b where "b = (of_nat (2 * m) :: Bit32u)"
  have u: "unat b = 2 * m" using m unfolding b_def by (simp only: unsigned_of_nat) (simp add: take_bit_nat_eq_self)
  have "unat (b AND 1) = 0" by (simp add: and_one_eq unat_mod u)
  then have "b AND 1 = 0" by (simp add: unat_eq_zero)
  moreover have "4 \<le> b" "b \<le> 0xFFFF" using m by (simp_all add: word_le_nat_alt u)
  moreover have "b - 2 = of_nat (2 * (m - 1))"
  proof -
    have "2 * m = 2 * (m - 1) + 2" using m by simp
    then have "b = of_nat (2 * (m - 1)) + 2" unfolding b_def by (metis of_nat_add of_nat_numeral)
    then show ?thesis by simp
  qed
  moreover have "b = 4 \<longleftrightarrow> m = 2" using m by (simp add: word_unat_eq_iff u)
  ultimately have "clock_counter (wave_state 0 b v True False False []) =
      wave_state 0 (of_nat (2 * (m - 1))) (if b = 4 then 1 else b div 2 - 2) True False (m = 2) []" "b = 4 \<longleftrightarrow> m = 2"
    using wave_down [of b v] by (simp_all only:)
  then show ?thesis unfolding b_def [symmetric] by auto
qed

lemma wave_down_many:
  assumes m: "m < 0x8000"
  shows "k + 2 \<le> m \<Longrightarrow> \<exists>n. (clock_counter ^^ k) (wave_state 0 (of_nat (2 * m)) v True False False []) =
    wave_state 0 (of_nat (2 * (m - k))) n True False False []"
proof (induction k)
  case 0
  then show ?case by auto
next
  case (Suc k)
  then obtain n where n: "(clock_counter ^^ k) (wave_state 0 (of_nat (2 * m)) v True False False []) =
    wave_state 0 (of_nat (2 * (m - k))) n True False False []" by auto
  have "2 \<le> m - k" "m - k < 0x8000" "m - k \<noteq> 2" "m - k - 1 = m - Suc k" using Suc.prems m by auto
  then show ?case using wave_down_nat [of "m - k" n] n by auto
qed

lemma wave_zero_half: "OUTpin ((clock_counter ^^ 32769) (program 3 0 0 0 sample_counter)) = False"
proof -
  define w where "w b n = wave_state 0 b n True False False []" for b n
  let ?p = "program 3 0 0 0 sample_counter"
  obtain n where n: "(clock_counter ^^ 32765) (w 0xFFFE 0x7FFE) = w 4 n"
    using wave_down_many [of 32767 32765 "0x7FFE"] by (auto simp: w_def)
  have s: "clock_counter (clock_counter ?p) = w 0xFFFE 0x7FFE"
    by (simp add: wave_zero w_def)
  have t: "clock_counter (clock_counter (w 4 n)) = wave_state 0 0 0xFFFF False False False [False]"
    using wave_down_nat [of 2 n] by (auto simp: w_def wave_zero)
  have "32769 = (2 :: nat) + (32765 + 2)" by simp
  then have "(clock_counter ^^ 32769) ?p = (clock_counter ^^ 2) ((clock_counter ^^ 32765) ((clock_counter ^^ 2) ?p))"
    by (simp only: funpow_add comp_apply)
  also have "\<dots> = wave_state 0 0 0xFFFF False False False [False]"
    by (simp add: numeral_2_eq_2 s n t)
  finally show ?thesis by (simp add: wave_state_def)
qed

text \<open>
  C25. Where skipping is not counting: in mode 3 the event time of a new half period is computed
  before the output toggles, and not from the 65536 cycles that a count of 0 stands for.
  With the odd count 5 the output rises after 6 cycles by \<open>clock\<close>, but is still low
  when \<open>clock_multiple\<close> skips them; with the count 0 it falls after the load and 32768
  cycles by \<open>clock\<close>, but is still high when they are skipped.
\<close>

theorem square_wave_skipping_differs:
  "OUTpin (counter ((clock 0 ^^ 6) (program_pit 0 0x36 5 0 sample_pit)) 0) \<and>
   \<not> OUTpin (counter (clock_multiple 0 6 (program_pit 0 0x36 5 0 sample_pit)) 0) \<and>
   \<not> OUTpin (counter ((clock 0 ^^ 32769) (program_pit 0 0x36 0 0 sample_pit)) 0) \<and>
   OUTpin (counter (clock_multiple 0 32769 (program_pit 0 0x36 0 0 sample_pit)) 0)"
proof -
  have p: "counter (program_pit 0 0x36 l 0 sample_pit) 0 = program 3 0 l 0 sample_counter" for l
    using selects_counter [of "0x36" 0 3 l 0 sample_pit] by (simp add: selects_def sample_pit_def)
  have "OUTpin ((clock_counter ^^ 6) (program 3 0 5 0 sample_counter))"
    by (simp add: eval_nat_numeral wave_five) (simp add: wave_state_def)
  moreover have "\<not> OUTpin (clock_multiple_counter 6 (program 3 0 5 0 sample_counter))" by code_simp
  moreover have "OUTpin (clock_multiple_counter 32769 (program 3 0 0 0 sample_counter))" by code_simp
  ultimately show ?thesis using wave_zero_half
    by (simp add: clock_counter_of clock_multiple_of MAX_COUNTER_def p)
qed

section \<open>Event times and counts\<close>

definition earliest :: "Bit32u list \<Rightarrow> Bit32u" where
  "earliest ts = (let us = filter (\<lambda>t. t \<noteq> 0) ts in if us = [] then 0 else Min (set us))"

text \<open>
  C26. The event time the chip reports is the earliest of its three counters as long as
  counter 0 has an event; when counter 0 has none, the events of the other counters are
  not reported.
\<close>

theorem next_event_time:
  "get_next_event_time s = (if next_change_time (counter s 0) = 0 then 0
     else earliest [next_change_time (counter s 0), next_change_time (counter s 1), next_change_time (counter s 2)])"
  by (auto simp: get_next_event_time_def get_clock_event_time_def MAX_COUNTER_def Let_def earliest_def min_def)

text \<open>
  The loop of \<open>decrement_multiple\<close> is repeated decrementing, in binary and in BCD, for any
  number of cycles and however often the count wraps.
\<close>

theorem decrement_multiple_iterates:
  assumes "counting_ok c"
  shows "decrement_multiple n c = (decrement ^^ unat n) c"
  by (rule decrement_multiple_eq [OF assms])

theorem decrement_multiple_iterates_witness:
  "decrement_multiple 100000 sample_counter = (decrement ^^ 100000) sample_counter"
  using decrement_multiple_iterates [of sample_counter 100000]
  by (simp add: counting_ok_def sample_counter_def encode_def top_count_def)

text \<open>
  The two images of a count convert into each other: a binary count is recovered from its
  register image, and a register image with valid digits from its binary count.
\<close>

theorem count_images_roundtrip:
  assumes "count_binary c \<le> top_count (bcd_mode c)" and "digits_ok d" and "d \<le> 0xFFFF"
  shows "count_binary (set_binary_to_count (set_count_to_binary c)) = count_binary c \<and>
    set_count_to_binary (set_count d c) = set_count d c"
proof -
  have "set_binary_to_count (with_count b c) = (with_count b c)\<lparr>count_binary := load_value (bcd_mode c) (encode (bcd_mode c) b)\<rparr>" for b
    by (simp add: set_binary_to_count_def load_value_def encode_def with_count_def)
  then have "count_binary (set_binary_to_count (set_count_to_binary c)) = count_binary c"
    using load_encode [OF assms(1)] by (simp add: set_count_to_binary_eq)
  moreover have "encode (bcd_mode c) (load_value (bcd_mode c) d) = d"
    using encode_load(1) [OF assms(2,3)] by (cases "bcd_mode c") (simp_all add: load_value_def encode_top)
  then have "set_count_to_binary (set_count d c) = set_count d c"
    using and_ffff [OF assms(3)] by (simp add: set_count_to_binary_eq with_count_def set_count_eq)
  ultimately show ?thesis by simp
qed

theorem count_images_roundtrip_witness:
  "count_binary (set_binary_to_count (set_count_to_binary (sample_counter\<lparr>bcd_mode := True, count_binary := 1234\<rparr>))) = 1234 \<and>
   set_count_to_binary (set_count 0x9876 (sample_counter\<lparr>bcd_mode := True\<rparr>)) = set_count 0x9876 (sample_counter\<lparr>bcd_mode := True\<rparr>)"
  using count_images_roundtrip [of "sample_counter\<lparr>bcd_mode := True, count_binary := 1234\<rparr>" "0x9876"]
    count_images_roundtrip [of "sample_counter\<lparr>bcd_mode := True\<rparr>" "0x9876"]
  by (simp add: top_count_def digits_ok_def sample_counter_def)

text \<open>
  C24. Reading a latched count: after a latch command the two reads return the low and the high
  byte of the count at the time of the command, however many cycles the chip is clocked
  before and between them, and leave the counter unlatched and ready for the next low byte.
\<close>

theorem latched_read:
  assumes a: "a \<le> 2" "shr cw 6 AND 3 = a" "shr cw 4 AND 3 = 0"
    and c: "read_state (counter s (unat a)) = LSByte_multiple" "\<not> count_LSB_latched (counter s (unat a))"
      "\<not> count_MSB_latched (counter s (unat a))" "\<not> status_latched (counter s (unat a))"
    and r1: "pit_read a (clock_all n (pit_write 3 cw s)) = (lo, s1)"
    and r2: "pit_read a (clock_all m s1) = (hi, s2)"
  shows "ucast lo OR shl (ucast hi) 8 = (ucast (count (counter s (unat a))) :: Bit16u) \<and>
    \<not> count_LSB_latched (counter s2 (unat a)) \<and> \<not> count_MSB_latched (counter s2 (unat a)) \<and>
    read_state (counter s2 (unat a)) = LSByte_multiple"
proof -
  define v where "v = (ucast (count (counter s (unat a)) AND 0xFFFF) :: Bit16u)"
  let ?c = "counter (clock_all n (pit_write 3 cw s)) (unat a)"
  have "latches ?c = (v, True, True, False, LSByte_multiple)"
    unfolding latches_clock_all pit_latch [OF a] v_def by (rule latch_fields [OF c])
  note l = read_low [OF this]
  have s1: "counter s1 (unat a) = snd (read_counter ?c)" "lo = ucast (v AND 0xFF)"
    using r1 l by (auto simp: pit_read_counter [OF a(1)])
  then have "latches (counter (clock_all m s1) (unat a)) = (v, False, True, False, MSByte_multiple)"
    using l by (simp add: latches_clock_all)
  note h = read_high [OF this]
  have s2: "latches (counter s2 (unat a)) = (v, False, False, False, LSByte_multiple)" "hi = ucast (shr v 8 AND 0xFF)"
    using r2 h by (auto simp: pit_read_counter [OF a(1)])
  have ff: "x AND 0xFF = take_bit 8 x" for x :: Bit16u by (simp add: take_bit_eq_mask mask_numeral)
  have "ucast lo OR shl (ucast hi) 8 = v" unfolding s1 s2 ff
    by (rule bit_word_eqI) (auto simp: bit_or_iff bit_push_bit_iff bit_ucast_iff bit_take_bit_iff bit_drop_bit_eq)
  moreover have "v = ucast (count (counter s (unat a)))"
  proof -
    have "x AND 0xFFFF = take_bit 16 x" for x :: Bit32u by (simp add: take_bit_eq_mask mask_numeral)
    then show ?thesis unfolding v_def by (intro bit_word_eqI) (auto simp: bit_ucast_iff bit_take_bit_iff)
  qed
  ultimately show ?thesis using s2(1) by (simp add: latches_def)
qed

theorem latched_read_witness:
  "let r1 = pit_read 0 (clock_all 5 (pit_write 3 0 sample_pit)); r2 = pit_read 0 (clock_all 7 (snd r1))
   in ucast (fst r1) OR shl (ucast (fst r2)) 8 = (0 :: Bit16u)"
  using latched_read [of 0 0 sample_pit 5 "fst (pit_read 0 (clock_all 5 (pit_write 3 0 sample_pit)))"
      "snd (pit_read 0 (clock_all 5 (pit_write 3 0 sample_pit)))" 7, OF _ _ _ _ _ _ _ _ prod.collapse [symmetric]]
  by (simp add: sample_pit_def sample_counter_def)

end
