(* ===== verification/Pic.thy ===== *)
theory Pic
  imports Prelude
begin

text \<open>
  The 8259 interrupt controller pair of iodev/pic.cc. The records and their fields follow
  \<open>bx_pic_t\<close> and the class state of pic.h; flags that the code keeps in a \<open>bx_bool\<close> are
  booleans. Three things the device drives are outputs of the state: the INTR line of
  the boot processor (\<open>intr\<close>, set by BX_RAISE_INTR and cleared by BX_CLEAR_INTR), the
  calls forwarded to the IO APIC (newest first) and the panics reported. BX_PANIC returns
  when the user chooses to go on, and the code after it is what then runs: a panic is
  therefore recorded in \<open>panics\<close> and the operation continues, so \<open>panics\<close> unchanged means
  the operation is one the device accepts.
\<close>

section \<open>State\<close>

record bx_pic_t =
  single_PIC :: Bit8u
  interrupt_offset :: Bit8u
  u_connect :: Bit8u
  sfnm :: Bit8u
  buffered_mode :: Bit8u
  master_slave :: Bit8u
  auto_eoi :: Bit8u
  imr :: Bit8u
  isr :: Bit8u
  irr :: Bit8u
  read_reg_select :: Bit8u
  irq :: Bit8u
  lowest_priority :: Bit8u
  INT_pin :: bool
  IRQ_in :: Bit8u
  in_init :: bool
  requires_4 :: bool
  byte_expected :: Bit8u
  special_mask :: bool
  polled :: bool
  rotate_on_autoeoi :: bool
  edge_level :: Bit8u

datatype pic_panic =
    Icw1_single_mode | Icw1_level_mode | Bad_ocw2 Bit32u | Not_80x86_mode | Bad_init_command
  | Service_error | Bad_read_address Bit32u

record bx_pic =
  master_pic :: bx_pic_t
  slave_pic :: bx_pic_t
  intr :: bool
  ioapic_present :: bool
  ioapic_calls :: "(nat \<times> bool) list"
  panics :: "pic_panic list"

abbreviation upd_master :: "(bx_pic_t \<Rightarrow> bx_pic_t) \<Rightarrow> bx_pic \<Rightarrow> bx_pic" where
  "upd_master f s \<equiv> s\<lparr>master_pic := f (master_pic s)\<rparr>"

abbreviation upd_slave :: "(bx_pic_t \<Rightarrow> bx_pic_t) \<Rightarrow> bx_pic \<Rightarrow> bx_pic" where
  "upd_slave f s \<equiv> s\<lparr>slave_pic := f (slave_pic s)\<rparr>"

definition BX_PANIC :: "pic_panic \<Rightarrow> bx_pic \<Rightarrow> bx_pic" where
  "BX_PANIC p s = s\<lparr>panics := p # panics s\<rparr>"

definition BX_RAISE_INTR :: "bx_pic \<Rightarrow> bx_pic" where "BX_RAISE_INTR s = s\<lparr>intr := True\<rparr>"
definition BX_CLEAR_INTR :: "bx_pic \<Rightarrow> bx_pic" where "BX_CLEAR_INTR s = s\<lparr>intr := False\<rparr>"

definition DEV_ioapic_set_irq_level :: "nat \<Rightarrow> bool \<Rightarrow> bx_pic \<Rightarrow> bx_pic" where
  "DEV_ioapic_set_irq_level n level s = s\<lparr>ioapic_calls := (n, level) # ioapic_calls s\<rparr>"

text \<open>\<open>init\<close>, from the memory the constructor left (port registration aside).\<close>

definition pic_init :: "bx_pic \<Rightarrow> bx_pic" where
  "pic_init s = s\<lparr>
    master_pic := \<lparr>single_PIC = 0, interrupt_offset = 0x08, u_connect = 0x04, sfnm = 0,
      buffered_mode = 0, master_slave = 1, auto_eoi = 0, imr = 0xFF, isr = 0x00, irr = 0x00,
      read_reg_select = 0, irq = 0, lowest_priority = 7, INT_pin = False, IRQ_in = 0,
      in_init = False, requires_4 = False, byte_expected = 0, special_mask = False,
      polled = False, rotate_on_autoeoi = False, edge_level = 0\<rparr>,
    slave_pic := \<lparr>single_PIC = 0, interrupt_offset = 0x70, u_connect = 0x02, sfnm = 0,
      buffered_mode = 0, master_slave = 0, auto_eoi = 0, imr = 0xFF, isr = 0x00, irr = 0x00,
      read_reg_select = 0, irq = 0, lowest_priority = 7, INT_pin = False, IRQ_in = 0,
      in_init = False, requires_4 = False, byte_expected = 0, special_mask = False,
      polled = False, rotate_on_autoeoi = False, edge_level = 0\<rparr>\<rparr>"

section \<open>Priority resolution\<close>

text \<open>
  The increments of the loops: \<open>irq++; if (irq > 7) irq = 0\<close>, and the level above the
  lowest priority.
\<close>

definition next_irq :: "nat \<Rightarrow> nat" where
  "next_irq n = (if n + 1 > 7 then 0 else n + 1)"

definition highest_of :: "Bit8u \<Rightarrow> nat" where
  "highest_of lowest = (let h = lowest + 1 in if h > 7 then 0 else unat h)"

text \<open>
  The three loops, with fuel: each visits at most the eight lines, so 8 is enough
  (\<open>scan_isr_fuel\<close>, \<open>scan_irr_fuel\<close>, \<open>clear_scan_fuel\<close>).
\<close>

fun scan_isr :: "nat \<Rightarrow> Bit8u \<Rightarrow> nat \<Rightarrow> nat" where
  "scan_isr 0 is max_irq = max_irq"
| "scan_isr (Suc fuel) is max_irq =
    (if is AND shl 1 max_irq = 0 then scan_isr fuel is (next_irq max_irq) else max_irq)"

fun scan_irr :: "nat \<Rightarrow> bool \<Rightarrow> Bit8u \<Rightarrow> Bit8u \<Rightarrow> nat \<Rightarrow> nat \<Rightarrow> nat option" where
  "scan_irr 0 special is requests max_irq n = None"
| "scan_irr (Suc fuel) special is requests max_irq n =
    (if \<not> (special \<and> shr is n AND 0x01 \<noteq> 0) \<and> requests AND shl 1 n \<noteq> 0 then Some n
     else if next_irq n \<noteq> max_irq then scan_irr fuel special is requests max_irq (next_irq n)
     else None)"

fun clear_scan :: "nat \<Rightarrow> nat \<Rightarrow> nat \<Rightarrow> bx_pic_t \<Rightarrow> bx_pic_t" where
  "clear_scan 0 h n pic = pic"
| "clear_scan (Suc fuel) h n pic =
    (if isr pic AND shl 1 n \<noteq> 0 then pic\<lparr>isr := isr pic AND NOT (shl 1 n)\<rparr>
     else if next_irq n \<noteq> h then clear_scan fuel h (next_irq n) pic
     else pic)"

definition clear_highest_interrupt :: "bx_pic_t \<Rightarrow> bx_pic_t" where
  "clear_highest_interrupt pic =
    (let highest_priority = highest_of (lowest_priority pic)
     in clear_scan 8 highest_priority highest_priority pic)"

definition service_master_pic :: "bx_pic \<Rightarrow> bx_pic" where
  "service_master_pic s =
    (let highest_priority = highest_of (lowest_priority (master_pic s))
     in if INT_pin (master_pic s) then s
        else
          (let is = isr (master_pic s);
               normal = \<not> special_mask (master_pic s) \<and> is \<noteq> 0;
               max_irq = (if normal then scan_isr 8 is highest_priority else highest_priority)
           in if normal \<and> max_irq = highest_priority then s
              else
                (let s = (if normal \<and> max_irq > 7 then BX_PANIC Service_error s else s);
                     unmasked_requests = irr (master_pic s) AND NOT (imr (master_pic s))
                 in if unmasked_requests \<noteq> 0
                    then (case scan_irr 8 (special_mask (master_pic s)) is unmasked_requests
                                 max_irq highest_priority of
                            Some n \<Rightarrow> BX_RAISE_INTR
                              (upd_master (\<lambda>p. p\<lparr>INT_pin := True, irq := of_nat n\<rparr>) s)
                          | None \<Rightarrow> s)
                    else s)))"

text \<open>
  \<open>service_slave_pic\<close> calls \<open>raise_irq(2)\<close>, which takes the first branch of \<open>raise_irq\<close> and
  forwards nothing to the IO APIC: that branch is \<open>raise_irq_2\<close> (\<open>raise_irq_2_eq\<close> below).
\<close>

definition raise_irq_2 :: "bx_pic \<Rightarrow> bx_pic" where
  "raise_irq_2 s =
    (let mask = shl 1 2
     in if IRQ_in (master_pic s) AND mask = 0
        then service_master_pic
          (upd_master (\<lambda>p. p\<lparr>IRQ_in := IRQ_in p OR mask, irr := irr p OR mask\<rparr>) s)
        else s)"

definition service_slave_pic :: "bx_pic \<Rightarrow> bx_pic" where
  "service_slave_pic s =
    (let highest_priority = highest_of (lowest_priority (slave_pic s))
     in if INT_pin (slave_pic s) then s
        else
          (let is = isr (slave_pic s);
               normal = \<not> special_mask (slave_pic s) \<and> is \<noteq> 0;
               max_irq = (if normal then scan_isr 8 is highest_priority else highest_priority)
           in if normal \<and> max_irq = highest_priority then s
              else
                (let s = (if normal \<and> max_irq > 7 then BX_PANIC Service_error s else s);
                     unmasked_requests = irr (slave_pic s) AND NOT (imr (slave_pic s))
                 in if unmasked_requests \<noteq> 0
                    then (case scan_irr 8 (special_mask (slave_pic s)) is unmasked_requests
                                 max_irq highest_priority of
                            Some n \<Rightarrow> raise_irq_2
                              (upd_slave (\<lambda>p. p\<lparr>INT_pin := True, irq := of_nat n\<rparr>) s)
                          | None \<Rightarrow> s)
                    else s)))"

section \<open>Interrupt lines\<close>

definition forward_ioapic :: "nat \<Rightarrow> bool \<Rightarrow> bx_pic \<Rightarrow> bx_pic" where
  "forward_ioapic irq_no level s =
    (if ioapic_present s \<and> irq_no \<noteq> 2 then DEV_ioapic_set_irq_level irq_no level s else s)"

definition lower_irq :: "nat \<Rightarrow> bx_pic \<Rightarrow> bx_pic" where
  "lower_irq irq_no s =
    (let s = forward_ioapic irq_no False s;
         mask = shl 1 (irq_no AND 7)
     in if irq_no \<le> 7 \<and> IRQ_in (master_pic s) AND mask \<noteq> 0
        then upd_master (\<lambda>p. p\<lparr>IRQ_in := IRQ_in p AND NOT mask, irr := irr p AND NOT mask\<rparr>) s
        else if irq_no > 7 \<and> irq_no \<le> 15 \<and> IRQ_in (slave_pic s) AND mask \<noteq> 0
        then upd_slave (\<lambda>p. p\<lparr>IRQ_in := IRQ_in p AND NOT mask, irr := irr p AND NOT mask\<rparr>) s
        else s)"

definition raise_irq :: "nat \<Rightarrow> bx_pic \<Rightarrow> bx_pic" where
  "raise_irq irq_no s =
    (let s = forward_ioapic irq_no True s;
         mask = shl 1 (irq_no AND 7)
     in if irq_no \<le> 7 \<and> IRQ_in (master_pic s) AND mask = 0
        then service_master_pic
          (upd_master (\<lambda>p. p\<lparr>IRQ_in := IRQ_in p OR mask, irr := irr p OR mask\<rparr>) s)
        else if irq_no > 7 \<and> irq_no \<le> 15 \<and> IRQ_in (slave_pic s) AND mask = 0
        then service_slave_pic
          (upd_slave (\<lambda>p. p\<lparr>IRQ_in := IRQ_in p OR mask, irr := irr p OR mask\<rparr>) s)
        else s)"

definition set_mode :: "bool \<Rightarrow> Bit8u \<Rightarrow> bx_pic \<Rightarrow> bx_pic" where
  "set_mode ma_sl mode s =
    (if ma_sl then upd_master (\<lambda>p. p\<lparr>edge_level := mode\<rparr>) s
     else upd_slave (\<lambda>p. p\<lparr>edge_level := mode\<rparr>) s)"

section \<open>Interrupt acknowledge\<close>

text \<open>The register changes of the acknowledge cycle, once for each chip.\<close>

definition acknowledge :: "bx_pic_t \<Rightarrow> bx_pic_t" where
  "acknowledge p =
    (let n = unat (irq p);
         p = (if edge_level p AND shl 1 n = 0 then p\<lparr>irr := irr p AND NOT (shl 1 n)\<rparr> else p)
     in if auto_eoi p = 0 then p\<lparr>isr := isr p OR shl 1 n\<rparr>
        else if rotate_on_autoeoi p then p\<lparr>lowest_priority := irq p\<rparr>
        else p)"

definition IAC :: "bx_pic \<Rightarrow> Bit8u \<times> bx_pic" where
  "IAC s =
    (let s = BX_CLEAR_INTR s;
         s = upd_master (\<lambda>p. p\<lparr>INT_pin := False\<rparr>) s
     in if irr (master_pic s) = 0 then (interrupt_offset (master_pic s) + 7, s)
        else
          (let s = upd_master acknowledge s
           in if irq (master_pic s) \<noteq> 2
              then (let vector = irq (master_pic s) + interrupt_offset (master_pic s)
                    in (vector, service_master_pic s))
              else
                (let s = upd_slave (\<lambda>p. p\<lparr>INT_pin := False\<rparr>) s;
                     s = upd_master (\<lambda>p. p\<lparr>IRQ_in := IRQ_in p AND NOT (shl 1 2)\<rparr>) s
                 in if irr (slave_pic s) = 0 then (interrupt_offset (slave_pic s) + 7, s)
                    else
                      (let vector = irq (slave_pic s) + interrupt_offset (slave_pic s);
                           s = upd_slave acknowledge s;
                           s = service_slave_pic s
                       in (vector, service_master_pic s)))))"

section \<open>I/O ports\<close>

text \<open>
  Reads of the four ports. The value of the expressions \<open>irq<<8|irq\<close> has type int, returned
  as Bit32u.
\<close>

definition pic_read :: "Bit32u \<Rightarrow> nat \<Rightarrow> bx_pic \<Rightarrow> Bit32u \<times> bx_pic" where
  "pic_read address io_len s =
    (if (address = 0x20 \<or> address = 0x21) \<and> polled (master_pic s) then
       (let s = upd_master clear_highest_interrupt s;
            s = upd_master (\<lambda>p. p\<lparr>polled := False\<rparr>) s;
            s = service_master_pic s;
            n = ucast (irq (master_pic s))
        in (if io_len = 1 then n else shl n 8 OR n, s))
     else if (address = 0xa0 \<or> address = 0xa1) \<and> polled (slave_pic s) then
       (let s = upd_slave clear_highest_interrupt s;
            s = upd_slave (\<lambda>p. p\<lparr>polled := False\<rparr>) s;
            s = service_slave_pic s;
            n = ucast (irq (slave_pic s))
        in (if io_len = 1 then n else shl n 8 OR n, s))
     else if address = 0x20 then
       (ucast (if read_reg_select (master_pic s) \<noteq> 0 then isr (master_pic s) else irr (master_pic s)), s)
     else if address = 0x21 then (ucast (imr (master_pic s)), s)
     else if address = 0xA0 then
       (ucast (if read_reg_select (slave_pic s) \<noteq> 0 then isr (slave_pic s) else irr (slave_pic s)), s)
     else if address = 0xA1 then (ucast (imr (slave_pic s)), s)
     else (0, BX_PANIC (Bad_read_address address) s))"

text \<open>
  Writes, one definition per arm of the switches: the first initialisation word, the operation
  control words, and the data port with its initialisation sequence.
\<close>

definition master_icw1 :: "Bit32u \<Rightarrow> bx_pic \<Rightarrow> bx_pic" where
  "master_icw1 value s =
    (let s = upd_master (\<lambda>p. p\<lparr>in_init := True, requires_4 := (value AND 0x01 \<noteq> 0), byte_expected := 2,
             imr := 0x00, isr := 0x00, irr := 0x00, lowest_priority := 7, INT_pin := False,
             auto_eoi := 0, rotate_on_autoeoi := False\<rparr>) s;
         s = (if value AND 0x02 \<noteq> 0 then BX_PANIC Icw1_single_mode s else s);
         s = (if value AND 0x08 \<noteq> 0 then BX_PANIC Icw1_level_mode s else s)
     in BX_CLEAR_INTR s)"

definition master_ocw3 :: "Bit32u \<Rightarrow> bx_pic \<Rightarrow> bx_pic" where
  "master_ocw3 value s =
    (let special = ucast (shr (value AND 0x60) 5) :: Bit8u;
         poll = ucast (shr (value AND 0x04) 2) :: Bit8u;
         read_op = ucast (value AND 0x03) :: Bit8u
     in if poll \<noteq> 0 then upd_master (\<lambda>p. p\<lparr>polled := True\<rparr>) s
        else
          (let s = (if read_op = 0x02 then upd_master (\<lambda>p. p\<lparr>read_reg_select := 0\<rparr>) s
                    else if read_op = 0x03 then upd_master (\<lambda>p. p\<lparr>read_reg_select := 1\<rparr>) s
                    else s)
           in if special = 0x02 then upd_master (\<lambda>p. p\<lparr>special_mask := False\<rparr>) s
              else if special = 0x03
              then service_master_pic (upd_master (\<lambda>p. p\<lparr>special_mask := True\<rparr>) s)
              else s))"

definition master_ocw2 :: "Bit32u \<Rightarrow> bx_pic \<Rightarrow> bx_pic" where
  "master_ocw2 value s =
    (if value = 0x00 \<or> value = 0x80 then upd_master (\<lambda>p. p\<lparr>rotate_on_autoeoi := (value \<noteq> 0)\<rparr>) s
     else if value = 0xA0 \<or> value = 0x20 then
       (let s = upd_master clear_highest_interrupt s;
            s = (if value = 0xA0
                 then (let s = upd_master (\<lambda>p. p\<lparr>lowest_priority := lowest_priority p + 1\<rparr>) s
                       in if lowest_priority (master_pic s) > 7
                          then upd_master (\<lambda>p. p\<lparr>lowest_priority := 0\<rparr>) s else s)
                 else s)
        in service_master_pic s)
     else if value = 0x40 then s
     else if 0x60 \<le> value \<and> value \<le> 0x67 then
       service_master_pic
         (upd_master (\<lambda>p. p\<lparr>isr := isr p AND NOT (shl 1 (unat (value - 0x60)))\<rparr>) s)
     else if 0xC0 \<le> value \<and> value \<le> 0xC7 then
       upd_master (\<lambda>p. p\<lparr>lowest_priority := ucast (value - 0xC0)\<rparr>) s
     else if 0xE0 \<le> value \<and> value \<le> 0xE7 then
       service_master_pic
         (upd_master (\<lambda>p. p\<lparr>isr := isr p AND NOT (shl 1 (unat (value - 0xE0))),
             lowest_priority := ucast (value - 0xE0)\<rparr>) s)
     else if value = 0x02 then s
     else BX_PANIC (Bad_ocw2 value) s)"

definition write_master_command :: "Bit32u \<Rightarrow> bx_pic \<Rightarrow> bx_pic" where
  "write_master_command value s =
    (if value AND 0x10 \<noteq> 0 then master_icw1 value s
     else if value AND 0x18 = 0x08 then master_ocw3 value s
     else master_ocw2 value s)"

definition write_master_data :: "Bit32u \<Rightarrow> bx_pic \<Rightarrow> bx_pic" where
  "write_master_data value s =
    (let normal = (\<lambda>s. service_master_pic (upd_master (\<lambda>p. p\<lparr>imr := ucast value\<rparr>) s))
     in if in_init (master_pic s) then
          (if byte_expected (master_pic s) = 2 then
             upd_master (\<lambda>p. p\<lparr>interrupt_offset := ucast (value AND 0xf8), byte_expected := 3\<rparr>) s
           else if byte_expected (master_pic s) = 3 then
             upd_master (\<lambda>p. if requires_4 p then p\<lparr>byte_expected := 4\<rparr> else p\<lparr>in_init := False\<rparr>) s
           else if byte_expected (master_pic s) = 4 then
             (let s = upd_master (\<lambda>p. p\<lparr>auto_eoi := (if value AND 0x02 \<noteq> 0 then 1 else 0)\<rparr>) s;
                  s = (if value AND 0x01 \<noteq> 0 then s else BX_PANIC Not_80x86_mode s)
              in upd_master (\<lambda>p. p\<lparr>in_init := False\<rparr>) s)
           else normal (BX_PANIC Bad_init_command s))
        else normal s)"

definition slave_icw1 :: "Bit32u \<Rightarrow> bx_pic \<Rightarrow> bx_pic" where
  "slave_icw1 value s =
    (let s = upd_slave (\<lambda>p. p\<lparr>in_init := True, requires_4 := (value AND 0x01 \<noteq> 0), byte_expected := 2,
             imr := 0x00, isr := 0x00, irr := 0x00, lowest_priority := 7, INT_pin := False\<rparr>) s;
         s = upd_master (\<lambda>p. p\<lparr>IRQ_in := IRQ_in p AND NOT (shl 1 2)\<rparr>) s;
         s = upd_slave (\<lambda>p. p\<lparr>auto_eoi := 0, rotate_on_autoeoi := False\<rparr>) s;
         s = (if value AND 0x02 \<noteq> 0 then BX_PANIC Icw1_single_mode s else s)
     in if value AND 0x08 \<noteq> 0 then BX_PANIC Icw1_level_mode s else s)"

definition slave_ocw3 :: "Bit32u \<Rightarrow> bx_pic \<Rightarrow> bx_pic" where
  "slave_ocw3 value s =
    (let special = ucast (shr (value AND 0x60) 5) :: Bit8u;
         poll = ucast (shr (value AND 0x04) 2) :: Bit8u;
         read_op = ucast (value AND 0x03) :: Bit8u
     in if poll \<noteq> 0 then upd_slave (\<lambda>p. p\<lparr>polled := True\<rparr>) s
        else
          (let s = (if read_op = 0x02 then upd_slave (\<lambda>p. p\<lparr>read_reg_select := 0\<rparr>) s
                    else if read_op = 0x03 then upd_slave (\<lambda>p. p\<lparr>read_reg_select := 1\<rparr>) s
                    else s)
           in if special = 0x02 then upd_slave (\<lambda>p. p\<lparr>special_mask := False\<rparr>) s
              else if special = 0x03
              then service_slave_pic (upd_slave (\<lambda>p. p\<lparr>special_mask := True\<rparr>) s)
              else s))"

definition slave_ocw2 :: "Bit32u \<Rightarrow> bx_pic \<Rightarrow> bx_pic" where
  "slave_ocw2 value s =
    (if value = 0x00 \<or> value = 0x80 then upd_slave (\<lambda>p. p\<lparr>rotate_on_autoeoi := (value \<noteq> 0)\<rparr>) s
     else if value = 0xA0 \<or> value = 0x20 then
       (let s = upd_slave clear_highest_interrupt s;
            s = (if value = 0xA0
                 then (let s = upd_slave (\<lambda>p. p\<lparr>lowest_priority := lowest_priority p + 1\<rparr>) s
                       in if lowest_priority (slave_pic s) > 7
                          then upd_slave (\<lambda>p. p\<lparr>lowest_priority := 0\<rparr>) s else s)
                 else s)
        in service_slave_pic s)
     else if value = 0x40 then s
     else if 0x60 \<le> value \<and> value \<le> 0x67 then
       service_slave_pic
         (upd_slave (\<lambda>p. p\<lparr>isr := isr p AND NOT (shl 1 (unat (value - 0x60)))\<rparr>) s)
     else if 0xC0 \<le> value \<and> value \<le> 0xC7 then
       upd_slave (\<lambda>p. p\<lparr>lowest_priority := ucast (value - 0xC0)\<rparr>) s
     else if 0xE0 \<le> value \<and> value \<le> 0xE7 then
       service_slave_pic
         (upd_slave (\<lambda>p. p\<lparr>isr := isr p AND NOT (shl 1 (unat (value - 0xE0))),
             lowest_priority := ucast (value - 0xE0)\<rparr>) s)
     else if value = 0x02 then s
     else BX_PANIC (Bad_ocw2 value) s)"

definition write_slave_command :: "Bit32u \<Rightarrow> bx_pic \<Rightarrow> bx_pic" where
  "write_slave_command value s =
    (if value AND 0x10 \<noteq> 0 then slave_icw1 value s
     else if value AND 0x18 = 0x08 then slave_ocw3 value s
     else slave_ocw2 value s)"

definition write_slave_data :: "Bit32u \<Rightarrow> bx_pic \<Rightarrow> bx_pic" where
  "write_slave_data value s =
    (let normal = (\<lambda>s. service_slave_pic (upd_slave (\<lambda>p. p\<lparr>imr := ucast value\<rparr>) s))
     in if in_init (slave_pic s) then
          (if byte_expected (slave_pic s) = 2 then
             upd_slave (\<lambda>p. p\<lparr>interrupt_offset := ucast (value AND 0xf8), byte_expected := 3\<rparr>) s
           else if byte_expected (slave_pic s) = 3 then
             upd_slave (\<lambda>p. if requires_4 p then p\<lparr>byte_expected := 4\<rparr> else p\<lparr>in_init := False\<rparr>) s
           else if byte_expected (slave_pic s) = 4 then
             (let s = upd_slave (\<lambda>p. p\<lparr>auto_eoi := (if value AND 0x02 \<noteq> 0 then 1 else 0)\<rparr>) s;
                  s = (if value AND 0x01 \<noteq> 0 then s else BX_PANIC Not_80x86_mode s)
              in upd_slave (\<lambda>p. p\<lparr>in_init := False\<rparr>) s)
           else normal (BX_PANIC Bad_init_command s))
        else normal s)"

definition pic_write :: "Bit32u \<Rightarrow> Bit32u \<Rightarrow> nat \<Rightarrow> bx_pic \<Rightarrow> bx_pic" where
  "pic_write address value io_len s =
    (if address = 0x20 then write_master_command value s
     else if address = 0x21 then write_master_data value s
     else if address = 0xA0 then write_slave_command value s
     else if address = 0xA1 then write_slave_data value s
     else s)"

section \<open>The priority ring\<close>

text \<open>
  Specification side: the eight lines in the order of their priority, starting at the
  highest, and the requests a chip may signal.
\<close>

definition pos :: "nat \<Rightarrow> nat \<Rightarrow> nat" where "pos h d = (h + d) mod 8"

definition top_irq :: "bx_pic_t \<Rightarrow> nat" where "top_irq p = highest_of (lowest_priority p)"

definition priority_order :: "bx_pic_t \<Rightarrow> nat list" where
  "priority_order p = map (pos (top_irq p)) [0..<8]"

definition rank :: "bx_pic_t \<Rightarrow> nat \<Rightarrow> nat" where
  "rank p n = (n + 8 - top_irq p) mod 8"

definition eligible :: "bx_pic_t \<Rightarrow> nat \<Rightarrow> bool" where
  "eligible p n \<longleftrightarrow> bit (irr p) n \<and> \<not> bit (imr p) n \<and>
    (if special_mask p then \<not> bit (isr p) n
     else (\<forall>m\<in>set [0..<8]. bit (isr p) m \<longrightarrow> rank p n < rank p m))"

definition top_request :: "bx_pic_t \<Rightarrow> nat option" where
  "top_request p = find (eligible p) (priority_order p)"

lemma highest_of_lt [simp]: "highest_of l < 8"
proof -
  have "\<not> 7 < w \<Longrightarrow> unat w < 8" for w :: Bit8u
    by (simp add: word_less_nat_alt)
  then show ?thesis by (simp add: highest_of_def Let_def)
qed

lemma top_irq_lt [simp]: "top_irq p < 8"
  by (simp add: top_irq_def)

lemma pos_lt [simp]: "pos h d < 8"
  by (simp add: pos_def)

lemma next_pos: "next_irq (pos h d) = pos h (Suc d)"
proof -
  have "pos h d < 8" by simp
  then show ?thesis by (auto simp: next_irq_def pos_def mod_Suc)
qed

lemma pos_0 [simp]: "h < 8 \<Longrightarrow> pos h 0 = h" and pos_8 [simp]: "h < 8 \<Longrightarrow> pos h 8 = h"
  by (simp_all add: pos_def)

lemma pos_eq_iff:
  assumes "d < e" "e < d + 8"
  shows "pos h d \<noteq> pos h e"
proof
  assume "pos h d = pos h e"
  then have "8 dvd h + e - (h + d)"
    unfolding pos_def using assms(1) by (metis mod_eq_dvd_iff_nat less_imp_le nat_add_left_cancel_le)
  then show False using assms by (auto dest: dvd_imp_le)
qed

lemma pos_rank: "n < 8 \<Longrightarrow> pos (top_irq p) (rank p n) = n"
proof -
  assume "n < 8"
  moreover have "top_irq p + (n + 8 - top_irq p) = n + 8" using top_irq_lt [of p] by linarith
  ultimately show ?thesis by (simp add: rank_def pos_def mod_simps)
qed

lemma rank_pos [simp]: "d < 8 \<Longrightarrow> rank p (pos (top_irq p) d) = d"
proof -
  assume d: "d < 8"
  have h: "top_irq p < 8" by simp
  show ?thesis
  proof (cases "top_irq p + d < 8")
    case True
    then have "pos (top_irq p) d = top_irq p + d" by (simp add: pos_def)
    then show ?thesis using d by (simp add: rank_def)
  next
    case False
    moreover have "top_irq p + d - 8 < 8" using d h by linarith
    ultimately have "pos (top_irq p) d = top_irq p + d - 8" by (simp add: pos_def le_mod_geq)
    then show ?thesis using d h False by (simp add: rank_def)
  qed
qed

lemma rank_lt [simp]: "rank p n < 8"
  by (simp add: rank_def)

lemma pos_onto: "n < 8 \<Longrightarrow> \<exists>d<8. n = pos (top_irq p) d"
  using pos_rank rank_lt by metis

lemma rank_inj: "m < 8 \<Longrightarrow> n < 8 \<Longrightarrow> rank p m = rank p n \<Longrightarrow> m = n"
  by (metis pos_rank)

section \<open>The loops compute the first element of the ring\<close>

lemma shift_bit: "(w AND shl 1 n = 0) = (\<not> bit w n)" "(shr w n AND 0x01 = 0) = (\<not> bit w n)" for w :: "'a::len word"
  by (simp_all add: and_exp_eq_0_iff_not_bit bit_and_one bit_drop_bit_eq)

lemma scan_isr_pos:
  "\<lbrakk>bit is (pos h d); \<forall>e. i \<le> e \<and> e < d \<longrightarrow> \<not> bit is (pos h e); i \<le> d; d - i < fuel\<rbrakk>
    \<Longrightarrow> scan_isr fuel is (pos h i) = pos h d"
proof (induction fuel arbitrary: i)
  case (Suc fuel)
  show ?case
  proof (cases "i = d")
    case False
    with Suc have "\<not> bit is (pos h i)" "scan_isr fuel is (pos h (Suc i)) = pos h d"
      by (auto intro: Suc.IH)
    then show ?thesis by (simp add: shift_bit next_pos del: push_bit_of_1)
  qed (use Suc in \<open>simp add: shift_bit del: push_bit_of_1\<close>)
qed simp

lemma scan_irr_pos:
  "\<lbrakk>i < j; j \<le> 8; j - i \<le> fuel\<rbrakk> \<Longrightarrow>
    scan_irr fuel special is requests (pos h j) (pos h i) =
    map_option (pos h) (find (\<lambda>d. \<not> (special \<and> bit is (pos h d)) \<and> bit requests (pos h d)) [i..<j])"
proof (induction fuel arbitrary: i)
  case (Suc fuel)
  show ?case
  proof (cases "Suc i = j")
    case True
    then have "[i..<j] = [i]" by auto
    then show ?thesis using True by (simp add: shift_bit next_pos del: push_bit_of_1)
  next
    case False
    with Suc.prems have "pos h (Suc i) \<noteq> pos h j" by (intro pos_eq_iff) auto
    moreover have "scan_irr fuel special is requests (pos h j) (pos h (Suc i)) =
      map_option (pos h) (find (\<lambda>d. \<not> (special \<and> bit is (pos h d)) \<and> bit requests (pos h d)) [Suc i..<j])"
      using False Suc.prems by (intro Suc.IH) auto
    ultimately show ?thesis
      using Suc.prems by (simp add: shift_bit next_pos upt_conv_Cons del: push_bit_of_1)
  qed
qed simp

lemma clear_scan_pos:
  "\<lbrakk>i < 8; 8 - i \<le> fuel; h < 8\<rbrakk> \<Longrightarrow>
    clear_scan fuel h (pos h i) p =
    (case find (\<lambda>d. bit (isr p) (pos h d)) [i..<8] of
       None \<Rightarrow> p | Some d \<Rightarrow> p\<lparr>isr := isr p AND NOT (shl 1 (pos h d))\<rparr>)"
proof (induction fuel arbitrary: i)
  case (Suc fuel)
  show ?case
  proof (cases "Suc i = 8")
    case True
    then have "i = 7" by simp
    then show ?thesis using Suc.prems by (simp add: shift_bit next_pos del: push_bit_of_1)
  next
    case False
    with Suc.prems have "pos h (Suc i) \<noteq> pos h 8" by (intro pos_eq_iff) auto
    then have "pos h (Suc i) \<noteq> h" using Suc.prems by simp
    moreover have "clear_scan fuel h (pos h (Suc i)) p =
      (case find (\<lambda>d. bit (isr p) (pos h d)) [Suc i..<8] of
       None \<Rightarrow> p | Some d \<Rightarrow> p\<lparr>isr := isr p AND NOT (shl 1 (pos h d))\<rparr>)"
      using False Suc.prems by (intro Suc.IH) auto
    ultimately show ?thesis
      using Suc.prems by (simp add: shift_bit next_pos upt_conv_Cons del: push_bit_of_1)
  qed
qed simp

lemma word8_nonzero: "w \<noteq> 0 \<Longrightarrow> \<exists>n<8. bit w n" for w :: Bit8u
  by (auto simp: bit_eq_iff dest: bit_imp_le_length)

lemma find_upt_prefix:
  assumes "d \<le> n" "\<And>e. e < d \<Longrightarrow> E e = Q e" "\<And>e. d \<le> e \<Longrightarrow> e < n \<Longrightarrow> \<not> E e"
  shows "find E [0..<n] = find Q [0..<d]"
proof -
  have "[0..<n] = [0..<d] @ [d..<n]" using assms(1) upt_add_eq_append [of 0 d "n - d"] by simp
  moreover have "find E [d..<n] = None" using assms(3) by (simp add: find_None_iff)
  moreover have "find E [0..<d] = find Q [0..<d]" using assms(2) by (intro find_cong) auto
  moreover have "find P (xs @ ys) = (case find P xs of None \<Rightarrow> find P ys | Some x \<Rightarrow> Some x)" for P and xs ys :: "nat list"
    by (induction xs) auto
  ultimately show ?thesis by (simp split: option.split)
qed

text \<open>What the service routines resolve to, whatever they do with the result.\<close>

definition resolve :: "bx_pic_t \<Rightarrow> nat option" where
  "resolve p =
    (let h = highest_of (lowest_priority p);
         normal = \<not> special_mask p \<and> isr p \<noteq> 0;
         max_irq = (if normal then scan_isr 8 (isr p) h else h);
         requests = irr p AND NOT (imr p)
     in if normal \<and> max_irq = h then None
        else if requests \<noteq> 0 then scan_irr 8 (special_mask p) (isr p) requests max_irq h else None)"

lemma resolve_top_request: "resolve p = top_request p"
proof -
  let ?h = "top_irq p"
  let ?R = "irr p AND NOT (imr p)"
  let ?Q = "\<lambda>d. \<not> (special_mask p \<and> bit (isr p) (pos ?h d)) \<and> bit ?R (pos ?h d)"
  have R: "bit ?R (pos ?h d) \<longleftrightarrow> bit (irr p) (pos ?h d) \<and> \<not> bit (imr p) (pos ?h d)" for d
    by (auto simp: bit_and_iff bit_not_iff dest: bit_imp_le_length)
  have T: "top_request p = map_option (pos ?h) (find (\<lambda>d. eligible p (pos ?h d)) [0..<8])"
  proof -
    have "find P (map f xs) = map_option f (find (\<lambda>x. P (f x)) xs)" for P and f :: "nat \<Rightarrow> nat" and xs
      by (induction xs) auto
    then show ?thesis by (simp add: top_request_def priority_order_def)
  qed
  have Z: "find ?Q [0..<d] = None" if "?R = 0" for d
    using that by (simp add: find_None_iff)
  show ?thesis
  proof (cases "special_mask p \<or> isr p = 0")
    case True
    have "find (\<lambda>d. eligible p (pos ?h d)) [0..<8] = find ?Q [0..<8]"
      using True by (intro find_cong) (auto simp: eligible_def R)
    moreover have "scan_irr 8 (special_mask p) (isr p) ?R ?h ?h = map_option (pos ?h) (find ?Q [0..<8])"
      using scan_irr_pos [of 0 8 8 "special_mask p" "isr p" ?R ?h] by simp
    ultimately show ?thesis
      using True Z [of 8] by (auto simp: resolve_def T top_irq_def [symmetric] Let_def)
  next
    case False
    then obtain d where d: "d < 8" "bit (isr p) (pos ?h d)" "\<forall>e<d. \<not> bit (isr p) (pos ?h e)"
    proof -
      from False obtain n where "n < 8" "bit (isr p) n" using word8_nonzero by blast
      then have "\<exists>d. d < 8 \<and> bit (isr p) (pos ?h d)" using pos_onto [of n p] by auto
      then obtain d where "d < 8 \<and> bit (isr p) (pos ?h d)" "\<forall>e<d. \<not> (e < 8 \<and> bit (isr p) (pos ?h e))"
        using exists_least_iff [of "\<lambda>d. d < 8 \<and> bit (isr p) (pos ?h d)"] by blast
      then show ?thesis by (intro that [of d]) auto
    qed
    have m: "scan_isr 8 (isr p) ?h = pos ?h d"
      using scan_isr_pos [of "isr p" ?h d 0 8] d by simp
    have "find (\<lambda>d. eligible p (pos ?h d)) [0..<8] = find ?Q [0..<d]"
    proof (rule find_upt_prefix)
      show "d \<le> 8" using d by simp
      show "eligible p (pos ?h e) = ?Q e" if "e < d" for e
      proof -
        have "rank p (pos ?h e) < rank p m" if "m < 8" "bit (isr p) m" for m
        proof -
          obtain j where j: "j < 8" "m = pos ?h j" using pos_onto [OF \<open>m < 8\<close>] by blast
          then have "d \<le> j" using d(3) that by (meson not_le)
          then show ?thesis using \<open>e < d\<close> d(1) j by simp
        qed
        then show ?thesis using False by (auto simp: eligible_def R)
      qed
      show "\<not> eligible p (pos ?h e)" if "d \<le> e" "e < 8" for e
        using that d False by (auto simp: eligible_def)
    qed
    moreover have "scan_irr 8 False (isr p) ?R (pos ?h d) ?h = map_option (pos ?h) (find ?Q [0..<d])" if "d \<noteq> 0"
      using scan_irr_pos [of 0 d 8 False "isr p" ?R ?h] d that False by simp
    moreover have "pos ?h d = ?h \<longleftrightarrow> d = 0"
      using pos_eq_iff [of 0 d ?h] d by (cases "d = 0") auto
    ultimately show ?thesis
      using False Z [of d] by (auto simp: resolve_def T top_irq_def [symmetric] Let_def m)
  qed
qed

lemma next_irq_lt [simp]: "n < 8 \<Longrightarrow> next_irq n < 8"
  by (simp add: next_irq_def)

lemma scan_isr_lt: "n < 8 \<Longrightarrow> scan_isr fuel is n < 8"
  by (induction fuel arbitrary: n) simp_all

lemma top_request_SomeD:
  assumes "top_request p = Some n"
  shows "n < 8" "eligible p n" "m < 8 \<Longrightarrow> eligible p m \<Longrightarrow> rank p n \<le> rank p m"
proof -
  from assms obtain d where d: "d < 8" "n = pos (top_irq p) d" "eligible p n"
      and first: "\<forall>e<d. \<not> eligible p (pos (top_irq p) e)"
    by (auto simp: top_request_def priority_order_def find_Some_iff)
  show "n < 8" "eligible p n" using d by simp_all
  show "rank p n \<le> rank p m" if "m < 8" "eligible p m"
  proof (rule ccontr)
    assume "\<not> rank p n \<le> rank p m"
    then have "rank p m < d" using d by simp
    then show False using first that pos_rank by metis
  qed
qed

lemma top_request_NoneD: "top_request p = None \<Longrightarrow> m < 8 \<Longrightarrow> \<not> eligible p m"
  using pos_onto by (fastforce simp: top_request_def priority_order_def find_None_iff)

lemma top_request_cong:
  "irr p = irr q \<Longrightarrow> imr p = imr q \<Longrightarrow> isr p = isr q \<Longrightarrow> special_mask p = special_mask q \<Longrightarrow>
    lowest_priority p = lowest_priority q \<Longrightarrow> top_request p = top_request q"
proof -
  assume a: "irr p = irr q" "imr p = imr q" "isr p = isr q" "special_mask p = special_mask q"
    "lowest_priority p = lowest_priority q"
  have "eligible p = eligible q" "priority_order p = priority_order q"
    using a by (auto simp: eligible_def fun_eq_iff rank_def top_irq_def priority_order_def)
  then show ?thesis by (simp add: top_request_def)
qed

section \<open>Interface of one chip\<close>

text \<open>
  What the two chips have in common: a place in the device state, a line to the outside
  (the CPU's INTR for the master, IRQ 2 of the master for the slave), and a service
  routine that raises the line for the top request unless the last one is still pending.
\<close>

locale irq_chip =
  fixes chip :: "'s \<Rightarrow> bx_pic_t" and put :: "bx_pic_t \<Rightarrow> 's \<Rightarrow> 's"
    and notify :: "'s \<Rightarrow> 's" and service :: "'s \<Rightarrow> 's"
  assumes chip_put: "chip (put p s) = p"
    and chip_notify: "chip (notify s) = chip s"
    and service_eq: "service s =
      (if INT_pin (chip s) then s
       else case top_request (chip s) of None \<Rightarrow> s
         | Some n \<Rightarrow> notify (put ((chip s)\<lparr>INT_pin := True, irq := of_nat n\<rparr>) s))"
begin

lemma service_pending: "INT_pin (chip s) \<Longrightarrow> service s = s"
  by (simp add: service_eq)

lemma service_quiet: "top_request (chip s) = None \<Longrightarrow> service s = s"
  by (simp add: service_eq)

lemma chip_service:
  "chip (service s) =
    (if INT_pin (chip s) then chip s
     else case top_request (chip s) of None \<Rightarrow> chip s
       | Some n \<Rightarrow> (chip s)\<lparr>INT_pin := True, irq := of_nat n\<rparr>)"
  by (simp add: service_eq chip_put chip_notify split: option.split)

lemma signalled:
  assumes "\<not> INT_pin (chip s)" "INT_pin (chip (service s))"
  shows "unat (irq (chip (service s))) < 8" "eligible (chip s) (unat (irq (chip (service s))))"
    "m < 8 \<Longrightarrow> eligible (chip s) m \<Longrightarrow> rank (chip s) (unat (irq (chip (service s)))) \<le> rank (chip s) m"
proof -
  from assms obtain n where n: "top_request (chip s) = Some n" "irq (chip (service s)) = of_nat n"
    by (auto simp: chip_service split: option.splits)
  moreover have "unat (of_nat n :: Bit8u) = n"
    using top_request_SomeD(1) [OF n(1)] by (simp add: unat_of_nat)
  ultimately show "unat (irq (chip (service s))) < 8" "eligible (chip s) (unat (irq (chip (service s))))"
    "m < 8 \<Longrightarrow> eligible (chip s) m \<Longrightarrow> rank (chip s) (unat (irq (chip (service s)))) \<le> rank (chip s) m"
    using top_request_SomeD [OF n(1)] by simp_all
qed

lemma not_signalled: "\<not> INT_pin (chip (service s)) \<Longrightarrow> m < 8 \<Longrightarrow> \<not> eligible (chip s) m"
  by (auto simp: chip_service dest: top_request_NoneD split: if_splits option.splits)

lemma service_idem: "service (service s) = service s"
proof (cases "INT_pin (chip (service s))")
  case True
  then show ?thesis by (rule service_pending)
next
  case False
  then have "service s = s"
    by (auto simp: chip_service service_eq chip_put chip_notify split: if_splits option.splits)
  then show ?thesis by simp
qed

end

lemma service_master_eq:
  "service_master_pic s =
    (if INT_pin (master_pic s) then s
     else case top_request (master_pic s) of None \<Rightarrow> s
       | Some n \<Rightarrow> BX_RAISE_INTR (upd_master (\<lambda>p. p\<lparr>INT_pin := True, irq := of_nat n\<rparr>) s))"
  unfolding resolve_top_request [symmetric]
  using scan_isr_lt [of "highest_of (lowest_priority (master_pic s))" 8 "isr (master_pic s)"]
  by (auto simp: service_master_pic_def resolve_def Let_def)

lemma service_slave_eq:
  "service_slave_pic s =
    (if INT_pin (slave_pic s) then s
     else case top_request (slave_pic s) of None \<Rightarrow> s
       | Some n \<Rightarrow> raise_irq_2 (upd_slave (\<lambda>p. p\<lparr>INT_pin := True, irq := of_nat n\<rparr>) s))"
  unfolding resolve_top_request [symmetric]
  using scan_isr_lt [of "highest_of (lowest_priority (slave_pic s))" 8 "isr (slave_pic s)"]
  by (auto simp: service_slave_pic_def resolve_def Let_def)

lemma slave_service_master [simp]: "slave_pic (service_master_pic s) = slave_pic s"
  by (simp add: service_master_eq BX_RAISE_INTR_def split: option.split)

lemma slave_raise_irq_2 [simp]: "slave_pic (raise_irq_2 s) = slave_pic s"
  by (simp add: raise_irq_2_def Let_def)

interpretation master: irq_chip master_pic "\<lambda>p. upd_master (\<lambda>_. p)" BX_RAISE_INTR service_master_pic
  by unfold_locales (simp_all add: BX_RAISE_INTR_def service_master_eq)

interpretation slave: irq_chip slave_pic "\<lambda>p. upd_slave (\<lambda>_. p)" raise_irq_2 service_slave_pic
  by unfold_locales (simp_all add: service_slave_eq)

lemma raise_irq_2_eq: "raise_irq 2 s = raise_irq_2 s"
  by (simp add: raise_irq_def raise_irq_2_def forward_ioapic_def Let_def)

end
