(* ===== verification/Pic_Safety.thy ===== *)
theory Pic_Safety
  imports Pic
begin

text \<open>
  The interrupt controller as a state machine: every port access, line change and
  acknowledge cycle is a step, and \<open>pic_inv\<close> holds in every state the device can reach.
  The theorems at the end describe the services the CPU and the devices see: which request
  is signalled, what an end-of-interrupt command does, the initialisation sequence of the
  boot loader and the delivery of the interrupts after it.
\<close>

section \<open>Invariant of the device\<close>

definition chip_ok :: "bx_pic_t \<Rightarrow> bool" where
  "chip_ok p \<longleftrightarrow> irq p < 8 \<and> lowest_priority p < 8 \<and> interrupt_offset p AND 7 = 0 \<and>
    (in_init p \<longrightarrow> byte_expected p = 2 \<or> byte_expected p = 3 \<or> byte_expected p = 4)"

definition lines_ok :: "Bit8u \<Rightarrow> bx_pic_t \<Rightarrow> bool" where
  "lines_ok ex p \<longleftrightarrow> irr p AND NOT (IRQ_in p OR ex) = 0"

definition pic_inv :: "bx_pic \<Rightarrow> bool" where
  "pic_inv s \<longleftrightarrow> chip_ok (master_pic s) \<and> chip_ok (slave_pic s) \<and>
    lines_ok 4 (master_pic s) \<and> lines_ok 0 (slave_pic s) \<and>
    INT_pin (slave_pic s) = bit (IRQ_in (master_pic s)) 2 \<and>
    intr s = INT_pin (master_pic s) \<and>
    Service_error \<notin> set (panics s) \<and> Bad_init_command \<notin> set (panics s)"

lemma lines_ok_iff:
  "lines_ok ex p \<longleftrightarrow> (\<forall>n. bit (irr p) n \<longrightarrow> bit (IRQ_in p) n \<or> bit ex n)"
proof -
  have "(a AND NOT b = 0) = (\<forall>n. bit a n \<longrightarrow> bit b n)" for a b :: Bit8u
    using bit_imp_le_length [of a] by (fastforce simp: bit_eq_iff bit_and_iff bit_not_iff)
  note this [of "irr p" "IRQ_in p OR ex"]
  then show ?thesis unfolding lines_ok_def bit_or_iff .
qed

lemma bit_irq_mask: "bit (2 ^ m :: Bit8u) n \<longleftrightarrow> n = m \<and> n < 8"
  by (auto simp: bit_exp_iff)

lemma bit_4: "bit (4 :: Bit8u) n \<longleftrightarrow> n = 2"
  using bit_irq_mask [of 2 n] by auto

lemma bit_not_4: "bit (- 5 :: Bit8u) n \<longleftrightarrow> n < 8 \<and> n \<noteq> 2"
proof -
  have "(- 5 :: Bit8u) = NOT 4" by simp
  then show ?thesis by (simp only: bit_not_iff bit_4) simp
qed

lemmas line_bits = lines_ok_iff bit_or_iff bit_and_iff bit_not_iff bit_irq_mask bit_4 bit_not_4

lemma of_nat_less_8: "n < 8 \<Longrightarrow> (of_nat n :: Bit8u) < 8"
  by (simp add: word_less_nat_alt unat_of_nat)

lemma service_master_inv: "pic_inv s \<Longrightarrow> pic_inv (service_master_pic s)"
  by (auto simp: service_master_eq pic_inv_def chip_ok_def lines_ok_iff BX_RAISE_INTR_def of_nat_less_8
      dest: top_request_SomeD(1) split: option.split)

lemma service_slave_inv: "pic_inv s \<Longrightarrow> pic_inv (service_slave_pic s)"
proof -
  assume i: "pic_inv s"
  show ?thesis
  proof (cases "INT_pin (slave_pic s) \<or> top_request (slave_pic s) = None")
    case True
    then show ?thesis using i by (auto simp: service_slave_eq)
  next
    case False
    then obtain n where n: "top_request (slave_pic s) = Some n" by auto
    let ?s = "upd_master (\<lambda>p. p\<lparr>IRQ_in := IRQ_in p OR 4, irr := irr p OR 4\<rparr>)
      (upd_slave (\<lambda>p. p\<lparr>INT_pin := True, irq := of_nat n\<rparr>) s)"
    have "pic_inv ?s"
      using i top_request_SomeD(1) [OF n] by (auto simp: pic_inv_def chip_ok_def line_bits of_nat_less_8)
    moreover have "service_slave_pic s = service_master_pic ?s"
      using i n False by (auto simp: service_slave_eq raise_irq_2_def pic_inv_def Let_def and_exp_eq_0_iff_not_bit [of _ 2, simplified])
    ultimately show ?thesis by (simp add: service_master_inv)
  qed
qed

text \<open>Updates of one chip that leave the lines between the chips alone.\<close>

lemma upd_master_inv:
  assumes "pic_inv s" "chip_ok (f (master_pic s))" "lines_ok 4 (f (master_pic s))"
    "INT_pin (f (master_pic s)) = INT_pin (master_pic s)"
    "bit (IRQ_in (f (master_pic s))) 2 = bit (IRQ_in (master_pic s)) 2"
  shows "pic_inv (upd_master f s)"
  using assms by (simp add: pic_inv_def)

lemma upd_slave_inv:
  assumes "pic_inv s" "chip_ok (f (slave_pic s))" "lines_ok 0 (f (slave_pic s))"
    "INT_pin (f (slave_pic s)) = INT_pin (slave_pic s)"
  shows "pic_inv (upd_slave f s)"
  using assms by (simp add: pic_inv_def)

lemma pic_inv_chips:
  "pic_inv s \<Longrightarrow> chip_ok (master_pic s)" "pic_inv s \<Longrightarrow> chip_ok (slave_pic s)"
  "pic_inv s \<Longrightarrow> lines_ok 4 (master_pic s)" "pic_inv s \<Longrightarrow> lines_ok 0 (slave_pic s)"
  by (simp_all add: pic_inv_def)

lemma find_map_nat: "find P (map f xs) = map_option f (find (\<lambda>x. P (f x)) xs)" for f :: "nat \<Rightarrow> nat"
  by (induction xs) auto

lemma clear_highest_eq:
  "clear_highest_interrupt p =
    (case find (bit (isr p)) (priority_order p) of
       None \<Rightarrow> p | Some n \<Rightarrow> p\<lparr>isr := isr p AND NOT (shl 1 n)\<rparr>)"
  using clear_scan_pos [of 0 8 "top_irq p" p]
  by (simp add: clear_highest_interrupt_def top_irq_def [symmetric] Let_def priority_order_def find_map_nat
      split: option.split)

lemma clear_highest_sel:
  "irq (clear_highest_interrupt p) = irq p" "irr (clear_highest_interrupt p) = irr p"
  "imr (clear_highest_interrupt p) = imr p" "IRQ_in (clear_highest_interrupt p) = IRQ_in p"
  "lowest_priority (clear_highest_interrupt p) = lowest_priority p"
  "INT_pin (clear_highest_interrupt p) = INT_pin p" "in_init (clear_highest_interrupt p) = in_init p"
  "byte_expected (clear_highest_interrupt p) = byte_expected p"
  "interrupt_offset (clear_highest_interrupt p) = interrupt_offset p"
  "special_mask (clear_highest_interrupt p) = special_mask p"
  by (simp_all add: clear_highest_eq split: option.split)

lemma clear_highest_ok [simp]:
  "chip_ok (clear_highest_interrupt p) = chip_ok p" "lines_ok ex (clear_highest_interrupt p) = lines_ok ex p"
  by (simp_all add: chip_ok_def lines_ok_def clear_highest_sel)

lemma panic_inv: "pic_inv s \<Longrightarrow> q \<noteq> Service_error \<Longrightarrow> q \<noteq> Bad_init_command \<Longrightarrow> pic_inv (BX_PANIC q s)"
  by (simp add: pic_inv_def BX_PANIC_def)

lemma forward_inv: "pic_inv s \<Longrightarrow> pic_inv (forward_ioapic n l s)"
  by (simp add: pic_inv_def forward_ioapic_def DEV_ioapic_set_irq_level_def)

lemma low_bits: "n AND 7 = n mod 8" for n :: nat
proof -
  have m: "(7 :: nat) = mask 3" by (simp add: mask_eq_exp_minus_1)
  show ?thesis unfolding m take_bit_eq_mask [symmetric] take_bit_eq_mod by simp
qed

lemma low_bits_master: "n \<le> 7 \<Longrightarrow> n AND 7 = n" for n :: nat
  by (simp add: low_bits)

text \<open>A line going high or low, in the two registers that follow it.\<close>

lemma line_change [simp]:
  "chip_ok (p\<lparr>IRQ_in := a, irr := b\<rparr>) = chip_ok p"
  "lines_ok ex p \<Longrightarrow> lines_ok ex (p\<lparr>IRQ_in := IRQ_in p OR m, irr := irr p OR m\<rparr>)"
  "lines_ok ex p \<Longrightarrow> lines_ok ex (p\<lparr>IRQ_in := IRQ_in p AND NOT m, irr := irr p AND NOT m\<rparr>)"
  by (auto simp: chip_ok_def line_bits)

lemma raise_irq_inv: "pic_inv s \<Longrightarrow> n \<noteq> 2 \<Longrightarrow> pic_inv (raise_irq n s)"
proof -
  assume n: "n \<noteq> 2" and "pic_inv s"
  then have i: "pic_inv (forward_ioapic n True s)" by (simp add: forward_inv)
  note c = pic_inv_chips [OF i]
  have "pic_inv (upd_master (\<lambda>p. p\<lparr>IRQ_in := IRQ_in p OR shl 1 (n AND 7), irr := irr p OR shl 1 (n AND 7)\<rparr>)
      (forward_ioapic n True s))" if "n \<le> 7"
    using c n that by (intro upd_master_inv i) (simp_all add: low_bits_master bit_or_iff bit_irq_mask)
  moreover have "pic_inv (upd_slave (\<lambda>p. p\<lparr>IRQ_in := IRQ_in p OR shl 1 (n AND 7), irr := irr p OR shl 1 (n AND 7)\<rparr>)
      (forward_ioapic n True s))"
    using c by (intro upd_slave_inv i) simp_all
  ultimately show ?thesis
    unfolding raise_irq_def Let_def using i by (auto intro!: service_master_inv service_slave_inv)
qed

lemma lower_irq_inv: "pic_inv s \<Longrightarrow> n \<noteq> 2 \<Longrightarrow> pic_inv (lower_irq n s)"
proof -
  assume n: "n \<noteq> 2" and "pic_inv s"
  then have i: "pic_inv (forward_ioapic n False s)" by (simp add: forward_inv)
  note c = pic_inv_chips [OF i]
  have "pic_inv (upd_master (\<lambda>p. p\<lparr>IRQ_in := IRQ_in p AND NOT (shl 1 (n AND 7)), irr := irr p AND NOT (shl 1 (n AND 7))\<rparr>)
      (forward_ioapic n False s))" if "n \<le> 7"
    using c n that by (intro upd_master_inv i) (simp_all add: low_bits_master bit_and_iff bit_not_iff bit_irq_mask)
  moreover have "pic_inv (upd_slave (\<lambda>p. p\<lparr>IRQ_in := IRQ_in p AND NOT (shl 1 (n AND 7)), irr := irr p AND NOT (shl 1 (n AND 7))\<rparr>)
      (forward_ioapic n False s))"
    using c by (intro upd_slave_inv i) simp_all
  ultimately show ?thesis
    unfolding lower_irq_def Let_def using i by auto
qed

lemma set_mode_inv: "pic_inv s \<Longrightarrow> pic_inv (set_mode b m s)"
  by (simp add: set_mode_def pic_inv_def chip_ok_def lines_ok_def)

lemma acknowledge_sel [simp]:
  "INT_pin (acknowledge p) = INT_pin p" "IRQ_in (acknowledge p) = IRQ_in p" "irq (acknowledge p) = irq p"
  "imr (acknowledge p) = imr p" "interrupt_offset (acknowledge p) = interrupt_offset p"
  "special_mask (acknowledge p) = special_mask p"
  by (simp_all add: acknowledge_def Let_def)

lemma acknowledge_ok:
  "chip_ok p \<Longrightarrow> chip_ok (acknowledge p)" "lines_ok ex p \<Longrightarrow> lines_ok ex (acknowledge p)"
  by (auto simp: acknowledge_def Let_def chip_ok_def line_bits)

text \<open>The two states between which the acknowledge cycle runs the service routines.\<close>

definition ack_master :: "bx_pic \<Rightarrow> bx_pic" where
  "ack_master s = upd_master (\<lambda>p. acknowledge (p\<lparr>INT_pin := False\<rparr>)) (BX_CLEAR_INTR s)"

definition ack_cascade :: "bx_pic \<Rightarrow> bx_pic" where
  "ack_cascade s = upd_master (\<lambda>p. p\<lparr>IRQ_in := IRQ_in p AND NOT (shl 1 2)\<rparr>)
    (upd_slave (\<lambda>p. p\<lparr>INT_pin := False\<rparr>) (ack_master s))"

lemma IAC_eq:
  "IAC s =
    (if irr (master_pic s) = 0
     then (interrupt_offset (master_pic s) + 7, upd_master (\<lambda>p. p\<lparr>INT_pin := False\<rparr>) (BX_CLEAR_INTR s))
     else if irq (master_pic s) \<noteq> 2
     then (irq (master_pic s) + interrupt_offset (master_pic s), service_master_pic (ack_master s))
     else if irr (slave_pic s) = 0 then (interrupt_offset (slave_pic s) + 7, ack_cascade s)
     else (irq (slave_pic s) + interrupt_offset (slave_pic s),
           service_master_pic (service_slave_pic (upd_slave acknowledge (ack_cascade s)))))"
  by (simp add: IAC_def ack_master_def ack_cascade_def BX_CLEAR_INTR_def Let_def)

lemma chip_ok_pins [simp]:
  "chip_ok (p\<lparr>INT_pin := b\<rparr>) = chip_ok p" "chip_ok (p\<lparr>IRQ_in := x\<rparr>) = chip_ok p"
  "lines_ok ex (p\<lparr>INT_pin := b\<rparr>) = lines_ok ex p"
  by (simp_all add: chip_ok_def lines_ok_def)

lemma lines_ok_cascade [simp]:
  "IRQ_in p = x \<Longrightarrow> lines_ok 4 (p\<lparr>IRQ_in := x AND - 5\<rparr>) = lines_ok 4 p"
proof -
  have "n < 8" if "bit (irr p) n" for n using bit_imp_le_length [OF that] by simp
  then show "IRQ_in p = x \<Longrightarrow> lines_ok 4 (p\<lparr>IRQ_in := x AND - 5\<rparr>) = lines_ok 4 p"
    unfolding lines_ok_iff by (auto simp: bit_and_iff bit_4 bit_not_4 simp del: bit_numeral_word_iff bit_neg_numeral_word_iff)
qed

lemma pic_inv_steps:
  "pic_inv s \<Longrightarrow> pic_inv (upd_master (\<lambda>p. p\<lparr>INT_pin := False\<rparr>) (BX_CLEAR_INTR s))"
  "pic_inv s \<Longrightarrow> pic_inv (ack_master s)" "pic_inv s \<Longrightarrow> pic_inv (ack_cascade s)"
  "pic_inv s \<Longrightarrow> pic_inv (upd_slave acknowledge s)"
  by (simp_all add: pic_inv_def BX_CLEAR_INTR_def ack_master_def ack_cascade_def acknowledge_ok
      bit_and_iff bit_not_4)

lemma IAC_inv: "pic_inv s \<Longrightarrow> pic_inv (snd (IAC s))"
  by (simp add: IAC_eq service_master_inv service_slave_inv pic_inv_steps)

lemma chip_ok_fields [simp]:
  "chip_ok (p\<lparr>requires_4 := x1\<rparr>) = chip_ok p" "chip_ok (p\<lparr>auto_eoi := x2\<rparr>) = chip_ok p"
  "chip_ok (p\<lparr>read_reg_select := x3\<rparr>) = chip_ok p" "chip_ok (p\<lparr>rotate_on_autoeoi := x4\<rparr>) = chip_ok p"
  "chip_ok (p\<lparr>special_mask := x5\<rparr>) = chip_ok p" "chip_ok (p\<lparr>polled := x6\<rparr>) = chip_ok p"
  "chip_ok (p\<lparr>imr := x7\<rparr>) = chip_ok p" "chip_ok (p\<lparr>isr := x8\<rparr>) = chip_ok p"
  "chip_ok (p\<lparr>irr := x9\<rparr>) = chip_ok p"
  "lines_ok ex (p\<lparr>interrupt_offset := y0\<rparr>) = lines_ok ex p" "lines_ok ex (p\<lparr>requires_4 := y1\<rparr>) = lines_ok ex p"
  "lines_ok ex (p\<lparr>auto_eoi := y2\<rparr>) = lines_ok ex p" "lines_ok ex (p\<lparr>read_reg_select := y3\<rparr>) = lines_ok ex p"
  "lines_ok ex (p\<lparr>rotate_on_autoeoi := y4\<rparr>) = lines_ok ex p" "lines_ok ex (p\<lparr>special_mask := y5\<rparr>) = lines_ok ex p"
  "lines_ok ex (p\<lparr>polled := y6\<rparr>) = lines_ok ex p" "lines_ok ex (p\<lparr>imr := y7\<rparr>) = lines_ok ex p"
  "lines_ok ex (p\<lparr>isr := y8\<rparr>) = lines_ok ex p" "lines_ok ex (p\<lparr>in_init := y9\<rparr>) = lines_ok ex p"
  "lines_ok ex (p\<lparr>byte_expected := y10\<rparr>) = lines_ok ex p" "lines_ok ex (p\<lparr>lowest_priority := y11\<rparr>) = lines_ok ex p"
  "lines_ok ex (p\<lparr>irq := y12\<rparr>) = lines_ok ex p"
  "lines_ok ex (p\<lparr>irr := 0\<rparr>)"
  "w < 8 \<Longrightarrow> chip_ok p \<Longrightarrow> chip_ok (p\<lparr>lowest_priority := w\<rparr>)"
  "chip_ok p \<Longrightarrow> chip_ok (p\<lparr>in_init := False\<rparr>)"
  "chip_ok p \<Longrightarrow> chip_ok (p\<lparr>in_init := b, requires_4 := c, byte_expected := 2\<rparr>)"
  "chip_ok p \<Longrightarrow> chip_ok (p\<lparr>byte_expected := 4\<rparr>)"
  by (simp_all add: chip_ok_def lines_ok_def)

lemma upd_inv [simp]:
  "pic_inv s \<Longrightarrow> chip_ok p \<Longrightarrow> lines_ok 4 p \<Longrightarrow> INT_pin p = INT_pin (master_pic s) \<Longrightarrow>
    bit (IRQ_in p) 2 = bit (IRQ_in (master_pic s)) 2 \<Longrightarrow> pic_inv (s\<lparr>master_pic := p\<rparr>)"
  "pic_inv s \<Longrightarrow> chip_ok q \<Longrightarrow> lines_ok 0 q \<Longrightarrow> INT_pin q = INT_pin (slave_pic s) \<Longrightarrow>
    pic_inv (s\<lparr>slave_pic := q\<rparr>)"
  by (simp_all add: pic_inv_def)

lemmas keep_inv = service_master_inv service_slave_inv panic_inv pic_inv_chips clear_highest_sel

lemma pic_read_inv: "pic_inv s \<Longrightarrow> pic_inv (snd (pic_read a l s))"
  by (simp add: pic_read_def Let_def keep_inv)

lemma ocw3_inv:
  "pic_inv s \<Longrightarrow> pic_inv (master_ocw3 v s)" "pic_inv s \<Longrightarrow> pic_inv (slave_ocw3 v s)"
  by (simp_all add: master_ocw3_def slave_ocw3_def Let_def keep_inv)

lemma master_icw1_inv: "pic_inv s \<Longrightarrow> pic_inv (master_icw1 v s)"
  by (simp add: master_icw1_def Let_def pic_inv_def BX_PANIC_def BX_CLEAR_INTR_def)

lemma slave_icw1_inv: "pic_inv s \<Longrightarrow> pic_inv (slave_icw1 v s)"
  by (simp add: slave_icw1_def Let_def pic_inv_def BX_PANIC_def bit_and_iff bit_not_4)

lemma ocw2_low: "v \<le> 0xC7 \<Longrightarrow> 0xC0 \<le> v \<Longrightarrow> (ucast (v - 0xC0) :: Bit8u) < 8"
  "v \<le> 0xE7 \<Longrightarrow> 0xE0 \<le> v \<Longrightarrow> (ucast (v - 0xE0) :: Bit8u) < 8" for v :: Bit32u
  by (simp_all add: word_less_nat_alt word_le_nat_alt unat_sub unsigned_ucast_eq take_bit_nat_eq_self)

lemma upto_7: "(\<not> 7 < w) = (w < 8)" for w :: Bit8u
  by (auto simp: word_less_nat_alt)

lemma if_inv: "(c \<Longrightarrow> pic_inv s) \<Longrightarrow> (\<not> c \<Longrightarrow> pic_inv t) \<Longrightarrow> pic_inv (if c then s else t)"
  by simp

lemma master_ocw2_inv: "pic_inv s \<Longrightarrow> pic_inv (master_ocw2 v s)"
proof -
  assume i: "pic_inv s"
  have eoi: "pic_inv (service_master_pic (upd_master clear_highest_interrupt s))"
    "w < 8 \<Longrightarrow> pic_inv (service_master_pic (upd_master (\<lambda>p. p\<lparr>lowest_priority := w\<rparr>) (upd_master clear_highest_interrupt s)))"
    "pic_inv (service_master_pic (upd_master (\<lambda>p. p\<lparr>isr := x\<rparr>) s))"
    "w < 8 \<Longrightarrow> pic_inv (upd_master (\<lambda>p. p\<lparr>lowest_priority := w\<rparr>) s)"
    "w < 8 \<Longrightarrow> pic_inv (service_master_pic (upd_master (\<lambda>p. p\<lparr>isr := x, lowest_priority := w\<rparr>) s))"
    "pic_inv (upd_master (\<lambda>p. p\<lparr>rotate_on_autoeoi := b\<rparr>) s)" for w x b
    using i by (simp_all add: keep_inv)
  show ?thesis
    unfolding master_ocw2_def Let_def
  proof (intro if_inv, goal_cases)
    case 2
    show ?case using eoi(1) eoi(2) [of "lowest_priority (master_pic s) + 1"] eoi(2) [of 0]
      by (auto simp: clear_highest_sel upto_7)
  qed (use i in \<open>auto simp: ocw2_low intro!: eoi panic_inv\<close>)
qed

lemma slave_ocw2_inv: "pic_inv s \<Longrightarrow> pic_inv (slave_ocw2 v s)"
proof -
  assume i: "pic_inv s"
  have eoi: "pic_inv (service_slave_pic (upd_slave clear_highest_interrupt s))"
    "w < 8 \<Longrightarrow> pic_inv (service_slave_pic (upd_slave (\<lambda>p. p\<lparr>lowest_priority := w\<rparr>) (upd_slave clear_highest_interrupt s)))"
    "pic_inv (service_slave_pic (upd_slave (\<lambda>p. p\<lparr>isr := x\<rparr>) s))"
    "w < 8 \<Longrightarrow> pic_inv (upd_slave (\<lambda>p. p\<lparr>lowest_priority := w\<rparr>) s)"
    "w < 8 \<Longrightarrow> pic_inv (service_slave_pic (upd_slave (\<lambda>p. p\<lparr>isr := x, lowest_priority := w\<rparr>) s))"
    "pic_inv (upd_slave (\<lambda>p. p\<lparr>rotate_on_autoeoi := b\<rparr>) s)" for w x b
    using i by (simp_all add: keep_inv)
  show ?thesis
    unfolding slave_ocw2_def Let_def
  proof (intro if_inv, goal_cases)
    case 2
    show ?case using eoi(1) eoi(2) [of "lowest_priority (slave_pic s) + 1"] eoi(2) [of 0]
      by (auto simp: clear_highest_sel upto_7)
  qed (use i in \<open>auto simp: ocw2_low intro!: eoi panic_inv\<close>)
qed

lemma init_word_ok:
  "chip_ok p \<Longrightarrow> chip_ok (p\<lparr>interrupt_offset := ucast (v AND 0xf8), byte_expected := 3\<rparr>)"
  for v :: Bit32u
proof -
  have "(ucast (v AND 0xf8) :: Bit8u) AND 7 = 0"
  proof -
    have f8: "(0xf8 :: Bit32u) = push_bit 3 (mask 5)" and s: "(7 :: Bit8u) = mask 3"
      by (simp_all add: mask_eq_exp_minus_1)
    show ?thesis unfolding f8 s
      by (rule bit_word_eqI) (auto simp: bit_and_iff bit_ucast_iff bit_push_bit_iff bit_mask_iff simp del: mask_numeral push_bit_mask_eq)
  qed
  then show "chip_ok p \<Longrightarrow> chip_ok (p\<lparr>interrupt_offset := ucast (v AND 0xf8), byte_expected := 3\<rparr>)"
    by (simp add: chip_ok_def)
qed

lemma master_data_inv: "pic_inv s \<Longrightarrow> pic_inv (write_master_data v s)"
proof -
  assume i: "pic_inv s"
  then have "in_init (master_pic s) \<Longrightarrow> byte_expected (master_pic s) = 2 \<or> byte_expected (master_pic s) = 3 \<or> byte_expected (master_pic s) = 4"
    by (simp add: pic_inv_def chip_ok_def)
  then show ?thesis using i
    by (auto simp: write_master_data_def Let_def keep_inv init_word_ok)
qed

lemma slave_data_inv: "pic_inv s \<Longrightarrow> pic_inv (write_slave_data v s)"
proof -
  assume i: "pic_inv s"
  then have "in_init (slave_pic s) \<Longrightarrow> byte_expected (slave_pic s) = 2 \<or> byte_expected (slave_pic s) = 3 \<or> byte_expected (slave_pic s) = 4"
    by (simp add: pic_inv_def chip_ok_def)
  then show ?thesis using i
    by (auto simp: write_slave_data_def Let_def keep_inv init_word_ok)
qed

lemma pic_write_inv: "pic_inv s \<Longrightarrow> pic_inv (pic_write a v l s)"
  by (simp add: pic_write_def write_master_command_def write_slave_command_def master_icw1_inv slave_icw1_inv
      master_ocw2_inv slave_ocw2_inv ocw3_inv master_data_inv slave_data_inv)

section \<open>Steps and reachable states\<close>

datatype pic_event =
    Raise nat | Lower nat | Set_mode bool Bit8u | Acknowledge Bit8u
  | In_port Bit32u nat Bit32u | Out_port Bit32u nat Bit32u

text \<open>IRQ 2 is the cascade line; no device drives it.\<close>

inductive pic_step :: "bx_pic \<Rightarrow> pic_event \<Rightarrow> bx_pic \<Rightarrow> bool" where
  raise: "n \<noteq> 2 \<Longrightarrow> pic_step s (Raise n) (raise_irq n s)"
| lower: "n \<noteq> 2 \<Longrightarrow> pic_step s (Lower n) (lower_irq n s)"
| mode: "pic_step s (Set_mode b m) (set_mode b m s)"
| ack: "IAC s = (v, s') \<Longrightarrow> pic_step s (Acknowledge v) s'"
| inp: "pic_read a l s = (v, s') \<Longrightarrow> pic_step s (In_port a l v) s'"
| outp: "pic_step s (Out_port a l v) (pic_write a v l s)"

inductive pic_reachable :: "bx_pic \<Rightarrow> bool" where
  start: "\<not> intr s \<Longrightarrow> panics s = [] \<Longrightarrow> pic_reachable (pic_init s)"
| step: "pic_reachable s \<Longrightarrow> pic_step s e s' \<Longrightarrow> pic_reachable s'"

inductive_cases raiseE: "pic_step s (Raise n) s'"
inductive_cases lowerE: "pic_step s (Lower n) s'"
inductive_cases ackE: "pic_step s (Acknowledge v) s'"
inductive_simps out_step: "pic_step s (Out_port a l v) s'"

lemma pic_init_inv: "\<not> intr s \<Longrightarrow> panics s = [] \<Longrightarrow> pic_inv (pic_init s)"
  by (simp add: pic_init_def pic_inv_def chip_ok_def lines_ok_def)

lemma pic_step_inv: "pic_step s e s' \<Longrightarrow> pic_inv s \<Longrightarrow> pic_inv s'"
proof (induction rule: pic_step.induct)
  case (ack s v s')
  then show ?case using IAC_inv [of s] by simp
next
  case (inp a l s v s')
  then show ?case using pic_read_inv [of s a l] by simp
qed (simp_all add: raise_irq_inv lower_irq_inv set_mode_inv pic_write_inv)

lemma reachable_inv: "pic_reachable s \<Longrightarrow> pic_inv s"
  by (induction rule: pic_reachable.induct) (blast intro: pic_init_inv pic_step_inv)+

text \<open>
  C1. In every state the controller pair can reach, from initialisation through any
  sequence of line changes, port reads and writes of any values, mode changes and
  acknowledge cycles: the request numbers and the lowest priorities are lines 0 to 7, the
  vector offsets are multiples of 8, the initialisation sequences wait for words 2 to 4,
  every pending request is backed by a line that is high (the cascade line apart), the
  slave's request is what drives IRQ 2 of the master, the CPU's INTR line is the master's,
  and the panics of the service routines and of the initialisation switch were never raised.
\<close>

theorem pic_reachable_inv:
  assumes "pic_reachable s"
  shows "pic_inv s"
  using assms by (rule reachable_inv)

definition sample_pic :: bx_pic where
  "sample_pic = pic_init \<lparr>master_pic = undefined, slave_pic = undefined, intr = False,
     ioapic_present = False, ioapic_calls = [], panics = []\<rparr>"

lemma sample_reachable: "pic_reachable sample_pic"
  unfolding sample_pic_def by (rule pic_reachable.start) simp_all

theorem pic_reachable_inv_witness:
  "pic_inv (pic_write 0x21 0 1 (raise_irq 1 sample_pic))"
proof (rule pic_reachable_inv)
  have "pic_reachable (raise_irq 1 sample_pic)"
    by (rule pic_reachable.step [OF sample_reachable pic_step.raise]) simp
  then show "pic_reachable (pic_write 0x21 0 1 (raise_irq 1 sample_pic))"
    by (rule pic_reachable.step) (rule pic_step.outp)
qed

section \<open>What is signalled\<close>

text \<open>
  C2. When no request of a chip is outstanding, its service routine raises INT exactly if
  some line is eligible (requested, unmasked and, outside special mask mode, of higher
  priority than every line in service), it then picks the eligible line of highest
  priority, and it changes nothing otherwise.
\<close>

theorem service_signals_highest:
  assumes "\<not> INT_pin (master_pic s)" "\<not> INT_pin (slave_pic t)"
  shows "(let p = master_pic s; p' = master_pic (service_master_pic s); n = unat (irq p') in
      INT_pin p' = (\<exists>m\<in>{0..<8}. eligible p m) \<and>
      (if INT_pin p' then n < 8 \<and> eligible p n \<and> (\<forall>m\<in>{0..<8}. eligible p m \<longrightarrow> rank p n \<le> rank p m) \<and> intr (service_master_pic s)
       else service_master_pic s = s)) \<and>
    (let p = slave_pic t; p' = slave_pic (service_slave_pic t); n = unat (irq p') in
      INT_pin p' = (\<exists>m\<in>{0..<8}. eligible p m) \<and>
      (if INT_pin p' then n < 8 \<and> eligible p n \<and> (\<forall>m\<in>{0..<8}. eligible p m \<longrightarrow> rank p n \<le> rank p m) \<and>
         bit (IRQ_in (master_pic (service_slave_pic t))) 2
       else service_slave_pic t = t))"
proof -
  have "intr (service_master_pic s)" if "INT_pin (master_pic (service_master_pic s))"
    using that assms by (auto simp: service_master_eq BX_RAISE_INTR_def split: option.splits)
  moreover have "bit (IRQ_in (master_pic (service_slave_pic t))) 2" if "INT_pin (slave_pic (service_slave_pic t))"
    using that assms by (auto simp: service_slave_eq raise_irq_2_def Let_def line_bits service_master_eq BX_RAISE_INTR_def
        and_exp_eq_0_iff_not_bit [of _ 2, simplified] split: option.splits if_splits)
  moreover have "service_master_pic s = s" if "\<not> INT_pin (master_pic (service_master_pic s))"
    using that assms by (auto simp: service_master_eq BX_RAISE_INTR_def split: option.splits)
  moreover have "service_slave_pic t = t" if "\<not> INT_pin (slave_pic (service_slave_pic t))"
    using that assms by (auto simp: service_slave_eq split: option.splits)
  ultimately show ?thesis
    using master.signalled [OF assms(1)] slave.signalled [OF assms(2)] master.not_signalled [of s] slave.not_signalled [of t]
    unfolding Let_def by (intro conjI) (auto simp: atLeast0LessThan lessThan_iff)
qed

lemma service_signals_highest_witness:
  "let s = upd_master (\<lambda>p. p\<lparr>irr := 2, imr := 0\<rparr>) sample_pic
   in INT_pin (master_pic (service_master_pic s)) \<and> unat (irq (master_pic (service_master_pic s))) < 8"
proof -
  let ?s = "upd_master (\<lambda>p. p\<lparr>irr := 2, imr := 0\<rparr>) sample_pic"
  have "\<not> INT_pin (master_pic ?s)" "\<not> INT_pin (slave_pic ?s)"
    by (simp_all add: sample_pic_def pic_init_def)
  note service_signals_highest [OF this, THEN conjunct1, unfolded Let_def]
  moreover have "eligible (master_pic ?s) 1"
    by (simp add: eligible_def sample_pic_def pic_init_def)
  then have "\<exists>m\<in>{0..<8}. eligible (master_pic ?s) m" by force
  ultimately show ?thesis unfolding Let_def by (metis (no_types, lifting))
qed

lemma top_request_unique:
  assumes "n < 8" "\<And>m. m < 8 \<Longrightarrow> eligible p m \<longleftrightarrow> m = n"
  shows "top_request p = Some n"
proof (cases "top_request p")
  case None
  then show ?thesis using assms top_request_NoneD by blast
next
  case (Some k)
  then show ?thesis using assms top_request_SomeD by metis
qed

lemma top_request_none: "(\<And>m. m < 8 \<Longrightarrow> \<not> eligible p m) \<Longrightarrow> top_request p = None"
  using top_request_SomeD by (metis option.exhaust)

text \<open>
  A non-specific end of interrupt (20h written to a command port) ends the service of
  exactly the in-service line of highest priority, leaves the other registers alone and
  then lets the next eligible request through.
\<close>

theorem eoi_ends_highest:
  "(\<exists>p. pic_write 0x20 0x20 1 s = service_master_pic (upd_master (\<lambda>_. p) s) \<and>
     p = (master_pic s)\<lparr>isr := isr p\<rparr> \<and>
     (if isr (master_pic s) = 0 then isr p = 0
      else \<exists>n<8. bit (isr (master_pic s)) n \<and> isr p = isr (master_pic s) AND NOT (shl 1 n) \<and>
        (\<forall>m<8. bit (isr p) m \<longrightarrow> rank (master_pic s) n < rank (master_pic s) m))) \<and>
   (\<exists>p. pic_write 0xA0 0x20 1 s = service_slave_pic (upd_slave (\<lambda>_. p) s) \<and>
     p = (slave_pic s)\<lparr>isr := isr p\<rparr> \<and>
     (if isr (slave_pic s) = 0 then isr p = 0
      else \<exists>n<8. bit (isr (slave_pic s)) n \<and> isr p = isr (slave_pic s) AND NOT (shl 1 n) \<and>
        (\<forall>m<8. bit (isr p) m \<longrightarrow> rank (slave_pic s) n < rank (slave_pic s) m)))"
proof -
  have key: "clear_highest_interrupt p = p\<lparr>isr := isr (clear_highest_interrupt p)\<rparr> \<and>
      (if isr p = 0 then isr (clear_highest_interrupt p) = 0
       else \<exists>n<8. bit (isr p) n \<and> isr (clear_highest_interrupt p) = isr p AND NOT (shl 1 n) \<and>
         (\<forall>m<8. bit (isr (clear_highest_interrupt p)) m \<longrightarrow> rank p n < rank p m))" for p
  proof (cases "find (bit (isr p)) (priority_order p)")
    case None
    have "isr p = 0"
    proof (rule ccontr)
      assume "isr p \<noteq> 0"
      then obtain n where "n < 8" "bit (isr p) n" using word8_nonzero by blast
      then show False using None pos_onto [of n p]
        by (auto simp: find_None_iff priority_order_def)
    qed
    then show ?thesis using None by (simp add: clear_highest_eq)
  next
    case (Some n)
    then obtain d where d: "d < 8" "n = pos (top_irq p) d" "bit (isr p) n"
        and first: "\<forall>e<d. \<not> bit (isr p) (pos (top_irq p) e)"
      by (auto simp: priority_order_def find_Some_iff)
    have "rank p n < rank p m" if "m < 8" "bit (isr p) m" "m \<noteq> n" for m
    proof -
      obtain e where e: "e < 8" "m = pos (top_irq p) e" using pos_onto [OF \<open>m < 8\<close>] by blast
      with first that d have "d < e" by (metis linorder_neqE_nat)
      then show ?thesis using d e by simp
    qed
    moreover have "isr p \<noteq> 0" using d(3) by auto
    moreover have "n < 8" using d by simp
    moreover have c: "clear_highest_interrupt p = p\<lparr>isr := isr p AND NOT (shl 1 n)\<rparr>"
      using Some by (simp add: clear_highest_eq)
    ultimately show ?thesis unfolding c using d(3)
      by (auto simp: bit_and_iff bit_not_iff bit_irq_mask intro!: exI [of _ n])
  qed
  have w: "pic_write 0x20 0x20 1 s = service_master_pic (upd_master (\<lambda>_. clear_highest_interrupt (master_pic s)) s)"
    "pic_write 0xA0 0x20 1 s = service_slave_pic (upd_slave (\<lambda>_. clear_highest_interrupt (slave_pic s)) s)"
    by (simp_all add: pic_write_def write_master_command_def write_slave_command_def master_ocw2_def slave_ocw2_def Let_def)
  show ?thesis
    unfolding w
    by (intro conjI, rule exI [of _ "clear_highest_interrupt (master_pic s)"], intro conjI refl key [THEN conjunct1] key [THEN conjunct2],
        rule exI [of _ "clear_highest_interrupt (slave_pic s)"], intro conjI refl key [THEN conjunct1] key [THEN conjunct2])
qed

lemma eoi_ends_highest_witness:
  "let s = upd_master (\<lambda>p. p\<lparr>isr := 0x28\<rparr>) sample_pic in
   \<exists>n<8. bit (isr (master_pic s)) n \<and> isr (master_pic (pic_write 0x20 0x20 1 s)) = isr (master_pic s) AND NOT (shl 1 n)"
proof -
  let ?s = "upd_master (\<lambda>p. p\<lparr>isr := 0x28\<rparr>) sample_pic"
  obtain p n where p: "pic_write 0x20 0x20 1 ?s = service_master_pic (upd_master (\<lambda>_. p) ?s)"
      "p = (master_pic ?s)\<lparr>isr := isr p\<rparr>"
      "n < 8" "bit (isr (master_pic ?s)) n" "isr p = isr (master_pic ?s) AND NOT (shl 1 n)"
    using eoi_ends_highest [of ?s, THEN conjunct1] by auto
  have "isr (master_pic (service_master_pic t)) = isr (master_pic t)" for t
    by (simp add: service_master_eq BX_RAISE_INTR_def split: option.split)
  then show ?thesis unfolding Let_def using p by (intro exI [of _ n]) simp
qed

section \<open>The boot loader's initialisation\<close>

text \<open>
  The bytes that \<open>configure_pic\<close> of the boot loader's third stage (pic.asm) writes, in order:
  both chips masked, then the four initialisation words of each with vectors from 20h and
  28h, then both unmasked.
\<close>

definition configure_pic :: "(Bit32u \<times> Bit32u) list" where
  "configure_pic =
    [(0x21, 0xFF), (0xA1, 0xFF), (0x20, 0x11), (0xA0, 0x11), (0x21, 0x20), (0xA1, 0x28),
     (0x21, 0x04), (0xA1, 0x02), (0x21, 0x01), (0xA1, 0x01), (0x21, 0x00), (0xA1, 0x00)]"

definition outs :: "(Bit32u \<times> Bit32u) list \<Rightarrow> bx_pic \<Rightarrow> bx_pic" where
  "outs ws s = fold (\<lambda>(a, v). pic_write a v 1) ws s"

definition chip_ready :: "Bit8u \<Rightarrow> bx_pic_t \<Rightarrow> bool" where
  "chip_ready off p \<longleftrightarrow> interrupt_offset p = off \<and> imr p = 0 \<and> isr p = 0 \<and> irr p = 0 \<and>
    auto_eoi p = 0 \<and> lowest_priority p = 7 \<and> \<not> INT_pin p \<and> \<not> in_init p"

definition pic_ready :: "Bit8u \<Rightarrow> Bit8u \<Rightarrow> bx_pic \<Rightarrow> bool" where
  "pic_ready off1 off2 s \<longleftrightarrow> chip_ready off1 (master_pic s) \<and> chip_ready off2 (slave_pic s) \<and>
    \<not> bit (IRQ_in (master_pic s)) 2 \<and> \<not> intr s"

lemma service_no_request:
  "irr (master_pic s) = 0 \<Longrightarrow> service_master_pic s = s" "irr (slave_pic s) = 0 \<Longrightarrow> service_slave_pic s = s"
  by (auto intro!: master.service_quiet slave.service_quiet top_request_none simp: eligible_def)

lemma service_all_masked:
  "imr (master_pic s) = 0xFF \<Longrightarrow> service_master_pic s = s" "imr (slave_pic s) = 0xFF \<Longrightarrow> service_slave_pic s = s"
proof -
  have "bit (0xFF :: Bit8u) n" if "n < 8" for n
  proof -
    have m: "(0xFF :: Bit8u) = mask 8" by (simp add: mask_eq_exp_minus_1)
    show ?thesis unfolding m using that by (simp add: bit_mask_iff del: mask_numeral)
  qed
  then show "imr (master_pic s) = 0xFF \<Longrightarrow> service_master_pic s = s" "imr (slave_pic s) = 0xFF \<Longrightarrow> service_slave_pic s = s"
    by (auto intro!: master.service_quiet slave.service_quiet top_request_none simp: eligible_def simp del: bit_numeral_word_iff)
qed

lemma mask_write:
  assumes "pic_inv s"
  shows "panics (pic_write 0x21 0xFF 1 s) = panics s" "panics (pic_write 0xA1 0xFF 1 s) = panics s"
    "slave_pic (pic_write 0x21 0xFF 1 s) = slave_pic s" "master_pic (pic_write 0xA1 0xFF 1 s) = master_pic s"
    "ioapic_present (pic_write 0x21 0xFF 1 s) = ioapic_present s"
  using assms
  by (auto simp: pic_write_def write_master_data_def write_slave_data_def Let_def service_all_masked
      pic_inv_def chip_ok_def)

text \<open>The ten writes after the masking, from a state with an arbitrary history.\<close>

lemma configure_rest:
  assumes "panics s = ps"
  shows "let s' = outs (drop 2 configure_pic) s in pic_ready 0x20 0x28 s' \<and> panics s' = ps"
  using assms
  by (simp add: configure_pic_def outs_def pic_write_def write_master_command_def write_slave_command_def
      write_master_data_def write_slave_data_def master_icw1_def slave_icw1_def BX_CLEAR_INTR_def
      service_no_request pic_ready_def chip_ready_def bit_and_iff bit_not_4 Let_def)

text \<open>
  C5. The boot loader's initialisation sequence, run in any reachable state, raises no
  panic and leaves both chips initialised: vectors from 20h and 28h, every line unmasked,
  nothing requested or in service, manual end of interrupt, line 0 of highest priority and
  the CPU's interrupt line low.
\<close>

theorem boot_configures_pic:
  assumes "pic_reachable s"
  shows "pic_ready 0x20 0x28 (outs configure_pic s) \<and> panics (outs configure_pic s) = panics s"
proof -
  let ?s1 = "pic_write 0x21 0xFF 1 s"
  let ?s2 = "pic_write 0xA1 0xFF 1 ?s1"
  have i: "pic_inv s" using assms by (rule reachable_inv)
  then have "pic_inv ?s1" by (rule pic_write_inv)
  with i have p: "panics ?s2 = panics s" by (metis mask_write(1,2))
  have "outs configure_pic s = outs (drop 2 configure_pic) ?s2"
    by (simp add: outs_def configure_pic_def)
  then show ?thesis using configure_rest [OF p] by (simp add: Let_def)
qed

lemma boot_configures_pic_witness:
  "pic_ready 0x20 0x28 (outs configure_pic sample_pic)"
  using boot_configures_pic [OF sample_reachable] by simp

section \<open>Delivery of one interrupt\<close>

lemma forward_calls: "\<exists>c. forward_ioapic n l s = s\<lparr>ioapic_calls := c\<rparr>"
proof (cases "ioapic_present s \<and> n \<noteq> 2")
  case True
  then show ?thesis by (auto simp: forward_ioapic_def DEV_ioapic_set_irq_level_def)
next
  case False
  then show ?thesis by (auto simp: forward_ioapic_def intro: exI [of _ "ioapic_calls s"])
qed

lemma eligible_idle:
  "isr p = 0 \<Longrightarrow> imr p = 0 \<Longrightarrow> eligible p m = bit (irr p) m"
  by (simp add: eligible_def)

lemma top_request_single:
  assumes "isr p = 0" "imr p = 0" "irr p = 2 ^ n" "n < 8"
  shows "top_request p = Some n"
  using assms by (intro top_request_unique) (simp_all add: eligible_idle bit_irq_mask)

lemma raise_master:
  assumes s: "chip_ready a (master_pic s)" and n: "n < 8" and low: "\<not> bit (IRQ_in (master_pic s)) n"
  shows "\<exists>c. raise_irq n s = s\<lparr>ioapic_calls := c, intr := True,
    master_pic := (master_pic s)\<lparr>IRQ_in := IRQ_in (master_pic s) OR 2 ^ n, irr := 2 ^ n,
      INT_pin := True, irq := of_nat n\<rparr>\<rparr>"
proof -
  obtain c where c: "forward_ioapic n True s = s\<lparr>ioapic_calls := c\<rparr>" using forward_calls by blast
  have "n AND 7 = n" using n by (intro low_bits_master) simp
  then show ?thesis
    using s n low top_request_single [of "(master_pic s)\<lparr>IRQ_in := IRQ_in (master_pic s) OR 2 ^ n, irr := 2 ^ n\<rparr>" n]
    by (intro exI [of _ c])
       (simp add: raise_irq_def c Let_def chip_ready_def service_master_eq BX_RAISE_INTR_def and_exp_eq_0_iff_not_bit)
qed

lemma raise_slave:
  assumes s: "pic_ready a b s" and n: "8 \<le> n" "n < 16" and low: "\<not> bit (IRQ_in (slave_pic s)) (n - 8)"
  shows "\<exists>c. raise_irq n s = s\<lparr>ioapic_calls := c, intr := True,
    slave_pic := (slave_pic s)\<lparr>IRQ_in := IRQ_in (slave_pic s) OR 2 ^ (n - 8), irr := 2 ^ (n - 8),
      INT_pin := True, irq := of_nat (n - 8)\<rparr>,
    master_pic := (master_pic s)\<lparr>IRQ_in := IRQ_in (master_pic s) OR 4, irr := 4,
      INT_pin := True, irq := 2\<rparr>\<rparr>"
proof -
  obtain c where c: "forward_ioapic n True s = s\<lparr>ioapic_calls := c\<rparr>" using forward_calls by blast
  have "n mod 8 = n - 8" using n by (simp add: mod_if)
  then have m: "n AND 7 = n - 8" by (simp add: low_bits)
  show ?thesis
    using s n low
      top_request_single [of "(slave_pic s)\<lparr>IRQ_in := IRQ_in (slave_pic s) OR 2 ^ (n - 8), irr := 2 ^ (n - 8)\<rparr>" "n - 8"]
      top_request_single [of "(master_pic s)\<lparr>IRQ_in := IRQ_in (master_pic s) OR 4, irr := 4\<rparr>" 2]
    by (intro exI [of _ c])
       (simp add: raise_irq_def c Let_def pic_ready_def chip_ready_def service_slave_eq service_master_eq raise_irq_2_def
         BX_RAISE_INTR_def and_exp_eq_0_iff_not_bit and_exp_eq_0_iff_not_bit [of _ 2, simplified] m)
qed

definition line_high :: "nat \<Rightarrow> bx_pic \<Rightarrow> bool" where
  "line_high n s = (if n < 8 then bit (IRQ_in (master_pic s)) n else bit (IRQ_in (slave_pic s)) (n - 8))"

lemma irq_not_2: "n < 8 \<Longrightarrow> n \<noteq> 2 \<Longrightarrow> (of_nat n :: Bit8u) \<noteq> 2"
proof
  assume n: "n < 8" "n \<noteq> 2" and "(of_nat n :: Bit8u) = 2"
  then have "unat (of_nat n :: Bit8u) = 2" by simp
  then show False using n by (simp add: unat_of_nat)
qed

lemma mask_not_self: "2 ^ n AND NOT (2 ^ n :: Bit8u) = 0"
  by simp

lemma deliver_master:
  assumes s: "chip_ready a (master_pic s)" and e: "edge_level (master_pic s) = 0"
    and n: "n < 8" "n \<noteq> 2" and low: "\<not> bit (IRQ_in (master_pic s)) n"
  shows "\<exists>c. IAC (raise_irq n s) = (a + of_nat n, s\<lparr>ioapic_calls := c, intr := False,
    master_pic := (master_pic s)\<lparr>IRQ_in := IRQ_in (master_pic s) OR 2 ^ n, irr := 0, isr := 2 ^ n,
      irq := of_nat n\<rparr>\<rparr>)"
proof -
  obtain c where c: "raise_irq n s = s\<lparr>ioapic_calls := c, intr := True,
    master_pic := (master_pic s)\<lparr>IRQ_in := IRQ_in (master_pic s) OR 2 ^ n, irr := 2 ^ n,
      INT_pin := True, irq := of_nat n\<rparr>\<rparr>"
    using raise_master [OF s n(1) low] by blast
  have u: "unat (of_nat n :: Bit8u) = n" using n by (simp add: unat_of_nat)
  have z: "(2 ^ n :: Bit8u) \<noteq> 0" using n by (simp add: exp_eq_zero_iff)
  show ?thesis
    using s e irq_not_2 [OF n] z
    by (intro exI [of _ c])
       (simp add: c IAC_eq ack_master_def BX_CLEAR_INTR_def acknowledge_def u chip_ready_def service_no_request add.commute)
qed

lemma deliver_slave:
  assumes s: "pic_ready a b s" and e: "edge_level (master_pic s) = 0" "edge_level (slave_pic s) = 0"
    and n: "8 \<le> n" "n < 16" and low: "\<not> bit (IRQ_in (slave_pic s)) (n - 8)"
  shows "\<exists>c. IAC (raise_irq n s) = (b + of_nat (n - 8), s\<lparr>ioapic_calls := c, intr := False,
    slave_pic := (slave_pic s)\<lparr>IRQ_in := IRQ_in (slave_pic s) OR 2 ^ (n - 8), irr := 0, isr := 2 ^ (n - 8),
      irq := of_nat (n - 8)\<rparr>,
    master_pic := (master_pic s)\<lparr>irr := 0, isr := 4, irq := 2\<rparr>\<rparr>)"
proof -
  obtain c where c: "raise_irq n s = s\<lparr>ioapic_calls := c, intr := True,
    slave_pic := (slave_pic s)\<lparr>IRQ_in := IRQ_in (slave_pic s) OR 2 ^ (n - 8), irr := 2 ^ (n - 8),
      INT_pin := True, irq := of_nat (n - 8)\<rparr>,
    master_pic := (master_pic s)\<lparr>IRQ_in := IRQ_in (master_pic s) OR 4, irr := 4,
      INT_pin := True, irq := 2\<rparr>\<rparr>"
    using raise_slave [OF s n low] by blast
  have u: "unat (of_nat (n - 8) :: Bit8u) = n - 8" using n by (simp add: unat_of_nat del: of_nat_diff)
  have z: "(2 ^ (n - 8) :: Bit8u) \<noteq> 0" using n by (simp add: exp_eq_zero_iff)
  have l: "(IRQ_in (master_pic s) OR 4) AND - 5 = IRQ_in (master_pic s)"
    using s by (intro bit_word_eqI) (auto simp: pic_ready_def bit_or_iff bit_and_iff bit_4 bit_not_4 simp del: bit_numeral_word_iff bit_neg_numeral_word_iff)
  have four: "(4 :: Bit8u) \<noteq> 0" by simp
  show ?thesis
    using s e n
    by (intro exI [of _ c])
       (simp add: z four c Let_def IAC_eq ack_master_def ack_cascade_def BX_CLEAR_INTR_def acknowledge_def u l pic_ready_def chip_ready_def
          service_no_request add.commute [of _ b] del: of_nat_diff)
qed

text \<open>
  C4. Once the controllers are initialised (vectors from \<open>a\<close> and \<open>b\<close>) and edge triggered, a
  device that raises any of its fifteen lines interrupts the CPU: the INTR line goes high
  and the acknowledge cycle returns the line's vector, lowers INTR and leaves the line in
  service, on the slave and the cascade line for lines 8 to 15.
\<close>

theorem irq_delivered:
  assumes "pic_ready a b s" "edge_level (master_pic s) = 0" "edge_level (slave_pic s) = 0"
    and "n < 16" "n \<noteq> 2" "\<not> line_high n s"
  shows "let (v, s') = IAC (raise_irq n s) in
    intr (raise_irq n s) \<and> v = (if n < 8 then a + of_nat n else b + of_nat (n - 8)) \<and> \<not> intr s' \<and>
    isr (master_pic s') = (if n < 8 then 2 ^ n else 2 ^ 2) \<and>
    isr (slave_pic s') = (if n < 8 then 0 else 2 ^ (n - 8)) \<and> line_high n s'"
proof (cases "n < 8")
  case True
  then have low: "\<not> bit (IRQ_in (master_pic s)) n" using assms by (simp add: line_high_def)
  have r: "chip_ready a (master_pic s)" "isr (slave_pic s) = 0" using assms(1) by (simp_all add: pic_ready_def chip_ready_def)
  show ?thesis
    using raise_master [OF r(1) True low] deliver_master [OF r(1) assms(2) True assms(5) low] True r(2)
    by (auto simp: line_high_def bit_or_iff bit_irq_mask)
next
  case False
  then have low: "\<not> bit (IRQ_in (slave_pic s)) (n - 8)" using assms by (simp add: line_high_def)
  show ?thesis
    using raise_slave [OF assms(1) _ assms(4) low] deliver_slave [OF assms(1-3) _ assms(4) low] False assms(4)
    by (auto simp: line_high_def bit_or_iff bit_irq_mask simp del: of_nat_diff)
qed

lemma irq_delivered_witness:
  "fst (IAC (raise_irq 14 (outs configure_pic sample_pic))) = 0x2E"
proof -
  let ?s = "outs configure_pic sample_pic"
  have "pic_ready 0x20 0x28 ?s" "edge_level (master_pic ?s) = 0" "edge_level (slave_pic ?s) = 0"
    "(14 :: nat) < 16" "(14 :: nat) \<noteq> 2" "\<not> line_high 14 ?s"
    by (simp_all add: sample_pic_def pic_init_def configure_pic_def outs_def pic_write_def write_master_command_def
        write_slave_command_def write_master_data_def write_slave_data_def master_icw1_def slave_icw1_def
        BX_CLEAR_INTR_def service_no_request pic_ready_def chip_ready_def line_high_def Let_def)
  from irq_delivered [OF this] show ?thesis by (auto split: prod.splits)
qed

lemma clear_single:
  assumes "n < 8" "isr p = 2 ^ n"
  shows "clear_highest_interrupt p = p\<lparr>isr := 0\<rparr>"
proof (cases "find (bit (isr p)) (priority_order p)")
  case None
  then show ?thesis using assms pos_onto [of n p]
    by (auto simp: find_None_iff priority_order_def bit_irq_mask)
next
  case (Some m)
  then have "bit (2 ^ n :: Bit8u) m" using assms by (auto simp: find_Some_iff)
  then have "m = n" by (simp add: bit_irq_mask)
  then show ?thesis using Some assms by (simp add: clear_highest_eq)
qed

lemma eoi_master: "pic_write 0x20 0x20 l s = service_master_pic (upd_master clear_highest_interrupt s)"
  and eoi_slave: "pic_write 0xA0 0x20 l s = service_slave_pic (upd_slave clear_highest_interrupt s)"
  by (simp_all add: pic_write_def write_master_command_def write_slave_command_def master_ocw2_def slave_ocw2_def Let_def)

definition eoi_for :: "nat \<Rightarrow> (Bit32u \<times> Bit32u) list" where
  "eoi_for n = (if n < 8 then [(0x20, 0x20)] else [(0xA0, 0x20), (0x20, 0x20)])"


lemma ready_sample: "pic_ready 0x20 0x28 (outs configure_pic sample_pic)" "edge_level (master_pic (outs configure_pic sample_pic)) = 0"
    "edge_level (slave_pic (outs configure_pic sample_pic)) = 0" "n < 16 \<Longrightarrow> \<not> line_high n (outs configure_pic sample_pic)"
  by (simp_all add: sample_pic_def pic_init_def configure_pic_def outs_def pic_write_def write_master_command_def
        write_slave_command_def write_master_data_def write_slave_data_def master_icw1_def slave_icw1_def
        BX_CLEAR_INTR_def service_no_request pic_ready_def chip_ready_def line_high_def Let_def)


section \<open>Error behaviour of the ports\<close>

text \<open>The panics a write may report, newest first.\<close>

definition ocw2_accepted :: "Bit32u \<Rightarrow> bool" where
  "ocw2_accepted v \<longleftrightarrow> v = 0x00 \<or> v = 0x80 \<or> v = 0xA0 \<or> v = 0x20 \<or> v = 0x40 \<or> v = 0x02 \<or>
     (\<exists>c\<in>{0x60, 0xC0, 0xE0}. \<exists>l\<in>{0, 1, 2, 3, 4, 5, 6, 7}. v = c + l)"

definition command_panics :: "Bit32u \<Rightarrow> pic_panic list" where
  "command_panics v =
    (if bit v 4 then (if bit v 3 then [Icw1_level_mode] else []) @ (if bit v 1 then [Icw1_single_mode] else [])
     else if bit v 3 \<or> ocw2_accepted v then [] else [Bad_ocw2 v])"

definition data_panics :: "Bit32u \<Rightarrow> bx_pic_t \<Rightarrow> pic_panic list" where
  "data_panics v p = (if in_init p \<and> byte_expected p = 4 \<and> \<not> bit v 0 then [Not_80x86_mode] else [])"

lemma service_panics [simp]: "panics (service_master_pic s) = panics s" "panics (service_slave_pic s) = panics s"
  by (simp_all add: service_master_eq service_slave_eq raise_irq_2_def BX_RAISE_INTR_def Let_def split: option.split)

lemma flag_masks: "(v AND 0x10 = 0) = (\<not> bit v 4)" "(v AND 0x08 = 0) = (\<not> bit v 3)" "(v AND 0x02 = 0) = (\<not> bit v 1)"
  "(v AND 0x01 = 0) = (\<not> bit v 0)" for v :: Bit32u
  using and_exp_eq_0_iff_not_bit [of v 4] and_exp_eq_0_iff_not_bit [of v 3] and_exp_eq_0_iff_not_bit [of v 1]
    and_exp_eq_0_iff_not_bit [of v 0] by simp_all

lemma ocw3_mask: "\<not> bit v 4 \<Longrightarrow> (v AND 0x18 = 0x08) = bit v 3" for v :: Bit32u
proof -
  assume a: "\<not> bit v 4"
  have m: "(0x18 :: Bit32u) = 2 ^ 4 OR 2 ^ 3" and e: "(0x08 :: Bit32u) = 2 ^ 3" by simp_all
  have b: "bit (0x18 :: Bit32u) n \<longleftrightarrow> n = 3 \<or> n = 4" "bit (0x08 :: Bit32u) n \<longleftrightarrow> n = 3" for n
    unfolding m e bit_or_iff bit_exp_iff by auto
  have "v AND 0x18 = (if bit v 3 then 0x08 else 0)"
    using a by (intro bit_word_eqI) (auto simp: bit_and_iff b simp del: bit_numeral_word_iff)
  then show ?thesis by simp
qed

lemma up_to_7: "l \<le> 7 \<longleftrightarrow> l \<in> {0, 1, 2, 3, 4, 5, 6, 7}" for l :: Bit32u
proof
  assume "l \<le> 7"
  then have "unat l \<in> {0, 1, 2, 3, 4, 5, 6, 7}" by (auto simp: word_le_nat_alt)
  then have "of_nat (unat l) \<in> (of_nat ` {0, 1, 2, 3, 4, 5, 6, 7} :: Bit32u set)" by (rule imageI)
  then show "l \<in> {0, 1, 2, 3, 4, 5, 6, 7}" by simp
qed auto

lemma value_range: "c \<le> 0xE0 \<Longrightarrow> (c \<le> v \<and> v \<le> c + 7) = (\<exists>l\<in>{0, 1, 2, 3, 4, 5, 6, 7}. v = c + l)" for c v :: Bit32u
proof -
  assume c: "c \<le> 0xE0"
  then have u: "unat (c + l) = unat c + unat l" if "l \<le> 7" for l
    using that by (simp add: unat_plus_if' word_le_nat_alt)
  have "(c \<le> v \<and> v \<le> c + 7) = (\<exists>l\<le>7. v = c + l)"
  proof
    assume r: "c \<le> v \<and> v \<le> c + 7"
    then have "v - c \<le> 7" using u [of 7] by (simp add: word_le_nat_alt unat_sub) linarith
    moreover have "v = c + (v - c)" by simp
    ultimately show "\<exists>l\<le>7. v = c + l" by blast
  next
    assume "\<exists>l\<le>7. v = c + l"
    then obtain l where "l \<le> 7" "v = c + l" by blast
    then show "c \<le> v \<and> v \<le> c + 7" using u [of l] u [of 7] by (simp add: word_le_nat_alt)
  qed
  then show ?thesis unfolding up_to_7 by blast
qed

lemma ocw2_ranges:
  "ocw2_accepted v \<longleftrightarrow> v = 0x00 \<or> v = 0x80 \<or> v = 0xA0 \<or> v = 0x20 \<or> v = 0x40 \<or> v = 0x02 \<or>
    0x60 \<le> v \<and> v \<le> 0x67 \<or> 0xC0 \<le> v \<and> v \<le> 0xC7 \<or> 0xE0 \<le> v \<and> v \<le> 0xE7"
proof -
  have three: "(\<exists>c\<in>{x, y, z}. P c) = (P x \<or> P y \<or> P z)" for P :: "Bit32u \<Rightarrow> bool" and x y z
    by simp
  have e: "(\<exists>l\<in>{0, 1, 2, 3, 4, 5, 6, 7}. v = 0x60 + l) = (0x60 \<le> v \<and> v \<le> 0x67)"
    "(\<exists>l\<in>{0, 1, 2, 3, 4, 5, 6, 7}. v = 0xC0 + l) = (0xC0 \<le> v \<and> v \<le> 0xC7)"
    "(\<exists>l\<in>{0, 1, 2, 3, 4, 5, 6, 7}. v = 0xE0 + l) = (0xE0 \<le> v \<and> v \<le> 0xE7)"
    using value_range [of "0x60" v] value_range [of "0xC0" v] value_range [of "0xE0" v] by simp_all
  show ?thesis by (simp only: ocw2_accepted_def three e)
qed

lemma ocw2_panics:
  "panics (master_ocw2 v s) = (if ocw2_accepted v then [] else [Bad_ocw2 v]) @ panics s"
  "panics (slave_ocw2 v s) = (if ocw2_accepted v then [] else [Bad_ocw2 v]) @ panics s"
  unfolding master_ocw2_def slave_ocw2_def Let_def ocw2_ranges
  by (simp_all add: BX_PANIC_def)

lemma ocw3_panics: "panics (master_ocw3 v s) = panics s" "panics (slave_ocw3 v s) = panics s"
  by (simp_all add: master_ocw3_def slave_ocw3_def Let_def)

lemma icw1_panics:
  "panics (master_icw1 v s) = (if bit v 3 then [Icw1_level_mode] else []) @ (if bit v 1 then [Icw1_single_mode] else []) @ panics s"
  "panics (slave_icw1 v s) = (if bit v 3 then [Icw1_level_mode] else []) @ (if bit v 1 then [Icw1_single_mode] else []) @ panics s"
  by (simp_all add: master_icw1_def slave_icw1_def BX_PANIC_def BX_CLEAR_INTR_def Let_def flag_masks)

lemma command_write_panics:
  "panics (write_master_command v s) = command_panics v @ panics s"
  "panics (write_slave_command v s) = command_panics v @ panics s"
  by (simp_all add: write_master_command_def write_slave_command_def command_panics_def flag_masks ocw3_mask
      icw1_panics ocw2_panics ocw3_panics)

lemma data_write_panics:
  assumes "pic_inv s"
  shows "panics (write_master_data v s) = data_panics v (master_pic s) @ panics s"
    "panics (write_slave_data v s) = data_panics v (slave_pic s) @ panics s"
  using assms
  by (auto simp: write_master_data_def write_slave_data_def data_panics_def pic_inv_def chip_ok_def BX_PANIC_def Let_def
      flag_masks)

text \<open>
  C7. What a port access can report, in any reachable state: a first initialisation word
  that asks for single or level triggered mode, an operation word outside the accepted set,
  a fourth initialisation word that does not select 80x86 mode, and reads of other
  addresses. Every other access is accepted; the two internal consistency panics cannot occur.
\<close>

theorem port_panics:
  assumes "pic_reachable s"
  shows "(panics (pic_write a v l s) =
      (if a = 0x20 \<or> a = 0xA0 then command_panics v
       else if a = 0x21 then data_panics v (master_pic s)
       else if a = 0xA1 then data_panics v (slave_pic s) else []) @ panics s) \<and>
    (panics (snd (pic_read a l s)) =
      (if a = 0x20 \<or> a = 0x21 \<or> a = 0xA0 \<or> a = 0xA1 then [] else [Bad_read_address a]) @ panics s)"
proof -
  note i = reachable_inv [OF assms]
  show ?thesis
    by (simp add: pic_write_def pic_read_def Let_def command_write_panics data_write_panics [OF i] BX_PANIC_def)
qed

lemma port_panics_witness:
  "panics (pic_write 0x20 0x1B 1 sample_pic) = [Icw1_level_mode, Icw1_single_mode] \<and>
   panics (pic_write 0xA0 0x21 1 sample_pic) = [Bad_ocw2 0x21]"
  using port_panics [OF sample_reachable, of "0x20" "0x1B" 1] port_panics [OF sample_reachable, of "0xA0" "0x21" 1]
  by (simp add: command_panics_def ocw2_accepted_def sample_pic_def pic_init_def)

section \<open>All pending requests are served\<close>

text \<open>One acknowledge cycle followed by the end of interrupt, and a number of them.\<close>

definition serve :: "bx_pic \<Rightarrow> Bit8u \<times> bx_pic" where
  "serve s = (let (v, s) = IAC s in (v, pic_write 0x20 0x20 1 s))"

fun serve_all :: "nat \<Rightarrow> bx_pic \<Rightarrow> Bit8u list \<times> bx_pic" where
  "serve_all 0 s = ([], s)"
| "serve_all (Suc k) s = (let (v, s) = serve s; (vs, s) = serve_all k s in (v # vs, s))"

definition pending_lines :: "bx_pic_t \<Rightarrow> nat list" where
  "pending_lines p = filter (bit (irr p)) (priority_order p)"

definition master_idle :: "bx_pic_t \<Rightarrow> bool" where
  "master_idle p \<longleftrightarrow> isr p = 0 \<and> imr p = 0 \<and> edge_level p = 0 \<and> auto_eoi p = 0 \<and> \<not> INT_pin p \<and>
    \<not> special_mask p \<and> \<not> bit (irr p) 2"

lemma distinct_order: "distinct (priority_order p)"
proof -
  have "inj_on (pos (top_irq p)) (set [0..<8])"
    by (rule inj_on_inverseI [of _ "rank p"]) simp
  then show ?thesis by (simp add: priority_order_def distinct_map)
qed

lemma set_order: "set (priority_order p) = {0..<8}"
  using pos_onto [of _ p] by (fastforce simp: priority_order_def image_iff)

lemma find_filter: "find P xs = (case filter P xs of [] \<Rightarrow> None | x # _ \<Rightarrow> Some x)"
  by (induction xs) auto

lemma pending_head:
  assumes "isr p = 0" "imr p = 0" "pending_lines p = n # ns"
  shows "top_request p = Some n" "n < 8" "bit (irr p) n"
proof -
  have "eligible p = bit (irr p)" using assms by (auto simp: eligible_idle)
  then show "top_request p = Some n" using assms(3) by (simp add: top_request_def find_filter pending_lines_def)
  have "n \<in> set (pending_lines p)" using assms(3) by simp
  then show "n < 8" "bit (irr p) n" by (auto simp: pending_lines_def set_order)
qed

lemma pending_rest:
  assumes "pending_lines p = n # ns" "irr q = irr p AND NOT (2 ^ n)" "lowest_priority q = lowest_priority p"
  shows "pending_lines q = ns"
proof -
  have o: "priority_order q = priority_order p" using assms(3) by (simp add: priority_order_def top_irq_def)
  have d: "distinct (n # ns)" using assms(1) distinct_order [of p] by (metis distinct_filter pending_lines_def)
  have "bit (irr q) m = (bit (irr p) m \<and> m \<noteq> n)" if "m < 8" for m
    using that by (simp add: assms(2) bit_and_iff bit_not_iff bit_irq_mask)
  then have "pending_lines q = filter (\<lambda>m. bit (irr p) m \<and> m \<noteq> n) (priority_order p)"
    unfolding pending_lines_def o by (intro filter_cong) (auto simp: set_order)
  also have "\<dots> = filter (\<lambda>m. m \<noteq> n) (pending_lines p)" by (simp add: pending_lines_def conj_commute)
  also have "\<dots> = ns" using d by (auto simp: assms(1) filter_id_conv)
  finally show ?thesis .
qed

lemma serve_one:
  assumes m: "master_idle (master_pic s)" and p: "pending_lines (master_pic s) = n # ns"
  shows "serve (service_master_pic s) = (interrupt_offset (master_pic s) + of_nat n,
    service_master_pic (s\<lparr>intr := False, master_pic := (master_pic s)\<lparr>irr := irr (master_pic s) AND NOT (2 ^ n), irq := of_nat n\<rparr>\<rparr>))"
proof -
  let ?p = "master_pic s"
  have h: "top_request ?p = Some n" "n < 8" "bit (irr ?p) n"
    using pending_head [OF _ _ p] m by (simp_all add: master_idle_def)
  have n2: "n \<noteq> 2" using h(3) m by (auto simp: master_idle_def)
  have nz: "irr ?p \<noteq> 0" using h(3) by auto
  have u: "unat (of_nat n :: Bit8u) = n" using h(2) by (simp add: unat_of_nat)
  let ?q = "?p\<lparr>irq := of_nat n, INT_pin := False, irr := irr ?p AND NOT (2 ^ n), isr := 2 ^ n\<rparr>"
  have none: "top_request ?q = None"
  proof (rule top_request_none)
    fix k :: nat assume k: "k < 8"
    show "\<not> eligible ?q k"
    proof
      assume "eligible ?q k"
      then have e: "bit (irr ?p) k" "k \<noteq> n" "rank ?q k < rank ?q n"
        using m h(2) k by (auto simp: eligible_def master_idle_def bit_and_iff bit_not_iff bit_irq_mask)
      have "rank ?q i = rank ?p i" for i by (simp add: rank_def top_irq_def)
      then have "rank ?p k < rank ?p n" using e(3) by simp
      moreover have "eligible ?p k" using e(1) m by (simp add: eligible_idle master_idle_def)
      ultimately show False using top_request_SomeD(3) [OF h(1) k] by simp
    qed
  qed
  have quiet: "service_master_pic (t\<lparr>master_pic := ?q\<rparr>) = t\<lparr>master_pic := ?q\<rparr>" for t
    by (rule master.service_quiet) (simp add: none)
  have f: "service_master_pic s = s\<lparr>intr := True, master_pic := ?p\<lparr>INT_pin := True, irq := of_nat n\<rparr>\<rparr>"
    using m h(1) by (simp add: service_master_eq BX_RAISE_INTR_def master_idle_def)
  have "IAC (service_master_pic s) = (interrupt_offset ?p + of_nat n,
      service_master_pic (s\<lparr>intr := False, master_pic := ?q\<rparr>))"
    using m nz irq_not_2 [OF h(2) n2]
    by (simp add: f IAC_eq ack_master_def BX_CLEAR_INTR_def acknowledge_def u master_idle_def Let_def add.commute [of "of_nat n"])
  then have "IAC (service_master_pic s) = (interrupt_offset ?p + of_nat n, s\<lparr>intr := False, master_pic := ?q\<rparr>)"
    unfolding quiet [of "s\<lparr>intr := False\<rparr>", simplified] .
  moreover have "?q\<lparr>isr := 0\<rparr> = ?p\<lparr>irr := irr ?p AND NOT (2 ^ n), irq := of_nat n\<rparr>"
    using m by (cases "master_pic s") (simp add: master_idle_def)
  then have "service_master_pic (t\<lparr>master_pic := ?q\<lparr>isr := 0\<rparr>\<rparr>) =
      service_master_pic (t\<lparr>master_pic := ?p\<lparr>irr := irr ?p AND NOT (2 ^ n), irq := of_nat n\<rparr>\<rparr>)" for t by simp
  ultimately show ?thesis
    using h(2) by (simp add: serve_def eoi_master clear_single [of n])
qed

lemma serve_pending:
  "\<lbrakk>master_idle (master_pic s); pending_lines (master_pic s) = ns\<rbrakk> \<Longrightarrow>
    fst (serve_all (length ns) (service_master_pic s)) = map (\<lambda>n. interrupt_offset (master_pic s) + of_nat n) ns \<and>
    irr (master_pic (snd (serve_all (length ns) (service_master_pic s)))) = 0 \<and>
    \<not> INT_pin (master_pic (snd (serve_all (length ns) (service_master_pic s)))) \<and>
    isr (master_pic (snd (serve_all (length ns) (service_master_pic s)))) = 0"
proof (induction ns arbitrary: s)
  case Nil
  have "irr (master_pic s) = 0"
  proof (rule ccontr)
    assume "irr (master_pic s) \<noteq> 0"
    then obtain n where "n < 8" "bit (irr (master_pic s)) n" using word8_nonzero by blast
    then have "n \<in> set (pending_lines (master_pic s))" by (simp add: pending_lines_def set_order)
    then show False using Nil.prems(2) by simp
  qed
  then show ?case using Nil.prems(1) by (simp add: service_no_request master_idle_def)
next
  case (Cons n ns)
  let ?p = "master_pic s"
  let ?t = "s\<lparr>intr := False, master_pic := ?p\<lparr>irr := irr ?p AND NOT (2 ^ n), irq := of_nat n\<rparr>\<rparr>"
  have "master_idle (master_pic ?t)"
    using Cons.prems(1) by (simp add: master_idle_def bit_and_iff)
  moreover have "pending_lines (master_pic ?t) = ns"
    by (rule pending_rest [OF Cons.prems(2)]) simp_all
  ultimately have "fst (serve_all (length ns) (service_master_pic ?t)) = map (\<lambda>n. interrupt_offset (master_pic ?t) + of_nat n) ns \<and>
    irr (master_pic (snd (serve_all (length ns) (service_master_pic ?t)))) = 0 \<and>
    \<not> INT_pin (master_pic (snd (serve_all (length ns) (service_master_pic ?t)))) \<and>
    isr (master_pic (snd (serve_all (length ns) (service_master_pic ?t)))) = 0"
    by (rule Cons.IH)
  then show ?case
    using serve_one [OF Cons.prems] by (simp add: case_prod_unfold Let_def)
qed

text \<open>
  C3. No request is lost or starved: from an idle master with any set of requests pending
  (the cascade line apart), as many acknowledge and end-of-interrupt rounds as there are
  requests deliver each of them exactly once, in the order of priority, and leave nothing
  requested, signalled or in service.
\<close>

theorem requests_all_served:
  assumes "master_idle (master_pic s)"
  shows "let ns = pending_lines (master_pic s); (vs, s') = serve_all (length ns) (service_master_pic s) in
    vs = map (\<lambda>n. interrupt_offset (master_pic s) + of_nat n) ns \<and>
    irr (master_pic s') = 0 \<and> isr (master_pic s') = 0 \<and> \<not> INT_pin (master_pic s')"
  using serve_pending [OF assms refl] by (simp add: case_prod_unfold Let_def)

lemma requests_all_served_witness:
  "fst (serve_all 3 (service_master_pic (upd_master (\<lambda>p. p\<lparr>irr := 0x29, imr := 0\<rparr>) sample_pic))) = [0x08, 0x0B, 0x0D]"
proof -
  let ?s = "upd_master (\<lambda>p. p\<lparr>irr := 0x29, imr := 0\<rparr>) sample_pic"
  have i: "master_idle (master_pic ?s)"
    by (simp add: master_idle_def sample_pic_def pic_init_def)
  have p: "pending_lines (master_pic ?s) = [0, 3, 5]"
    by (simp add: pending_lines_def priority_order_def top_irq_def highest_of_def sample_pic_def pic_init_def
        upt_rec pos_def)
  show ?thesis
    using requests_all_served [OF i] unfolding p Let_def
    by (simp add: case_prod_unfold numeral_3_eq_3 sample_pic_def pic_init_def)
qed

text \<open>
  C8. The acknowledge cycle can answer with a request that is gone. A line is raised, lowered
  again before the CPU acknowledges it, and another line is raised: the check for spurious
  interrupts only asks whether no request at all is left, so the vector of the withdrawn
  line is returned and that line is put in service, although it is not requested and the
  other line is.
\<close>

theorem acknowledge_uses_stale_irq:
  assumes "chip_ready a (master_pic s)" "edge_level (master_pic s) = 0"
    and "n < 8" "m < 8" "n \<noteq> m" "n \<noteq> 2" "\<not> bit (IRQ_in (master_pic s)) n" "\<not> bit (IRQ_in (master_pic s)) m"
  shows "let s3 = raise_irq m (lower_irq n (raise_irq n s)); (v, s') = IAC s3 in
    irr (master_pic s3) = 2 ^ m \<and> v = a + of_nat n \<and> isr (master_pic s') = 2 ^ n \<and> bit (irr (master_pic s')) m"
proof -
  obtain c where c: "raise_irq n s = s\<lparr>ioapic_calls := c, intr := True,
    master_pic := (master_pic s)\<lparr>IRQ_in := IRQ_in (master_pic s) OR 2 ^ n, irr := 2 ^ n,
      INT_pin := True, irq := of_nat n\<rparr>\<rparr>"
    using raise_master [OF assms(1,3,7)] by blast
  have l: "n AND 7 = n" "m AND 7 = m" using assms(3,4) by (simp_all add: low_bits_master)
  obtain d where d: "forward_ioapic n False (raise_irq n s) = raise_irq n s\<lparr>ioapic_calls := d\<rparr>" using forward_calls by blast
  have x: "(IRQ_in (master_pic s) OR 2 ^ n) AND NOT (2 ^ n) = IRQ_in (master_pic s)"
    using assms(7) by (intro bit_word_eqI) (auto simp: bit_and_iff bit_or_iff bit_not_iff bit_irq_mask)
  have low: "lower_irq n (raise_irq n s) = s\<lparr>ioapic_calls := d, intr := True,
    master_pic := (master_pic s)\<lparr>irr := 0, INT_pin := True, irq := of_nat n\<rparr>\<rparr>"
    using assms(3) x by (simp add: lower_irq_def d [unfolded c] l c and_exp_eq_0_iff_not_bit bit_or_iff bit_irq_mask Let_def)
  obtain e where e: "forward_ioapic m True (lower_irq n (raise_irq n s)) = lower_irq n (raise_irq n s)\<lparr>ioapic_calls := e\<rparr>"
    using forward_calls by blast
  have s3: "raise_irq m (lower_irq n (raise_irq n s)) = s\<lparr>ioapic_calls := e, intr := True,
    master_pic := (master_pic s)\<lparr>IRQ_in := IRQ_in (master_pic s) OR 2 ^ m, irr := 2 ^ m, INT_pin := True, irq := of_nat n\<rparr>\<rparr>"
    using assms(4,8) by (simp add: raise_irq_def [of m] e [unfolded low] l low and_exp_eq_0_iff_not_bit service_master_eq Let_def)
  have u: "unat (of_nat n :: Bit8u) = n" using assms(3) by (simp add: unat_of_nat)
  have z: "(2 ^ m :: Bit8u) \<noteq> 0" using assms(4) by (simp add: exp_eq_zero_iff)
  have keep: "isr (master_pic (service_master_pic t)) = isr (master_pic t)" "irr (master_pic (service_master_pic t)) = irr (master_pic t)" for t
    by (simp_all add: service_master_eq BX_RAISE_INTR_def split: option.split)
  show ?thesis
    using assms(1,2,4,5) irq_not_2 [OF assms(3,6)] z
    by (simp add: s3 IAC_eq ack_master_def BX_CLEAR_INTR_def acknowledge_def u keep chip_ready_def Let_def
        bit_and_iff bit_not_iff bit_irq_mask add.commute [of a])
qed

lemma acknowledge_uses_stale_irq_witness:
  "let s3 = raise_irq 3 (lower_irq 5 (raise_irq 5 (outs configure_pic sample_pic))) in
    irr (master_pic s3) = 8 \<and> fst (IAC s3) = 0x25"
proof -
  have a: "chip_ready 0x20 (master_pic (outs configure_pic sample_pic))"
    using ready_sample(1) by (simp add: pic_ready_def)
  have b: "\<not> bit (IRQ_in (master_pic (outs configure_pic sample_pic))) 5" "\<not> bit (IRQ_in (master_pic (outs configure_pic sample_pic))) 3"
    using ready_sample(4) [of 5] ready_sample(4) [of 3] by (simp_all add: line_high_def)
  show ?thesis
    using acknowledge_uses_stale_irq [OF a ready_sample(2) _ _ _ _ b]
    by (auto simp: Let_def case_prod_unfold)
qed

end
