(* ===== verification/Pit_Device.thy ===== *)
theory Pit_Device
  imports Pit_Ports Pic_Safety
begin

text \<open>
  The timer device of iodev/pit.cc: it drives the timer chip from the emulator's clock, answers
  the ports 40 to 43 and 61, and turns the output of counter 0 into interrupt line 0. Inputs of
  every operation are the emulated time in microseconds (\<open>bx_virt_timer.time_usec\<close>); the calls of
  the virtual timer and of the speaker are lists of the state, newest last. The
  frequency given to \<open>DEV_speaker_beep_on\<close> is \<open>1193180.0 / value32\<close>; the list holds \<open>value32\<close>.
  The chip calls its OUT handlers while it runs; the handlers touch the interrupt controller
  and the speaker only, so \<open>drain\<close> makes their calls right after the chip's operation.
\<close>

section \<open>State\<close>

datatype speaker_call = Beep_on Bit32u | Beep_off | Set_line bool
datatype virt_call = Deactivate_timer | Activate_timer Bit32u
datatype pit_panic = Unsupported_read Bit32u | Unsupported_write Bit32u Bit8u

record bx_pit =
  pit_timer :: pit_82C54
  speaker_data_on :: bool
  speaker_active :: bool
  speaker_level :: bool
  last_usec :: Bit64u
  last_next_event_time :: Bit32u
  total_ticks :: Bit64u
  total_usec :: Bit64u
  irq_enabled :: bool
  pit_pic :: bx_pic
  speaker_calls :: "speaker_call list"
  virt_calls :: "virt_call list"
  pit_panics :: "pit_panic list"

definition USEC_PER_SECOND :: "'a::len word" where "USEC_PER_SECOND = 1000000"
definition TICKS_PER_SECOND :: "'a::len word" where "TICKS_PER_SECOND = 1193181"

text \<open>
  The macros work in the type of their argument: 32 bits where \<open>TICKS_TO_USEC\<close> is used, 64 bits
  where \<open>USEC_TO_TICKS\<close> is.
\<close>

definition TICKS_TO_USEC :: "Bit32u \<Rightarrow> Bit32u" where
  "TICKS_TO_USEC a = (a * USEC_PER_SECOND) div TICKS_PER_SECOND"

definition USEC_TO_TICKS :: "Bit64u \<Rightarrow> Bit64u" where
  "USEC_TO_TICKS a = (a * TICKS_PER_SECOND) div USEC_PER_SECOND"

section \<open>OUT handlers\<close>

definition irq_handler :: "bool \<Rightarrow> bx_pit \<Rightarrow> bx_pit" where
  "irq_handler value s =
    (if irq_enabled s then
       (if value then s\<lparr>pit_pic := raise_irq 0 (pit_pic s)\<rparr> else s\<lparr>pit_pic := lower_irq 0 (pit_pic s)\<rparr>)
     else s)"

definition speaker_handler :: "bool \<Rightarrow> bx_pit \<Rightarrow> bx_pit" where
  "speaker_handler value s =
    (if get_mode 2 (pit_timer s) \<noteq> 3
     then s\<lparr>speaker_calls := speaker_calls s @ [Set_line (value \<and> speaker_data_on s)]\<rparr> else s)"

definition drain :: "bx_pit \<Rightarrow> bx_pit" where
  "drain s =
    (let s = fold irq_handler (out_calls (counter (pit_timer s) 0)) s;
         s = fold speaker_handler (out_calls (counter (pit_timer s) 2)) s
     in s\<lparr>pit_timer := upd_counter 0 (\<lambda>c. c\<lparr>out_calls := []\<rparr>) (upd_counter 2 (\<lambda>c. c\<lparr>out_calls := []\<rparr>) (pit_timer s))\<rparr>)"

text \<open>An operation of the chip together with the handler calls it makes.\<close>

definition on_timer :: "(pit_82C54 \<Rightarrow> pit_82C54) \<Rightarrow> bx_pit \<Rightarrow> bx_pit" where
  "on_timer f s = drain (s\<lparr>pit_timer := f (pit_timer s)\<rparr>)"

definition get_timer :: "nat \<Rightarrow> bx_pit \<Rightarrow> Bit16u" where
  "get_timer n s = get_inlatch n (pit_timer s)"

definition new_timer_count :: "nat \<Rightarrow> bx_pit \<Rightarrow> bool" where
  "new_timer_count n s = new_count_ready n (pit_timer s)"

section \<open>Time\<close>

function second_wrap :: "Bit64u \<Rightarrow> Bit64u \<Rightarrow> Bit64u \<times> Bit64u" where
  "second_wrap ticks usec =
    (if ticks \<ge> TICKS_PER_SECOND \<and> usec \<ge> USEC_PER_SECOND
     then second_wrap (ticks - TICKS_PER_SECOND) (usec - USEC_PER_SECOND)
     else (ticks, usec))"
  by auto

termination second_wrap
  by (relation "measure (\<lambda>(t, _). unat t)")
    (auto simp: TICKS_PER_SECOND_def unat_sub word_le_nat_alt)

declare second_wrap.simps [simp del]

text \<open>The two parts of \<open>periodic\<close>: the ticks that have passed, and the loop that clocks the chip.\<close>

definition account :: "Bit32u \<Rightarrow> bx_pit \<Rightarrow> Bit32u \<times> bx_pit" where
  "account usec_delta s =
    (let s = s\<lparr>total_usec := total_usec s + ucast usec_delta\<rparr>;
         ticks_delta = ucast (USEC_TO_TICKS (total_usec s) - total_ticks s) :: Bit32u;
         s = s\<lparr>total_ticks := total_ticks s + ucast ticks_delta\<rparr>;
         (t, u) = second_wrap (total_ticks s) (total_usec s)
     in (ticks_delta, s\<lparr>total_ticks := t, total_usec := u\<rparr>))"

definition time_delta :: "Bit32u \<Rightarrow> Bit32u \<Rightarrow> Bit32u" where
  "time_delta maxchange ticks_delta =
    (if maxchange = 0 \<or> maxchange > ticks_delta then ticks_delta else maxchange)"

function run_ticks :: "Bit32u \<Rightarrow> bx_pit \<Rightarrow> bx_pit" where
  "run_ticks ticks_delta s =
    (if ticks_delta > 0 then
       (let timedelta = time_delta (get_next_event_time (pit_timer s)) ticks_delta
        in run_ticks (ticks_delta - timedelta) (on_timer (clock_all timedelta) s))
     else s)"
  by auto

lemma time_delta_bounds: "n > 0 \<Longrightarrow> 0 < time_delta m n \<and> time_delta m n \<le> n"
  by (auto simp: time_delta_def word_gt_0)

termination run_ticks
proof (relation "measure (\<lambda>(n, _). unat n)")
  fix n x :: Bit32u and s :: bx_pit
  assume n: "n > 0" and x: "x = time_delta (get_next_event_time (pit_timer s)) n"
  then have "0 < unat x" "unat x \<le> unat n"
    using time_delta_bounds [OF n, of "get_next_event_time (pit_timer s)"] unat_gt_0 [of x]
    by (auto simp: word_le_nat_alt simp del: unat_gt_0)
  then show "((n - x, on_timer (clock_all x) s), n, s) \<in> measure (\<lambda>(n, _). unat n)"
    by (simp add: unat_sub word_le_nat_alt)
qed simp

declare run_ticks.simps [simp del]

definition periodic :: "Bit32u \<Rightarrow> bx_pit \<Rightarrow> bx_pit" where
  "periodic usec_delta s = (let (ticks_delta, s) = account usec_delta s in run_ticks ticks_delta s)"

text \<open>The end of \<open>handle_timer\<close> and \<open>write\<close>: the virtual timer is set to the next event.\<close>

definition rearm :: "bool \<Rightarrow> bx_pit \<Rightarrow> bx_pit" where
  "rearm time_passed s =
    (let next = get_next_event_time (pit_timer s)
     in if time_passed \<or> last_next_event_time s \<noteq> next then
          (let s = s\<lparr>virt_calls := virt_calls s @ [Deactivate_timer]\<rparr>;
               s = (if next \<noteq> 0 then s\<lparr>virt_calls := virt_calls s @ [Activate_timer (max 1 (TICKS_TO_USEC next))]\<rparr>
                    else s)
           in s\<lparr>last_next_event_time := next\<rparr>)
        else s)"

definition pass_time :: "Bit64u \<Rightarrow> bx_pit \<Rightarrow> bx_pit" where
  "pass_time time_passed s =
    (let s = (if (ucast time_passed :: Bit32u) \<noteq> 0 then periodic (ucast time_passed) s else s)
     in s\<lparr>last_usec := last_usec s + time_passed\<rparr>)"

definition handle_timer :: "Bit64u \<Rightarrow> bx_pit \<Rightarrow> bx_pit" where
  "handle_timer now s =
    (let time_passed = now - last_usec s in rearm (time_passed \<noteq> 0) (pass_time time_passed s))"

section \<open>Initialisation and ports\<close>

definition init_pit :: "Bit64u \<Rightarrow> bx_pit \<Rightarrow> bx_pit" where
  "init_pit now s =
    (let s = s\<lparr>irq_enabled := True, speaker_data_on := False, speaker_active := False, speaker_level := False,
               pit_timer := set_OUT_handler 2 True (set_OUT_handler 0 True (pit_init (pit_timer s)))\<rparr>;
         s = s\<lparr>virt_calls := virt_calls s @ [Deactivate_timer]\<rparr>;
         next = get_next_event_time (pit_timer s);
         s = (if next \<noteq> 0 then s\<lparr>virt_calls := virt_calls s @ [Activate_timer (max 1 (TICKS_TO_USEC next))]\<rparr> else s)
     in s\<lparr>last_next_event_time := next, last_usec := now, total_ticks := 0, total_usec := 0\<rparr>)"

definition enable_irq :: "bool \<Rightarrow> bx_pit \<Rightarrow> bx_pit" where
  "enable_irq enabled s = s\<lparr>irq_enabled := enabled\<rparr>"

definition timer_read :: "Bit8u \<Rightarrow> bx_pit \<Rightarrow> Bit8u \<times> bx_pit" where
  "timer_read a s = (let (v, t) = pit_read a (pit_timer s) in (v, s\<lparr>pit_timer := t\<rparr>))"

definition pit_port_read :: "Bit32u \<Rightarrow> Bit64u \<Rightarrow> bx_pit \<Rightarrow> Bit8u \<times> bx_pit" where
  "pit_port_read address now s =
    (let s = handle_timer now s
     in if address = 0x40 then timer_read 0 s
        else if address = 0x41 then timer_read 1 s
        else if address = 0x42 then timer_read 2 s
        else if address = 0x43 then timer_read 3 s
        else if address = 0x61 then
          (let refresh_clock_div2 = (now div 15) AND 1
           in (shl (of_bool (read_OUT 2 (pit_timer s))) 5 OR shl (ucast refresh_clock_div2) 4 OR
               shl (of_bool (speaker_data_on s)) 1 OR (if read_GATE 2 (pit_timer s) then 1 else 0), s))
        else (0, s\<lparr>pit_panics := pit_panics s @ [Unsupported_read address]\<rparr>))"

definition beep_on :: "bx_pit \<Rightarrow> bx_pit" where
  "beep_on s =
    (let value32 = ucast (get_timer 2 s) :: Bit32u;
         value32 = (if value32 = 0 then 0x10000 else value32)
     in s\<lparr>speaker_calls := speaker_calls s @ [Beep_on value32]\<rparr>)"

definition write_port61 :: "Bit8u \<Rightarrow> bx_pit \<Rightarrow> bx_pit" where
  "write_port61 v s =
    (let s = on_timer (set_GATE 2 (v AND 0x01 \<noteq> 0)) s;
         s = s\<lparr>speaker_data_on := (shr v 1 AND 0x01 \<noteq> 0)\<rparr>;
         new_speaker_active = (v AND 3 = 3)
     in if get_mode 2 (pit_timer s) = 3 then
          (if speaker_active s \<noteq> new_speaker_active then
             (let s = (if new_speaker_active then beep_on s
                       else s\<lparr>speaker_calls := speaker_calls s @ [Beep_off]\<rparr>)
              in s\<lparr>speaker_active := new_speaker_active\<rparr>)
           else s)
        else
          (let new_speaker_level = (speaker_data_on s \<and> read_OUT 2 (pit_timer s))
           in if speaker_level s \<noteq> new_speaker_level
              then s\<lparr>speaker_calls := speaker_calls s @ [Set_line new_speaker_level], speaker_level := new_speaker_level\<rparr>
              else s))"

definition pit_port_write :: "Bit32u \<Rightarrow> Bit32u \<Rightarrow> Bit64u \<Rightarrow> bx_pit \<Rightarrow> bx_pit" where
  "pit_port_write address dvalue now s =
    (let time_passed = now - last_usec s;
         s = pass_time time_passed s;
         v = ucast dvalue :: Bit8u;
         s = (if address = 0x40 then on_timer (pit_write 0 v) s
              else if address = 0x41 then on_timer (pit_write 1 v) s
              else if address = 0x42 then
                (let s = on_timer (pit_write 2 v) s
                 in if speaker_active s \<and> get_mode 2 (pit_timer s) = 3 \<and> new_timer_count 2 s then beep_on s else s)
              else if address = 0x43 then on_timer (pit_write 3 v) s
              else if address = 0x61 then write_port61 v s
              else s\<lparr>pit_panics := pit_panics s @ [Unsupported_write address v]\<rparr>)
     in rearm (time_passed \<noteq> 0) s)"

definition after_restore_state :: "bx_pit \<Rightarrow> bx_pit" where
  "after_restore_state s =
    (if speaker_active s \<and> get_mode 2 (pit_timer s) = 3 then beep_on s else s)"

end
