(* ===== verification/Timer_Irq.thy ===== *)
theory Timer_Irq
  imports Pit_Device
begin

text \<open>
  The timer device over time: no tick of the 1.193181 MHz clock is lost however the emulated time
  is cut into steps, the event loop clocks the chip by exactly the ticks that passed, and
  interrupt line 0 follows the output of counter 0.
\<close>

section \<open>No tick is lost\<close>

definition ticks_in :: "nat \<Rightarrow> nat" where
  "ticks_in usec = usec * 1193181 div 1000000"

definition totals_ok :: "bx_pit \<Rightarrow> bool" where
  "totals_ok s \<longleftrightarrow> unat (total_usec s) < 1000000 \<and> unat (total_ticks s) = ticks_in (unat (total_usec s))"

lemma ticks_in_second: "1000000 \<le> u \<Longrightarrow> ticks_in u = ticks_in (u - 1000000) + 1193181"
proof -
  assume "1000000 \<le> u"
  then obtain v where v: "u = v + 1000000" by (metis le_add_diff_inverse2)
  show ?thesis unfolding ticks_in_def v by (simp add: add_mult_distrib)
qed

lemma unat_TICKS: "unat (TICKS_PER_SECOND :: Bit64u) = 1193181" "unat (USEC_PER_SECOND :: Bit64u) = 1000000"
  by (simp_all add: TICKS_PER_SECOND_def USEC_PER_SECOND_def)

lemma unat_USEC_TO_TICKS: "unat a < 2 ^ 43 \<Longrightarrow> unat (USEC_TO_TICKS a) = ticks_in (unat a)"
proof -
  assume a: "unat a < 2 ^ 43"
  then have "unat a * 1193181 < 2 ^ 64" by simp
  then have "unat (a * TICKS_PER_SECOND) = unat a * 1193181"
    by (simp add: unat_word_ariths unat_TICKS)
  then show ?thesis by (simp add: USEC_TO_TICKS_def unat_div unat_TICKS ticks_in_def)
qed

lemma second_wrap_ok:
  "unat ticks = ticks_in (unat usec) \<Longrightarrow> second_wrap ticks usec = (t, u) \<Longrightarrow>
   unat u < 1000000 \<and> unat t = ticks_in (unat u) \<and>
   (\<exists>q. unat usec = unat u + 1000000 * q \<and> unat ticks = unat t + 1193181 * q)"
proof (induction ticks usec rule: second_wrap.induct)
  case (1 ticks usec)
  show ?case
  proof (cases "1000000 \<le> unat usec")
    case True
    have s: "unat ticks = ticks_in (unat usec - 1000000) + 1193181"
      using ticks_in_second [OF True] "1.prems"(1) by simp
    then have c: "ticks \<ge> TICKS_PER_SECOND \<and> usec \<ge> USEC_PER_SECOND"
      using True by (simp add: word_le_nat_alt unat_TICKS)
    have u: "unat (ticks - TICKS_PER_SECOND) = unat ticks - 1193181" "unat (usec - USEC_PER_SECOND) = unat usec - 1000000"
      using c by (simp_all add: unat_sub unat_TICKS)
    have "second_wrap (ticks - TICKS_PER_SECOND) (usec - USEC_PER_SECOND) = (t, u)"
      using "1.prems"(2) c by (subst (asm) second_wrap.simps) simp
    from "1.IH" [OF c _ this] obtain q where
      "unat u < 1000000" "unat t = ticks_in (unat u)" "unat usec - 1000000 = unat u + 1000000 * q"
      "unat ticks - 1193181 = unat t + 1193181 * q"
      using s by (auto simp: u)
    moreover from this have "unat usec = unat u + 1000000 * Suc q" "unat ticks = unat t + 1193181 * Suc q"
      using True s by simp_all
    ultimately show ?thesis by blast
  next
    case False
    then have "\<not> (ticks \<ge> TICKS_PER_SECOND \<and> usec \<ge> USEC_PER_SECOND)"
      by (simp add: word_le_nat_alt unat_TICKS)
    then have "t = ticks" "u = usec" using "1.prems"(2) by (auto simp: second_wrap.simps [of ticks usec] split: if_splits)
    then show ?thesis using False "1.prems"(1) by auto
  qed
qed

text \<open>One call of \<open>periodic\<close>: the ticks it clocks and the totals it leaves.\<close>

lemma account_ok:
  assumes s: "totals_ok s" and d: "unat d \<le> 3599000000" and a: "account d s = (n, s')"
  shows "unat n + ticks_in (unat (total_usec s)) = ticks_in (unat (total_usec s) + unat d)"
    and "totals_ok s'"
    and "\<exists>q. unat (total_usec s) + unat d = unat (total_usec s') + 1000000 * q"
proof -
  let ?u = "total_usec s + ucast d"
  have su: "unat (total_usec s) < 1000000" "unat (total_ticks s) = ticks_in (unat (total_usec s))"
    using s by (simp_all add: totals_ok_def)
  have "unat (ucast d :: Bit64u) = unat d"
    using unsigned_less [of d, where 'a = nat] by (simp add: unsigned_ucast_eq take_bit_nat_eq_self)
  then have u: "unat ?u = unat (total_usec s) + unat d" using su d by (simp add: unat_word_ariths)
  then have t: "unat (USEC_TO_TICKS ?u) = ticks_in (unat (total_usec s) + unat d)"
    using su d by (subst unat_USEC_TO_TICKS) simp_all
  have le: "ticks_in (unat (total_usec s)) \<le> ticks_in (unat (total_usec s) + unat d)"
    unfolding ticks_in_def by (intro div_le_mono mult_le_mono1) simp
  have "ticks_in (unat (total_usec s) + unat d) \<le> ticks_in (unat (total_usec s)) + (unat d * 1193181 div 1000000 + 1)"
    unfolding ticks_in_def add_mult_distrib by linarith
  moreover have "unat d * 1193181 div 1000000 + 1 < 2 ^ 32" using d by simp
  ultimately have lt: "ticks_in (unat (total_usec s) + unat d) - ticks_in (unat (total_usec s)) < 2 ^ 32" by linarith
  have "unat (USEC_TO_TICKS ?u - total_ticks s) = ticks_in (unat (total_usec s) + unat d) - ticks_in (unat (total_usec s))"
    using le by (subst unat_sub) (simp_all add: word_le_nat_alt t su)
  moreover have n: "n = ucast (USEC_TO_TICKS ?u - total_ticks s)"
    using a by (auto simp: account_def Let_def split: prod.splits)
  ultimately have un: "unat n = ticks_in (unat (total_usec s) + unat d) - ticks_in (unat (total_usec s))"
    using lt by (simp add: unsigned_ucast_eq take_bit_nat_eq_self)
  then show "unat n + ticks_in (unat (total_usec s)) = ticks_in (unat (total_usec s) + unat d)" using le by simp
  have "unat (ucast n :: Bit64u) = unat n"
    using unsigned_less [of n, where 'a = nat] by (simp add: unsigned_ucast_eq take_bit_nat_eq_self)
  moreover have "ticks_in (unat (total_usec s) + unat d) < 2 ^ 64" using su d unfolding ticks_in_def by simp
  ultimately have tt: "unat (total_ticks s + ucast n) = ticks_in (unat ?u)"
    unfolding u using un le su by (simp add: unat_word_ariths)
  obtain t' u' where w: "second_wrap (total_ticks s + ucast n) ?u = (t', u')" by (metis prod.exhaust)
  note k = second_wrap_ok [OF tt w]
  have "total_ticks s' = t'" "total_usec s' = u'" using a w n by (auto simp: account_def Let_def)
  then show "totals_ok s'" "\<exists>q. unat (total_usec s) + unat d = unat (total_usec s') + 1000000 * q"
    using k by (auto simp: totals_ok_def u)
qed

lemma drain_totals:
  "total_usec (drain s) = total_usec s \<and> total_ticks (drain s) = total_ticks s"
proof -
  have i: "total_usec (fold irq_handler vs t) = total_usec t \<and> total_ticks (fold irq_handler vs t) = total_ticks t" for vs t
    by (induction vs arbitrary: t) (simp_all add: irq_handler_def)
  have k: "total_usec (fold speaker_handler vs t) = total_usec t \<and> total_ticks (fold speaker_handler vs t) = total_ticks t" for vs t
    by (induction vs arbitrary: t) (simp_all add: speaker_handler_def)
  show ?thesis by (simp add: drain_def Let_def i k)
qed

lemma run_ticks_totals: "total_usec (run_ticks n s) = total_usec s \<and> total_ticks (run_ticks n s) = total_ticks s"
proof (induction n s rule: run_ticks.induct)
  case (1 n s)
  then show ?case by (subst (1 2) run_ticks.simps) (auto simp: Let_def on_timer_def drain_totals)
qed

text \<open>The ticks clocked by a sequence of calls of \<open>periodic\<close>.\<close>

fun ticks_clocked :: "Bit32u list \<Rightarrow> bx_pit \<Rightarrow> nat" where
  "ticks_clocked [] s = 0"
| "ticks_clocked (d # ds) s = unat (fst (account d s)) + ticks_clocked ds (periodic d s)"

lemma ticks_in_add: "ticks_in (a + 1000000 * q) = ticks_in a + 1193181 * q"
  by (induction q) (use ticks_in_second [of "a + 1000000 * Suc q" for q] in \<open>simp_all add: algebra_simps\<close>)

lemma ticks_clocked_eq:
  "totals_ok s \<Longrightarrow> (\<forall>d\<in>set ds. unat d \<le> 3599000000) \<Longrightarrow>
   ticks_clocked ds s + ticks_in (unat (total_usec s)) = ticks_in (unat (total_usec s) + sum_list (map unat ds))"
proof (induction ds arbitrary: s)
  case (Cons d ds)
  obtain n s' where a: "account d s = (n, s')" by (metis prod.exhaust)
  have b: "unat d \<le> 3599000000" using Cons.prems(2) by simp
  note k = account_ok [OF Cons.prems(1) b a]
  have p: "total_usec (periodic d s) = total_usec s'" "total_ticks (periodic d s) = total_ticks s'"
    by (simp_all add: periodic_def a run_ticks_totals)
  then have "totals_ok (periodic d s)" using k(2) by (simp add: totals_ok_def)
  from Cons.IH [OF this] have ih: "ticks_clocked ds (periodic d s) + ticks_in (unat (total_usec s')) =
      ticks_in (unat (total_usec s') + sum_list (map unat ds))" using Cons.prems(2) by (simp add: p)
  obtain q where q: "unat (total_usec s) + unat d = unat (total_usec s') + 1000000 * q" using k(3) by blast
  have "unat (total_usec s) + sum_list (map unat (d # ds)) = unat (total_usec s') + sum_list (map unat ds) + 1000000 * q"
    using q by simp
  then have "ticks_in (unat (total_usec s) + sum_list (map unat (d # ds))) =
      ticks_in (unat (total_usec s') + sum_list (map unat ds)) + 1193181 * q"
    by (simp only: ticks_in_add)
  moreover have "unat n + ticks_in (unat (total_usec s)) = ticks_in (unat (total_usec s')) + 1193181 * q"
    using k(1) by (simp only: q ticks_in_add)
  ultimately show ?case using ih by (simp add: a)
qed simp

section \<open>The event loop\<close>

definition erase :: "counter_type \<Rightarrow> counter_type" where
  "erase c = c\<lparr>out_calls := []\<rparr>"

lemma erase_upd [simp]:
  "erase (c\<lparr>next_change_time := n\<rparr>) = (erase c)\<lparr>next_change_time := n\<rparr>" "erase (c\<lparr>null_count := x\<rparr>) = (erase c)\<lparr>null_count := x\<rparr>"
  "erase (c\<lparr>triggerGATE := x\<rparr>) = (erase c)\<lparr>triggerGATE := x\<rparr>" "erase (c\<lparr>first_pass := x\<rparr>) = (erase c)\<lparr>first_pass := x\<rparr>"
  "erase (c\<lparr>state_bit_1 := x\<rparr>) = (erase c)\<lparr>state_bit_1 := x\<rparr>" "erase (c\<lparr>state_bit_2 := x\<rparr>) = (erase c)\<lparr>state_bit_2 := x\<rparr>"
  "erase (set_OUT d c) = (erase c)\<lparr>OUTpin := d\<rparr>" "erase (set_count e c) = set_count e (erase c)"
  "erase (decrement c) = decrement (erase c)" "erase (erase c) = erase c"
  by (simp_all add: erase_def set_OUT_def Let_def set_count_eq decrement_def set_count_to_binary_def)

lemma erase_sel [simp]:
  "count (erase c) = count c" "count_binary (erase c) = count_binary c" "bcd_mode (erase c) = bcd_mode c"
  "mode (erase c) = mode c" "GATE (erase c) = GATE c" "OUTpin (erase c) = OUTpin c" "count_written (erase c) = count_written c"
  "null_count (erase c) = null_count c" "write_state (erase c) = write_state c" "triggerGATE (erase c) = triggerGATE c"
  "first_pass (erase c) = first_pass c" "state_bit_1 (erase c) = state_bit_1 c" "state_bit_2 (erase c) = state_bit_2 c"
  "inlatch (erase c) = inlatch c" "next_change_time (erase c) = next_change_time c"
  by (simp_all add: erase_def)

lemma decrement_count:
  "count (decrement c) = (if count c = 0 then (if bcd_mode c then 0x9999 else 0xFFFF) else encode (bcd_mode c) (count_binary c - 1))"
  "count_binary (decrement c) = (if count c = 0 then (if bcd_mode c then 9999 else 0xFFFF) else count_binary c - 1)"
  by (simp_all add: decrement_def set_count_to_binary_eq with_count_def)

lemma set_count_count:
  "count (set_count d c) = d AND 0xFFFF" "count_binary (set_count d c) = load_value (bcd_mode c) (d AND 0xFFFF)"
  "bcd_mode (set_count d c) = bcd_mode c" "bcd_mode (decrement c) = bcd_mode c"
  by (simp_all add: set_count_eq decrement_def set_count_to_binary_def)

lemma erase_clock: "erase (clock_counter (erase c)) = erase (clock_counter c)"
proof -
  have m: "erase (clock_mode0 (erase c)) = erase (clock_mode0 c)" "erase (clock_mode1 (erase c)) = erase (clock_mode1 c)"
    "erase (clock_mode2 (erase c)) = erase (clock_mode2 c)" "erase (clock_mode3 (erase c)) = erase (clock_mode3 c)"
    by (simp_all add: clock_mode0_def clock_mode1_def clock_mode2_def clock_mode3_def Let_def if_distrib [of erase]
        decrement_count set_count_count next_if if_distrib [of count] if_distrib [of OUTpin] if_distrib [of state_bit_1] cong del: if_weak_cong split del: if_split)
  have m': "erase (clock_mode4 (erase c)) = erase (clock_mode4 c)" "erase (clock_mode5 (erase c)) = erase (clock_mode5 c)"
    by (cases "OUTpin c"; simp add: clock_mode4_def clock_mode5_def clock_strobe_def Let_def if_distrib [of erase]
        decrement_count set_count_count next_if cong del: if_weak_cong split del: if_split)+
  show ?thesis by (simp add: clock_counter_def m m')
qed

lemma erase_cong: "erase a = erase b \<Longrightarrow> erase ((clock_counter ^^ k) a) = erase ((clock_counter ^^ k) b)"
proof (induction k)
  case (Suc k)
  then have "erase (clock_counter (erase ((clock_counter ^^ k) a))) = erase (clock_counter (erase ((clock_counter ^^ k) b)))"
    by simp
  then show ?case by (simp add: erase_clock)
qed simp

lemma in_step_erase: "in_step (erase c) = in_step c"
  by (simp add: in_step_def counting_ok_def load_ok_def load_def phase_ok_def due_def)

lemma in_step_cong: "erase a = erase b \<Longrightarrow> in_step a = in_step b"
  by (metis in_step_erase)

lemma handlers_timer:
  "pit_timer (fold irq_handler vs s) = pit_timer s" "pit_timer (fold speaker_handler vs s) = pit_timer s"
  by (induction vs arbitrary: s) (simp_all add: irq_handler_def speaker_handler_def)

lemma drain_counter: "erase (counter (pit_timer (drain s)) i) = erase (counter (pit_timer s) i)"
  by (simp add: drain_def Let_def handlers_timer erase_def)

lemma clock_all_counter: "i \<le> 2 \<Longrightarrow> counter (clock_all n s) i = clock_multiple_counter n (counter s i)"
proof -
  assume "i \<le> 2"
  then have "i = 0 \<or> i = 1 \<or> i = 2" by auto
  then show ?thesis by (auto simp: clock_all_def clock_multiple_def MAX_COUNTER_def)
qed

definition chip_in_step :: "bx_pit \<Rightarrow> bool" where
  "chip_in_step s \<longleftrightarrow> (\<forall>i\<in>{0, 1, 2}. in_step (counter (pit_timer s) i))"

lemma on_timer_clock_all:
  assumes i: "i \<le> 2" and s: "in_step (counter (pit_timer s) i)" and n: "n < 0x80000000"
  shows "erase (counter (pit_timer (on_timer (clock_all n) s)) i) = erase ((clock_counter ^^ unat n) (counter (pit_timer s) i))"
  using clock_multiple_eq [OF s] n i by (simp add: on_timer_def drain_counter clock_all_counter)

lemma run_ticks_clocks:
  "in_step (counter (pit_timer s) i) \<Longrightarrow> n < 0x80000000 \<Longrightarrow> i \<le> 2 \<Longrightarrow>
   erase (counter (pit_timer (run_ticks n s)) i) = erase ((clock_counter ^^ unat n) (counter (pit_timer s) i))"
proof (induction n s rule: run_ticks.induct)
  case (1 n s)
  show ?case
  proof (cases "n > 0")
    case False
    then have "n = 0" by (simp add: word_gt_0)
    then show ?thesis by (simp add: run_ticks.simps)
  next
    case n: True
    define d where "d = time_delta (get_next_event_time (pit_timer s)) n"
    have b: "0 < d" "d \<le> n" using time_delta_bounds [OF n] by (simp_all add: d_def)
    then have dn: "d < 0x80000000" "n - d < 0x80000000"
      using "1.prems"(2) by (simp_all add: word_less_nat_alt word_le_nat_alt unat_sub)
    define s' where "s' = on_timer (clock_all d) s"
    have e: "erase (counter (pit_timer s') i) = erase ((clock_counter ^^ unat d) (counter (pit_timer s) i))"
      unfolding s'_def by (rule on_timer_clock_all [OF "1.prems"(3,1) dn(1)])
    have "in_step ((clock_counter ^^ unat d) (counter (pit_timer s) i))" by (rule timer.funpow_ok [OF "1.prems"(1)])
    then have "in_step (counter (pit_timer s') i)" using in_step_cong [OF e] by simp
    then have "erase (counter (pit_timer (run_ticks (n - d) s')) i) =
        erase ((clock_counter ^^ unat (n - d)) (counter (pit_timer s') i))"
      using "1.IH" [OF n d_def] "1.prems"(3) dn by (simp add: s'_def)
    also have "\<dots> = erase ((clock_counter ^^ unat (n - d)) ((clock_counter ^^ unat d) (counter (pit_timer s) i)))"
      by (rule erase_cong [OF e])
    also have "\<dots> = erase ((clock_counter ^^ (unat (n - d) + unat d)) (counter (pit_timer s) i))"
      by (simp only: funpow_add comp_apply)
    also have "unat (n - d) + unat d = unat n" using b by (simp add: unat_sub word_le_nat_alt)
    finally show ?thesis using n by (simp add: run_ticks.simps [of n] d_def s'_def Let_def)
  qed
qed

section \<open>Interrupt line 0 follows the output\<close>

text \<open>The calls a chip operation makes are the changes of its output.\<close>

definition logged :: "counter_type \<Rightarrow> counter_type \<Rightarrow> bool" where
  "logged c c' \<longleftrightarrow> (out_handler c \<longrightarrow> out_handler c' \<and>
     (\<exists>l. out_calls c' = out_calls c @ l \<and> OUTpin c' = last (OUTpin c # l)))"

lemma logged_upd [simp]:
  "logged c (c'\<lparr>next_change_time := n\<rparr>) = logged c c'" "logged c (c'\<lparr>null_count := x\<rparr>) = logged c c'"
  "logged c (c'\<lparr>triggerGATE := x\<rparr>) = logged c c'" "logged c (c'\<lparr>first_pass := x\<rparr>) = logged c c'"
  "logged c (c'\<lparr>state_bit_1 := x\<rparr>) = logged c c'" "logged c (c'\<lparr>state_bit_2 := x\<rparr>) = logged c c'"
  "logged c (c'\<lparr>count := b\<rparr>) = logged c c'" "logged c (c'\<lparr>count_binary := b\<rparr>) = logged c c'"
  "logged c (c'\<lparr>inlatch := d\<rparr>) = logged c c'" "logged c (c'\<lparr>outlatch := d\<rparr>) = logged c c'"
  "logged c (c'\<lparr>count_written := x\<rparr>) = logged c c'" "logged c (c'\<lparr>write_state := w\<rparr>) = logged c c'"
  "logged c (c'\<lparr>read_state := w\<rparr>) = logged c c'" "logged c (c'\<lparr>GATE := x\<rparr>) = logged c c'"
  "logged c (c'\<lparr>count_LSB_latched := x\<rparr>) = logged c c'" "logged c (c'\<lparr>count_MSB_latched := x\<rparr>) = logged c c'"
  "logged c (c'\<lparr>status_latched := x\<rparr>) = logged c c'" "logged c (c'\<lparr>status_latch := v\<rparr>) = logged c c'"
  "logged c (c'\<lparr>rw_mode := v\<rparr>) = logged c c'" "logged c (c'\<lparr>mode := v\<rparr>) = logged c c'"
  "logged c (c'\<lparr>bcd_mode := x\<rparr>) = logged c c'"
  by (simp_all add: logged_def)

lemma logged_refl [simp]: "logged c c"
  by (simp add: logged_def)

lemma last_last: "last (x # k @ l) = last (last (x # k) # l)"
  by (cases l) simp_all

lemma logged_trans:
  assumes "logged a b" "logged b c"
  shows "logged a c"
  unfolding logged_def
proof (intro impI conjI)
  assume a: "out_handler a"
  then obtain k where k: "out_handler b" "out_calls b = out_calls a @ k" "OUTpin b = last (OUTpin a # k)"
    using assms(1) unfolding logged_def by blast
  then obtain l where l: "out_handler c" "out_calls c = out_calls b @ l" "OUTpin c = last (OUTpin b # l)"
    using assms(2) unfolding logged_def by blast
  show "out_handler c" by (rule l(1))
  show "\<exists>l. out_calls c = out_calls a @ l \<and> OUTpin c = last (OUTpin a # l)"
    using k l last_last [of "OUTpin a" k l] by (intro exI [of _ "k @ l"]) simp
qed

lemma logged_ops [simp]:
  "logged c (set_count d c') = logged c c'" "logged c (decrement c') = logged c c'"
  "logged c (set_count_to_binary c') = logged c c'"
  by (simp_all add: logged_def set_count_eq decrement_def set_count_to_binary_def)

lemma logged_set_OUT [simp]: "logged c c' \<Longrightarrow> logged c (set_OUT d c')"
proof -
  have "logged x (set_OUT d x)" for x
    by (cases "OUTpin x = d") (simp_all add: logged_def set_OUT_def Let_def)
  then show "logged c c' \<Longrightarrow> logged c (set_OUT d c')" by (rule logged_trans [rotated])
qed

lemma logged_clock: "logged c (clock_counter c)"
  by (simp add: clock_counter_def clock_mode0_def clock_mode1_def clock_mode2_def clock_mode3_def clock_mode4_def
      clock_mode5_def clock_strobe_def Let_def if_distrib [of "logged c"] cong del: if_weak_cong split del: if_split)

lemma logged_clock_after [simp]: "logged c c' \<Longrightarrow> logged c (clock_counter c')"
  by (rule logged_trans [OF _ logged_clock])

lemma logged_decrement_multiple: "logged c (decrement_multiple n c)"
proof (induction n c rule: decrement_multiple.induct)
  case (1 n c)
  show ?case
  proof (cases "n > 0")
    case n: True
    show ?thesis
    proof (cases "n \<le> count_binary c")
      case True
      have "logged c (set_count_to_binary (c\<lparr>count_binary := count_binary c - n\<rparr>))" by simp
      from logged_trans [OF this "1.IH"(1) [OF n True]] show ?thesis
        using n True by (simp add: decrement_multiple.simps [of n])
    next
      case False
      have "logged c (decrement (set_count_to_binary (c\<lparr>count_binary := count_binary c - count_binary c\<rparr>)))" by simp
      from logged_trans [OF this "1.IH"(2) [OF n False]] show ?thesis
        using n False by (simp add: decrement_multiple.simps [of n])
    qed
  qed (simp add: decrement_multiple.simps)
qed

lemma logged_decrement_multiple_after [simp]: "logged c c' \<Longrightarrow> logged c (decrement_multiple n c')"
  by (rule logged_trans [OF _ logged_decrement_multiple])

lemma logged_clock_multiple: "logged c (clock_multiple_counter n c)"
proof (induction "unat n" arbitrary: n c rule: less_induct)
  case less
  have z: "clock_multiple_counter 0 x = x" for x by (simp add: clock_multiple_counter.simps)
  let ?w = "next_change_time c"
  consider "?w = 0 \<or> n = 0" | "n < ?w" "?w \<noteq> 0" | "n \<noteq> 0" "?w \<noteq> 0" "?w \<le> n" by fastforce
  then show ?case
  proof cases
    case 1
    then show ?thesis
      by (subst clock_multiple_counter.simps)
        (auto simp: z Let_def if_distrib [of "logged c"] cong del: if_weak_cong split del: if_split)
  next
    case 2
    then show ?thesis
      by (subst clock_multiple_counter.simps)
        (simp add: z Let_def if_distrib [of "logged c"] cong del: if_weak_cong split del: if_split)
  next
    case 3
    then have "unat (n - ?w) < unat n" by (simp add: unat_sub word_le_nat_alt unat_gt_0)
    then have "logged d (clock_multiple_counter (n - ?w) d)" for d by (rule less)
    then have "logged c d \<Longrightarrow> logged c (clock_multiple_counter (n - ?w) d)" for d by (blast intro: logged_trans)
    then show ?thesis using 3
      by (subst clock_multiple_counter.simps)
        (simp add: z Let_def not_less if_distrib [of "logged c"] cong del: if_weak_cong split del: if_split)
  qed
qed

lemma logged_registers [simp]:
  "logged c (latch_counter c)" "logged c (latch_status c)" "logged c (read_back cw c)"
  "logged c (program_counter RW M BCD c)" "logged c (snd (read_counter c))"
proof -
  have l: "logged c c' \<Longrightarrow> logged c (latch_counter c')" "logged c c' \<Longrightarrow> logged c (latch_status c')" for c'
    by (simp_all add: latch_counter_def latch_status_def split: rw_status.split)
  show "logged c (latch_counter c)" "logged c (latch_status c)" using l [of c] by simp_all
  show "logged c (read_back cw c)" by (simp add: read_back_def Let_def l)
  show "logged c (program_counter RW M BCD c)"
    by (simp add: program_counter_def Let_def if_distrib [of "logged c"] cong del: if_weak_cong split del: if_split)
  show "logged c (snd (read_counter c))" by (simp add: read_counter_def Let_def)
qed

lemma logged_write_count [simp]: "logged c (write_count d c)"
  by (cases "write_state c") (simp_all add: write_count_def Let_def if_distrib [of "logged c"] cong del: if_weak_cong split del: if_split)

lemma logged_set_GATE [simp]: "logged c (set_GATE_counter d c)"
  by (simp add: set_GATE_counter_def Let_def if_distrib [of "logged c"] cong del: if_weak_cong split del: if_split)

text \<open>Every operation of the chip on counter 0.\<close>

lemma logged_chip:
  "logged (counter s 0) (counter (clock_all n s) 0)" "logged (counter s 0) (counter (pit_write a v s) 0)"
  "logged (counter s 0) (counter (snd (pit_read a s)) 0)" "logged (counter s 0) (counter (set_GATE 2 g s) 0)"
proof -
  show "logged (counter s 0) (counter (clock_all n s) 0)" by (simp add: clock_all_counter logged_clock_multiple)
  have "logged (counter s 0) (counter (read_back_all cw M [0, 1, 2] s) 0)" for cw M
    by simp
  then show "logged (counter s 0) (counter (pit_write a v s) 0)"
    by (simp add: pit_write_def write_control_def Let_def)
  show "logged (counter s 0) (counter (snd (pit_read a s)) 0)"
    by (simp add: pit_read_def Let_def split_beta)
  show "logged (counter s 0) (counter (set_GATE 2 g s) 0)" by (simp add: set_GATE_def)
qed

definition line0 :: "bx_pit \<Rightarrow> bool" where
  "line0 s = bit (IRQ_in (master_pic (pit_pic s))) 0"

text \<open>
  Strictly, the line is the output. After the initialisation, which sets the output before the
  handler is there, the line is at least never high while the output is low.
\<close>

definition follows :: "bool \<Rightarrow> bx_pit \<Rightarrow> bool" where
  "follows strict s \<longleftrightarrow> irq_enabled s \<and> out_handler (counter (pit_timer s) 0) \<and> out_calls (counter (pit_timer s) 0) = [] \<and>
     (line0 s = OUTpin (counter (pit_timer s) 0) \<or> \<not> strict \<and> OUTpin (counter (pit_timer s) 0))"

lemma service_master_lines: "IRQ_in (master_pic (service_master_pic s)) = IRQ_in (master_pic s)"
  by (simp add: service_master_pic_def Let_def BX_PANIC_def BX_RAISE_INTR_def split: option.splits)

lemma irq_lines: "bit (IRQ_in (master_pic (raise_irq 0 p))) 0" "\<not> bit (IRQ_in (master_pic (lower_irq 0 p))) 0"
proof -
  have b: "x AND 1 = 0 \<longleftrightarrow> \<not> bit x 0" "bit (x OR 1) 0" "\<not> bit (x AND NOT 1) 0" "\<not> bit (x AND - 2) 0" for x :: Bit8u
    by (simp_all add: and_exp_eq_0_iff_not_bit [of x 0, simplified] bit_simps)
  show "bit (IRQ_in (master_pic (raise_irq 0 p))) 0"
    by (auto simp: raise_irq_def Let_def forward_ioapic_def DEV_ioapic_set_irq_level_def service_master_lines b)
  show "\<not> bit (IRQ_in (master_pic (lower_irq 0 p))) 0"
    by (auto simp: lower_irq_def Let_def forward_ioapic_def DEV_ioapic_set_irq_level_def b)
qed

lemma line0_upd [simp]: "line0 (s\<lparr>pit_timer := t\<rparr>) = line0 s"
  by (simp add: line0_def)

lemma fold_irq_handler:
  "irq_enabled s \<Longrightarrow> irq_enabled (fold irq_handler vs s) \<and> line0 (fold irq_handler vs s) = last (line0 s # vs)"
  by (induction vs arbitrary: s) (auto simp: irq_handler_def line0_def irq_lines)

lemma fold_speaker_handler: "irq_enabled (fold speaker_handler vs s) = irq_enabled s" "line0 (fold speaker_handler vs s) = line0 s"
  by (induction vs arbitrary: s) (simp_all add: speaker_handler_def line0_def)

lemma follows_on_timer:
  assumes s: "follows k s" and f: "logged (counter (pit_timer s) 0) (counter (f (pit_timer s)) 0)"
  shows "follows k (on_timer f s)"
proof -
  let ?c = "counter (f (pit_timer s)) 0"
  obtain l where l: "out_handler ?c" "out_calls ?c = l" "OUTpin ?c = last (OUTpin (counter (pit_timer s) 0) # l)"
    using s f by (auto simp: follows_def logged_def)
  have "irq_enabled (s\<lparr>pit_timer := f (pit_timer s)\<rparr>)" using s by (simp add: follows_def)
  note k = fold_irq_handler [OF this, of l]
  then show ?thesis using s l
    by (simp add: follows_def on_timer_def drain_def Let_def handlers_timer fold_speaker_handler)
qed

lemma follows_upd [simp]:
  "follows k (s\<lparr>virt_calls := x\<rparr>) = follows k s" "follows k (s\<lparr>last_next_event_time := n\<rparr>) = follows k s"
  "follows k (s\<lparr>last_usec := u\<rparr>) = follows k s" "follows k (s\<lparr>total_usec := u\<rparr>) = follows k s"
  "follows k (s\<lparr>total_ticks := u\<rparr>) = follows k s" "follows k (s\<lparr>speaker_calls := y\<rparr>) = follows k s"
  "follows k (s\<lparr>speaker_data_on := b\<rparr>) = follows k s" "follows k (s\<lparr>speaker_active := b\<rparr>) = follows k s"
  "follows k (s\<lparr>speaker_level := b\<rparr>) = follows k s" "follows k (s\<lparr>pit_panics := z\<rparr>) = follows k s"
  by (simp_all add: follows_def line0_def)

lemma follows_run_ticks: "follows k s \<Longrightarrow> follows k (run_ticks n s)"
proof (induction n s rule: run_ticks.induct)
  case (1 n s)
  then show ?case
    by (subst run_ticks.simps) (simp add: Let_def follows_on_timer logged_chip(1))
qed

lemma follows_periodic: "follows k s \<Longrightarrow> follows k (periodic d s)"
  by (simp add: periodic_def account_def Let_def follows_run_ticks split: prod.split)

lemma follows_pass_time: "follows k s \<Longrightarrow> follows k (pass_time d s)"
  by (simp add: pass_time_def Let_def follows_periodic)

lemma follows_rearm: "follows k s \<Longrightarrow> follows k (rearm b s)"
  by (simp add: rearm_def Let_def)

lemma follows_handle_timer: "follows k s \<Longrightarrow> follows k (handle_timer now s)"
  by (simp add: handle_timer_def Let_def follows_rearm follows_pass_time)

lemma follows_timer_read: "follows k s \<Longrightarrow> follows k (snd (timer_read a s))"
proof -
  have r: "OUTpin (snd (read_counter c)) = OUTpin c" "out_calls (snd (read_counter c)) = out_calls c"
    "out_handler (snd (read_counter c)) = out_handler c" for c
    by (simp_all add: read_counter_def Let_def)
  assume "follows k s"
  then show ?thesis
    by (simp add: timer_read_def pit_read_def Let_def split_beta follows_def line0_def r)
qed

lemma follows_beep: "follows k s \<Longrightarrow> follows k (beep_on s)"
  by (simp add: beep_on_def Let_def)

lemma follows_port61: "follows k s \<Longrightarrow> follows k (write_port61 v s)"
  by (simp add: write_port61_def Let_def follows_beep follows_on_timer logged_chip(4))

lemma follows_ports:
  assumes s: "follows k s"
  shows "follows k (snd (pit_port_read a now s))" "follows k (pit_port_write a v now s)"
  using s
  by (simp_all add: pit_port_read_def pit_port_write_def Let_def follows_handle_timer follows_timer_read follows_rearm
      follows_pass_time follows_on_timer follows_beep follows_port61 logged_chip)

lemma erase_write_count: "erase (write_count d (erase c)) = erase (write_count d c)"
proof -
  have i: "erase (c\<lparr>inlatch := v\<rparr>) = (erase c)\<lparr>inlatch := v\<rparr>" "erase (c\<lparr>write_state := w\<rparr>) = (erase c)\<lparr>write_state := w\<rparr>"
    "erase (c\<lparr>count_written := x\<rparr>) = (erase c)\<lparr>count_written := x\<rparr>" for c v w x
    by (simp_all add: erase_def)
  show ?thesis
    by (cases "write_state c") (simp_all add: write_count_def Let_def i if_distrib [of erase] cong del: if_weak_cong split del: if_split)
qed

text \<open>The three port writes that program counter 0, with no time passing between them.\<close>

definition set_up :: "Bit8u \<Rightarrow> Bit8u \<Rightarrow> Bit8u \<Rightarrow> bx_pit \<Rightarrow> bx_pit" where
  "set_up cw lo hi s =
    (let now = last_usec s
     in pit_port_write 0x40 (ucast hi) now (pit_port_write 0x40 (ucast lo) now (pit_port_write 0x43 (ucast cw) now s)))"

lemma port_write_counter:
  assumes "now = last_usec s"
  shows "counter (pit_timer (pit_port_write 0x43 (ucast v) now s)) 0 = erase (counter (pit_write 3 v (pit_timer s)) 0)"
    "counter (pit_timer (pit_port_write 0x40 (ucast v) now s)) 0 = erase (counter (pit_write 0 v (pit_timer s)) 0)"
    "last_usec (pit_port_write 0x43 (ucast v) now s) = now"
    "last_usec (pit_port_write 0x40 (ucast v) now s) = now"
proof -
  have r: "pit_timer (rearm b t) = pit_timer t" "last_usec (rearm b t) = last_usec t" for b t
    by (simp_all add: rearm_def Let_def)
  have d: "counter (pit_timer (drain t)) 0 = erase (counter (pit_timer t) 0)" for t
    by (simp add: drain_def Let_def handlers_timer erase_def)
  have "last_usec (fold irq_handler vs t) = last_usec t" "last_usec (fold speaker_handler vs t) = last_usec t" for vs t
    by (induction vs arbitrary: t) (simp_all add: irq_handler_def speaker_handler_def)
  then have u: "last_usec (drain t) = last_usec t" for t by (simp add: drain_def Let_def)
  show "counter (pit_timer (pit_port_write 0x43 (ucast v) now s)) 0 = erase (counter (pit_write 3 v (pit_timer s)) 0)"
    "counter (pit_timer (pit_port_write 0x40 (ucast v) now s)) 0 = erase (counter (pit_write 0 v (pit_timer s)) 0)"
    "last_usec (pit_port_write 0x43 (ucast v) now s) = now"
    "last_usec (pit_port_write 0x40 (ucast v) now s) = now"
    using assms
    by (simp_all add: pit_port_write_def Let_def pass_time_def r on_timer_def d u)
qed

lemma set_up_counter:
  assumes "selects cw 0 M"
  shows "counter (pit_timer (set_up cw lo hi s)) 0 = erase (program M (cw AND 1) lo hi (counter (pit_timer s) 0))"
proof -
  have w: "counter (pit_write 0 v t) 0 = write_count v (counter t 0)" for v t
    by (simp add: pit_write_def MAX_ADDRESS_def CONTROL_ADDRESS_def)
  have "counter (pit_write 3 cw t) 0 = program_counter 3 M (cw AND 1) (counter t 0)" for t
    using assms by (simp add: selects_def pit_write_def MAX_ADDRESS_def CONTROL_ADDRESS_def write_control_def Let_def)
  then show ?thesis
    by (simp add: set_up_def Let_def port_write_counter w program_def erase_write_count)
qed

lemma follows_set_up: "follows k s \<Longrightarrow> follows k (set_up cw lo hi s)"
  by (simp add: set_up_def Let_def follows_ports)

lemma line_wave:
  fixes lo hi :: Bit8u
  defines "N \<equiv> ucast lo OR shl (ucast hi) 8 :: Bit16u"
  assumes f: "follows True s" and c: "selects cw 0 3" "cw AND 1 = 0" and g: "GATE (counter (pit_timer s) 0)"
    and N: "N AND 1 = 0" "4 \<le> N" and n: "n \<noteq> 0" "n < 0x80000000"
  shows "line0 (run_ticks n (set_up cw lo hi s)) \<longleftrightarrow> (unat n - 1) mod unat N < unat N div 2"
proof -
  let ?p = "program 3 (cw AND 1) lo hi (counter (pit_timer s) 0)" and ?s = "set_up cw lo hi s"
  have d: "count_ok 3 (cw AND 1 > 0) (ucast lo OR shl (ucast hi) 8)" using c N by (simp add: count_ok_def N_def)
  have i: "in_step ?p" by (rule program_in_step [OF _ d]) simp_all
  have e: "erase (counter (pit_timer ?s) 0) = erase ?p" by (simp add: set_up_counter [OF c(1)])
  have "erase (counter (pit_timer (run_ticks n ?s)) 0) = erase ((clock_counter ^^ unat n) (counter (pit_timer ?s) 0))"
    using in_step_cong [OF e] i n by (intro run_ticks_clocks) simp_all
  also have "\<dots> = erase ((clock_counter ^^ unat n) ?p)" by (rule erase_cong [OF e])
  finally have "OUTpin (counter (pit_timer (run_ticks n ?s)) 0) = OUTpin ((clock_counter ^^ unat n) ?p)"
    by (metis erase_sel(6))
  moreover have "load ?p = ucast N" using c(2) unfolding N_def by (intro load_program) simp_all
  moreover note q = program_square [OF d g]
  ultimately have "OUTpin (counter (pit_timer (run_ticks n ?s)) 0) \<longleftrightarrow> (unat n - 1) mod unat N < unat N div 2"
    using square_wave [OF q(1,2), of "unat n - 1"] q(3) first_clock [OF n(1)] by (simp add: unat_latch)
  then show ?thesis using follows_run_ticks [OF follows_set_up [OF f]] by (simp add: follows_def)
qed

section \<open>Properties of the timer device\<close>

definition sample_device :: bx_pit where
  "sample_device = \<lparr>pit_timer = sample_pit, speaker_data_on = False, speaker_active = False, speaker_level = False,
     last_usec = 0, last_next_event_time = 0, total_ticks = 0, total_usec = 0, irq_enabled = True,
     pit_pic = sample_pic\<lparr>master_pic := (master_pic sample_pic)\<lparr>IRQ_in := 1\<rparr>\<rparr>,
     speaker_calls = [], virt_calls = [], pit_panics = []\<rparr>"

lemma sample_follows: "follows True sample_device"
  by (simp add: follows_def sample_device_def sample_pit_def sample_counter_def line0_def)

text \<open>
  C29. No tick is lost: however the emulated time is cut into calls of \<open>periodic\<close>, each of less
  than an hour, the ticks they clock add up to the whole ticks of 1.193181 MHz in the
  time that has passed.
\<close>

theorem no_tick_lost:
  assumes "totals_ok s" and "\<forall>d\<in>set ds. unat d \<le> 3599000000"
  shows "ticks_clocked ds s + unat (total_ticks s) = (unat (total_usec s) + sum_list (map unat ds)) * 1193181 div 1000000"
  using ticks_clocked_eq [OF assms] assms(1) by (simp add: totals_ok_def ticks_in_def)

theorem no_tick_lost_witness: "ticks_clocked [1, 2, 3, 1000000] sample_device = 1193188"
  using no_tick_lost [of sample_device "[1, 2, 3, 1000000]"]
  by (simp add: totals_ok_def sample_device_def ticks_in_def)

text \<open>
  C28. The event loop is exact: \<open>periodic\<close>'s loop, which clocks the chip from event to event, leaves
  every counter in step as if it had been clocked once per tick (apart from the
  calls of its OUT handler, which have been made).
\<close>

theorem event_loop_is_exact:
  assumes "i \<le> 2" and "in_step (counter (pit_timer s) i)" and "n < 0x80000000"
  shows "erase (counter (pit_timer (run_ticks n s)) i) = erase ((clock_counter ^^ unat n) (counter (pit_timer s) i))"
  by (rule run_ticks_clocks [OF assms(2,3,1)])

theorem event_loop_is_exact_witness:
  "erase (counter (pit_timer (run_ticks 1000 sample_device)) 2) = erase ((clock_counter ^^ 1000) sample_counter)"
proof -
  have "in_step sample_counter"
    by (simp add: in_step_def counting_ok_def load_ok_def phase_ok_def due_def sample_counter_def encode_def top_count_def)
  then show ?thesis using event_loop_is_exact [of 2 sample_device 1000]
    by (simp add: sample_device_def sample_pit_def)
qed

text \<open>
  Interrupt line 0 follows the output of counter 0: once they agree, every passing of time
  and every port access of the device keeps them equal; and when, as after the initialisation, the
  output is high before the line is, the line is still never high while the output is low.
\<close>

theorem line_follows_output:
  assumes "follows strict s"
  shows "follows strict (handle_timer now s) \<and> follows strict (snd (pit_port_read a now s)) \<and>
    follows strict (pit_port_write a v now s)"
  by (simp add: follows_handle_timer [OF assms] follows_ports [OF assms])

theorem line_follows_output_witness:
  "follows True (pit_port_write 0x43 0x36 1000 (handle_timer 500 sample_device))"
  using line_follows_output [of True "handle_timer 500 sample_device" 1000 "0x43" "0x36"]
    line_follows_output [OF sample_follows, of 500 0 0] by simp





end
