(* ===== verification/Pc_System.thy ===== *)
theory Pc_System
  imports Prelude
begin

text \<open>
  The timer service and the reset, A20 and interrupt lines of pc_system.cc and pc_system.h: the
  countdown that every executed instruction decrements, the table of registered timers, and the
  event that scans the table and calls the timers that are due. The handler of a timer, the pair
  of \<open>funct\<close> and \<open>this_ptr\<close>, is a value of the type \<open>'f\<close>; the effect of calling it is the argument
  \<open>call\<close> of the operations that make such calls, on the service and on the rest \<open>'w\<close> of the machine.
  Conversions that use the floating point number \<open>m_ips\<close> are arguments too. Configuration:
  one processor, no BX_TIMER_DEBUG, BX_PHY_ADDRESS_LONG.
\<close>

section \<open>State\<close>

record 'f sys_timer =
  inUse :: bool
  period :: Bit64u
  timeToFire :: Bit64u
  active :: bool
  continuous :: bool
  funct :: "'f option"
  timer_id :: string
  param :: Bit32u

datatype pc_call = Async_event | Raise_INTR | Clear_INTR | TLB_flush | TLB_invlpg Bit32u
  | Cpu_reset bool | Reset_devices bool | Devices_exit
datatype pc_panic = Too_many_timers | Timer_still_active string

record 'f pc_system =
  timer :: "nat \<Rightarrow> 'f sys_timer"
  numTimers :: nat
  triggeredTimer :: nat
  currCountdown :: Bit32u
  currCountdownPeriod :: Bit32u
  ticksTotal :: Bit64u
  lastTimeUsec :: Bit64u
  usecSinceLast :: Bit64u
  HRQ :: bool
  enable_a20 :: bool
  a20_mask :: Bit64u
  kill_bochs_request :: bool
  pc_calls :: "pc_call list"
  pc_panics :: "pc_panic list"

definition BX_MAX_TIMERS :: nat where "BX_MAX_TIMERS = 64"
definition BxMaxTimerIDLen :: nat where "BxMaxTimerIDLen = 32"
definition MinAllowableTimerPeriod :: Bit64u where "MinAllowableTimerPeriod = 1"
definition NullTimerInterval :: "'a::len word" where "NullTimerInterval = 0xffffffff"
definition BX_MAX_BIT64S :: Bit64u where "BX_MAX_BIT64S = 9223372036854775807"

definition upd_timer :: "nat \<Rightarrow> ('f sys_timer \<Rightarrow> 'f sys_timer) \<Rightarrow> 'f pc_system \<Rightarrow> 'f pc_system" where
  "upd_timer i f s = s\<lparr>timer := (timer s)(i := f (timer s i))\<rparr>"

definition pc_log :: "pc_call \<Rightarrow> 'f pc_system \<Rightarrow> 'f pc_system" where
  "pc_log c s = s\<lparr>pc_calls := pc_calls s @ [c]\<rparr>"

definition time_ticks :: "'f pc_system \<Rightarrow> Bit64u" where
  "time_ticks s = ticksTotal s + ucast (currCountdownPeriod s - currCountdown s)"

definition getNumCpuTicksLeftNextEvent :: "'f pc_system \<Rightarrow> Bit32u" where
  "getNumCpuTicksLeftNextEvent s = currCountdown s"

definition triggeredTimerParam :: "'f pc_system \<Rightarrow> Bit32u" where
  "triggeredTimerParam s = param (timer s (triggeredTimer s))"

section \<open>Construction and initialisation\<close>

definition pc_construct :: "'f \<Rightarrow> 'f pc_system \<Rightarrow> 'f pc_system" where
  "pc_construct nullTimer s =
    (let s = s\<lparr>ticksTotal := 0\<rparr>;
         s = upd_timer 0 (\<lambda>t. t\<lparr>inUse := True, period := NullTimerInterval, active := True,
                continuous := True, funct := Some nullTimer\<rparr>) s
     in s\<lparr>numTimers := 1\<rparr>)"

definition pc_initialize :: "'f pc_system \<Rightarrow> 'f pc_system" where
  "pc_initialize s =
    (let s = s\<lparr>ticksTotal := 0\<rparr>;
         s = upd_timer 0 (\<lambda>t. t\<lparr>timeToFire := NullTimerInterval\<rparr>) s
     in s\<lparr>currCountdown := NullTimerInterval, currCountdownPeriod := NullTimerInterval,
          lastTimeUsec := 0, usecSinceLast := 0, triggeredTimer := 0, HRQ := False,
          kill_bochs_request := False\<rparr>)"

section \<open>Timer requests\<close>

text \<open>The first free slot from \<open>i\<close> on, or \<open>numTimers\<close>.\<close>

function free_slot :: "'f pc_system \<Rightarrow> nat \<Rightarrow> nat" where
  "free_slot s i = (if i < numTimers s \<and> inUse (timer s i) then free_slot s (i + 1) else i)"
  by auto
termination by (relation "measure (\<lambda>(s, i). numTimers s - i)") auto

declare free_slot.simps [simp del]

definition clamp_period :: "Bit64u \<Rightarrow> Bit64u" where
  "clamp_period ticks = (if ticks < MinAllowableTimerPeriod then MinAllowableTimerPeriod else ticks)"

text \<open>A timer that fires before the current countdown ends makes the countdown end there.\<close>

definition skew_countdown :: "Bit64u \<Rightarrow> 'f pc_system \<Rightarrow> 'f pc_system" where
  "skew_countdown ticks s =
    (if ticks < ucast (currCountdown s)
     then s\<lparr>currCountdownPeriod := currCountdownPeriod s - (currCountdown s - ucast ticks),
            currCountdown := ucast ticks\<rparr>
     else s)"

definition register_timer_ticks ::
  "'f option \<Rightarrow> Bit64u \<Rightarrow> bool \<Rightarrow> bool \<Rightarrow> string \<Rightarrow> 'f pc_system \<Rightarrow> int \<times> 'f pc_system" where
  "register_timer_ticks f ticks cont act ident s =
    (let ticks = clamp_period ticks;
         i = free_slot s 1
     in if numTimers s \<ge> BX_MAX_TIMERS
        then (-1, s\<lparr>pc_panics := pc_panics s @ [Too_many_timers]\<rparr>)
        else
          (let s = upd_timer i (\<lambda>t. t\<lparr>inUse := True, period := ticks, timeToFire := time_ticks s + ticks,
                     active := act, continuous := cont, funct := f,
                     timer_id := take (BxMaxTimerIDLen - 1) ident, param := 0\<rparr>) s;
               s = (if act then skew_countdown ticks s else s);
               s = (if i = numTimers s then s\<lparr>numTimers := numTimers s + 1\<rparr> else s)
           in (int i, s)))"

definition register_timer ::
  "(Bit32u \<Rightarrow> Bit64u) \<Rightarrow> 'f option \<Rightarrow> Bit32u \<Rightarrow> bool \<Rightarrow> bool \<Rightarrow> string \<Rightarrow> 'f pc_system \<Rightarrow> int \<times> 'f pc_system" where
  "register_timer usec_ticks f useconds cont act ident s =
    register_timer_ticks f (usec_ticks useconds) cont act ident s"

definition activate_timer_ticks :: "nat \<Rightarrow> Bit64u \<Rightarrow> bool \<Rightarrow> 'f pc_system \<Rightarrow> 'f pc_system" where
  "activate_timer_ticks i ticks cont s =
    (let ticks = clamp_period ticks;
         s = upd_timer i (\<lambda>t. t\<lparr>period := ticks, timeToFire := time_ticks s + ticks,
                active := True, continuous := cont\<rparr>) s
     in skew_countdown ticks s)"

text \<open>
  \<open>activate_timer\<close> and \<open>activate_timer_nsec\<close> share this shape: a delay of zero takes the stored
  period, any other delay is converted, clamped and stored.
\<close>

definition activate_converted :: "('d::zero \<Rightarrow> Bit64u) \<Rightarrow> nat \<Rightarrow> 'd \<Rightarrow> bool \<Rightarrow> 'f pc_system \<Rightarrow> 'f pc_system" where
  "activate_converted conv i delay cont s =
    (if delay = 0 then activate_timer_ticks i (period (timer s i)) cont s
     else (let ticks = clamp_period (conv delay);
               s = upd_timer i (\<lambda>t. t\<lparr>period := ticks\<rparr>) s
           in activate_timer_ticks i ticks cont s))"

definition activate_timer :: "(Bit32u \<Rightarrow> Bit64u) \<Rightarrow> nat \<Rightarrow> Bit32u \<Rightarrow> bool \<Rightarrow> 'f pc_system \<Rightarrow> 'f pc_system" where
  "activate_timer usec_ticks i useconds cont s = activate_converted usec_ticks i useconds cont s"

definition activate_timer_nsec :: "(Bit64u \<Rightarrow> Bit64u) \<Rightarrow> nat \<Rightarrow> Bit64u \<Rightarrow> bool \<Rightarrow> 'f pc_system \<Rightarrow> 'f pc_system" where
  "activate_timer_nsec nsec_ticks i nseconds cont s = activate_converted nsec_ticks i nseconds cont s"

definition deactivate_timer :: "nat \<Rightarrow> 'f pc_system \<Rightarrow> 'f pc_system" where
  "deactivate_timer i s = upd_timer i (\<lambda>t. t\<lparr>active := False\<rparr>) s"

definition unregisterTimer :: "nat \<Rightarrow> 'f pc_system \<Rightarrow> bool \<times> 'f pc_system" where
  "unregisterTimer i s =
    (if active (timer s i)
     then (False, s\<lparr>pc_panics := pc_panics s @ [Timer_still_active (timer_id (timer s i))]\<rparr>)
     else
       (let s = upd_timer i (\<lambda>t. t\<lparr>inUse := False, period := BX_MAX_BIT64S, timeToFire := BX_MAX_BIT64S,
                  continuous := False, funct := None, timer_id := []\<rparr>) s;
            s = (if i = numTimers s - 1 then s\<lparr>numTimers := numTimers s - 1\<rparr> else s)
        in (True, s)))"

definition setTimerParam :: "nat \<Rightarrow> Bit32u \<Rightarrow> 'f pc_system \<Rightarrow> 'f pc_system" where
  "setTimerParam i p s = upd_timer i (\<lambda>t. t\<lparr>param := p\<rparr>) s"

section \<open>The countdown event\<close>

text \<open>The scan of the table, with its local variables.\<close>

record 'f scan =
  sc_sys :: "'f pc_system"
  first_i :: nat
  last_i :: nat
  minTimeToFire :: Bit64u
  triggered :: "nat \<Rightarrow> bool"

definition scan_min :: "nat \<Rightarrow> 'f scan \<Rightarrow> 'f scan" where
  "scan_min i c =
    (if timeToFire (timer (sc_sys c) i) < minTimeToFire c
     then c\<lparr>minTimeToFire := timeToFire (timer (sc_sys c) i)\<rparr> else c)"

definition scan_timer :: "nat \<Rightarrow> 'f scan \<Rightarrow> 'f scan" where
  "scan_timer i c =
    (let c = c\<lparr>triggered := (triggered c)(i := False)\<rparr>;
         t = timer (sc_sys c) i
     in if active t then
          (if ticksTotal (sc_sys c) = timeToFire t then
             (let c = c\<lparr>triggered := (triggered c)(i := True)\<rparr>;
                  c = (if \<not> continuous t
                       then c\<lparr>sc_sys := upd_timer i (\<lambda>t. t\<lparr>active := False\<rparr>) (sc_sys c)\<rparr>
                       else scan_min i (c\<lparr>sc_sys := upd_timer i (\<lambda>t. t\<lparr>timeToFire := timeToFire t + period t\<rparr>) (sc_sys c)\<rparr>));
                  c = (if i < first_i c then c\<lparr>first_i := i\<rparr> else c)
              in c\<lparr>last_i := i\<rparr>)
           else scan_min i c)
        else c)"

definition scan_timers :: "'f pc_system \<Rightarrow> 'f scan" where
  "scan_timers s =
    fold scan_timer [0..<numTimers s]
      \<lparr>sc_sys = s, first_i = numTimers s, last_i = 0, minTimeToFire = -1, triggered = (\<lambda>_. False)\<rparr>"

type_synonym ('f, 'w) handler = "'f \<Rightarrow> 'f pc_system \<times> 'w \<Rightarrow> 'f pc_system \<times> 'w"

definition fire_timer :: "('f, 'w) handler \<Rightarrow> (nat \<Rightarrow> bool) \<Rightarrow> nat \<Rightarrow> 'f pc_system \<times> 'w \<Rightarrow> 'f pc_system \<times> 'w" where
  "fire_timer call trig i st =
    (case (trig i, funct (timer (fst st) i)) of
       (True, Some f) \<Rightarrow>
         (let st = call f (fst st\<lparr>triggeredTimer := i\<rparr>, snd st)
          in (fst st\<lparr>triggeredTimer := 0\<rparr>, snd st))
     | _ \<Rightarrow> st)"

definition countdownEvent :: "('f, 'w) handler \<Rightarrow> 'f pc_system \<times> 'w \<Rightarrow> 'f pc_system \<times> 'w" where
  "countdownEvent call st =
    (let s = fst st;
         s = s\<lparr>ticksTotal := ticksTotal s + ucast (currCountdownPeriod s)\<rparr>;
         c = scan_timers s;
         s = sc_sys c;
         next = ucast (minTimeToFire c - ticksTotal s);
         s = s\<lparr>currCountdown := next, currCountdownPeriod := next\<rparr>
     in fold (fire_timer call (triggered c)) [first_i c..<last_i c + 1] (s, snd st))"

definition tick1 :: "('f, 'w) handler \<Rightarrow> 'f pc_system \<times> 'w \<Rightarrow> 'f pc_system \<times> 'w" where
  "tick1 call st =
    (let s = fst st\<lparr>currCountdown := currCountdown (fst st) - 1\<rparr>
     in if currCountdown s = 0 then countdownEvent call (s, snd st) else (s, snd st))"

partial_function (option) tickn ::
  "('f, 'w) handler \<Rightarrow> Bit32u \<Rightarrow> 'f pc_system \<times> 'w \<Rightarrow> ('f pc_system \<times> 'w) option" where
  "tickn call n st =
    (if n \<ge> currCountdown (fst st)
     then tickn call (n - currCountdown (fst st)) (countdownEvent call (fst st\<lparr>currCountdown := 0\<rparr>, snd st))
     else Some (fst st\<lparr>currCountdown := currCountdown (fst st) - n\<rparr>, snd st))"

declare tickn.simps [code]

section \<open>Time in microseconds\<close>

text \<open>\<open>ticks_usec\<close> stands for the division by \<open>m_ips\<close>.\<close>

definition pc_time_usec :: "(Bit64u \<Rightarrow> Bit64u) \<Rightarrow> 'f pc_system \<Rightarrow> Bit64u" where
  "pc_time_usec ticks_usec s = ticks_usec (time_ticks s)"

definition time_usec_sequential :: "(Bit64u \<Rightarrow> Bit64u) \<Rightarrow> 'f pc_system \<Rightarrow> Bit64u \<times> 'f pc_system" where
  "time_usec_sequential ticks_usec s =
    (let this_time_usec = pc_time_usec ticks_usec s;
         s = (if this_time_usec \<noteq> lastTimeUsec s then
                (let diff_usec = this_time_usec - lastTimeUsec s;
                     s = s\<lparr>lastTimeUsec := this_time_usec\<rparr>
                 in if diff_usec \<ge> usecSinceLast s then s\<lparr>usecSinceLast := 0\<rparr>
                    else s\<lparr>usecSinceLast := usecSinceLast s - diff_usec\<rparr>)
              else s);
         s = s\<lparr>usecSinceLast := usecSinceLast s + 1\<rparr>
     in (this_time_usec + usecSinceLast s, s))"

text \<open>\<open>fast\<close> is \<open>m_ips > 4.0\<close> and \<open>delay\<close> is \<open>m_ips * 2.0\<close>.\<close>

definition isa_bus_delay :: "('f, 'w) handler \<Rightarrow> bool \<Rightarrow> Bit32u \<Rightarrow> 'f pc_system \<times> 'w \<Rightarrow> ('f pc_system \<times> 'w) option" where
  "isa_bus_delay call fast delay st = (if fast then tickn call delay st else Some st)"

section \<open>Lines, A20 and reset\<close>

definition set_HRQ :: "bool \<Rightarrow> 'f pc_system \<Rightarrow> 'f pc_system" where
  "set_HRQ val s = (let s = s\<lparr>HRQ := val\<rparr> in if val then pc_log Async_event s else s)"

definition pc_raise_INTR :: "'f pc_system \<Rightarrow> 'f pc_system" where
  "pc_raise_INTR s = pc_log Raise_INTR s"

definition pc_clear_INTR :: "'f pc_system \<Rightarrow> 'f pc_system" where
  "pc_clear_INTR s = pc_log Clear_INTR s"

definition MemoryMappingChanged :: "'f pc_system \<Rightarrow> 'f pc_system" where
  "MemoryMappingChanged s = pc_log TLB_flush s"

definition invlpg :: "Bit32u \<Rightarrow> 'f pc_system \<Rightarrow> 'f pc_system" where
  "invlpg addr s = pc_log (TLB_invlpg addr) s"

definition set_enable_a20 :: "bool \<Rightarrow> 'f pc_system \<Rightarrow> 'f pc_system" where
  "set_enable_a20 value s =
    (let old_enable_a20 = enable_a20 s;
         s = (if value then s\<lparr>enable_a20 := True, a20_mask := 0xffffffffffffffff\<rparr>
              else s\<lparr>enable_a20 := False, a20_mask := 0xffffffffffefffff\<rparr>)
     in if old_enable_a20 \<noteq> enable_a20 s then MemoryMappingChanged s else s)"

definition get_enable_a20 :: "'f pc_system \<Rightarrow> bool" where
  "get_enable_a20 s = enable_a20 s"

text \<open>The argument is true for BX_RESET_HARDWARE.\<close>

definition pc_Reset :: "bool \<Rightarrow> 'f pc_system \<Rightarrow> 'f pc_system" where
  "pc_Reset hardware s =
    (let s = set_enable_a20 True s;
         s = pc_log (Cpu_reset hardware) s
     in if hardware then pc_log (Reset_devices hardware) s else s)"

text \<open>The exit keeps the null timer and the APIC timer (BX_SUPPORT_APIC is 1); the calls of the GUI are left out.\<close>

definition pc_exit :: "'f pc_system \<Rightarrow> 'f pc_system" where
  "pc_exit s = pc_log Devices_exit (s\<lparr>numTimers := 1 + 1\<rparr>)"

definition benchmarkTimer :: "'f pc_system \<Rightarrow> 'f pc_system" where
  "benchmarkTimer s = s\<lparr>kill_bochs_request := True\<rparr>"

end
