(* ===== verification/Pc_Timers.thy ===== *)
theory Pc_Timers
  imports Pc_System
begin

text \<open>
  The timer service at work: the invariant of the table of timers, kept by every request and by
  every event; the locale \<open>timer_handlers\<close>, what the service needs of the handlers it calls, and its
  interpretations on handlers that act by requests and on a handler that keeps a record; and the
  properties of reachable states. Times are natural numbers below \<open>2 ^ 62\<close> ticks, which an
  emulator of a thousand million instructions per second reaches after 146 years; no 64-bit sum wraps before.
\<close>

section \<open>The invariant of the timer table\<close>

definition now :: "'f pc_system \<Rightarrow> nat" where
  "now s = unat (time_ticks s)"

definition due :: "'f pc_system \<Rightarrow> nat" where
  "due s = unat (ticksTotal s) + unat (currCountdownPeriod s)"

definition timer_ok :: "nat \<Rightarrow> nat \<Rightarrow> 'f sys_timer \<Rightarrow> bool" where
  "timer_ok d n t \<longleftrightarrow>
    0 < unat (period t) \<and> unat (period t) \<le> 2 ^ 62 \<and>
    d \<le> unat (timeToFire t) \<and> unat (timeToFire t) \<le> n + unat (period t)"

definition table_ok :: "nat \<Rightarrow> nat \<Rightarrow> 'f pc_system \<Rightarrow> bool" where
  "table_ok d n s \<longleftrightarrow>
    0 < numTimers s \<and> numTimers s \<le> BX_MAX_TIMERS \<and>
    active (timer s 0) \<and> continuous (timer s 0) \<and> period (timer s 0) = NullTimerInterval \<and>
    (\<forall>i<numTimers s. active (timer s i) \<longrightarrow> timer_ok d n (timer s i))"

definition sched_inv :: "'f pc_system \<Rightarrow> bool" where
  "sched_inv s \<longleftrightarrow>
    currCountdown s \<le> currCountdownPeriod s \<and> due s < 2 ^ 63 \<and> table_ok (due s) (now s) s"

definition sched_ok :: "'f pc_system \<Rightarrow> bool" where
  "sched_ok s \<longleftrightarrow> sched_inv s \<and> 0 < currCountdown s"

lemma unat_sum:
  fixes a b :: "'a::len word"
  assumes "unat a + unat b < 2 ^ LENGTH('a)"
  shows "unat (a + b) = unat a + unat b"
  using assms by (simp add: unat_word_ariths)

lemma unat_diff:
  fixes a b :: "'a::len word"
  assumes "b \<le> a"
  shows "unat (a - b) = unat a - unat b"
  using assms by (rule unat_sub)

lemma unat_widen [simp]: "unat (ucast (x :: Bit32u) :: Bit64u) = unat x"
  by (simp add: unsigned_ucast_eq take_bit_nat_eq_self order_less_trans [OF unsigned_less [of x, where 'a = nat]])

lemma now_plus:
  assumes le: "currCountdown s \<le> currCountdownPeriod s" and d: "due s < 2 ^ 63"
  shows "now s + unat (currCountdown s) = due s"
proof -
  have sub: "unat (currCountdownPeriod s - currCountdown s) = unat (currCountdownPeriod s) - unat (currCountdown s)"
    using le by (rule unat_diff)
  have "unat (ticksTotal s) + unat (ucast (currCountdownPeriod s - currCountdown s) :: Bit64u) < 2 ^ LENGTH(64)"
    using d by (simp add: sub due_def)
  then have "now s = unat (ticksTotal s) + (unat (currCountdownPeriod s) - unat (currCountdown s))"
    by (simp only: now_def time_ticks_def unat_sum unat_widen sub)
  then show ?thesis
    using le by (simp add: due_def word_le_nat_alt)
qed

lemma now_plus_countdown: "sched_inv s \<Longrightarrow> now s + unat (currCountdown s) = due s"
  by (simp add: sched_inv_def now_plus)

lemma table_ok_upd:
  assumes "table_ok d n s" "d' \<le> d" "i \<noteq> 0" "active t \<longrightarrow> timer_ok d' n t"
  shows "table_ok d' n (s\<lparr>timer := (timer s)(i := t)\<rparr>)"
  using assms by (auto simp: table_ok_def timer_ok_def)

lemma table_ok_fields [simp]:
  "table_ok d n (s\<lparr>currCountdown := c\<rparr>) = table_ok d n s"
  "table_ok d n (s\<lparr>currCountdownPeriod := p\<rparr>) = table_ok d n s"
  "table_ok d n (s\<lparr>triggeredTimer := k\<rparr>) = table_ok d n s"
  "table_ok d n (s\<lparr>ticksTotal := x\<rparr>) = table_ok d n s"
  "table_ok d n (s\<lparr>pc_panics := ps\<rparr>) = table_ok d n s"
  by (simp_all add: table_ok_def)

lemma skew_countdown:
  assumes inv: "currCountdown s \<le> currCountdownPeriod s" "0 < currCountdown s" and t: "0 < ticks"
  defines "s' \<equiv> skew_countdown ticks s"
  shows "time_ticks s' = time_ticks s"
    and "currCountdown s' \<le> currCountdownPeriod s'" and "0 < currCountdown s'"
    and "unat (currCountdown s') = min (unat ticks) (unat (currCountdown s))"
    and "timer s' = timer s" and "numTimers s' = numTimers s"
    and "due s' \<le> due s"
proof -
  have small: "unat (ucast ticks :: Bit32u) = unat ticks" if "ticks < ucast (currCountdown s)"
  proof -
    have "unat ticks < 2 ^ 32"
      using that unsigned_less [of "currCountdown s", where 'a = nat] by (simp add: word_less_nat_alt)
    then show ?thesis by (simp add: unsigned_ucast_eq take_bit_nat_eq_self)
  qed
  show "time_ticks s' = time_ticks s" "timer s' = timer s" "numTimers s' = numTimers s"
    by (simp_all add: s'_def skew_countdown_def time_ticks_def)
  show c: "unat (currCountdown s') = min (unat ticks) (unat (currCountdown s))"
    by (auto simp: s'_def skew_countdown_def small word_less_nat_alt)
  then show "0 < currCountdown s'"
    using inv t by (simp add: word_less_nat_alt)
  have "unat (currCountdownPeriod s') + unat (currCountdown s) = unat (currCountdownPeriod s) + unat (currCountdown s')"
  proof (cases "ticks < ucast (currCountdown s)")
    case True
    then have lt: "unat ticks < unat (currCountdown s)" by (simp add: word_less_nat_alt)
    then have "unat (currCountdown s - ucast ticks) = unat (currCountdown s) - unat ticks"
      by (subst unat_diff) (simp_all add: small True word_le_nat_alt)
    moreover have "currCountdown s - ucast ticks \<le> currCountdownPeriod s"
      using inv(1) calculation by (simp add: word_le_nat_alt)
    ultimately have "unat (currCountdownPeriod s - (currCountdown s - ucast ticks)) =
        unat (currCountdownPeriod s) - (unat (currCountdown s) - unat ticks)"
      by (simp add: unat_diff)
    then show ?thesis
      using True lt inv(1) by (simp add: s'_def skew_countdown_def small word_le_nat_alt)
  next
    case False
    then show ?thesis by (simp add: s'_def skew_countdown_def)
  qed
  moreover have "ticksTotal s' = ticksTotal s"
    by (simp add: s'_def skew_countdown_def)
  ultimately show "currCountdown s' \<le> currCountdownPeriod s'" "due s' \<le> due s"
    using inv(1) c by (simp_all add: word_le_nat_alt due_def)
qed

section \<open>Requests keep the invariant\<close>

lemma clamp_pos: "0 < clamp_period ticks" "unat (clamp_period ticks) = max 1 (unat ticks)"
  by (auto simp: clamp_period_def MinAllowableTimerPeriod_def word_less_nat_alt)

lemma fire_time:
  assumes "sched_inv s" "unat t \<le> 2 ^ 62"
  shows "unat (time_ticks s + t) = now s + unat t"
proof -
  have "now s < 2 ^ 63"
    using assms(1) now_plus_countdown [OF assms(1)] by (simp add: sched_inv_def)
  then have "unat (time_ticks s) + unat t < 2 ^ LENGTH(64)"
    using assms(2) by (simp add: now_def)
  then show ?thesis by (simp add: unat_sum now_def)
qed

lemma timer_ok_fresh:
  assumes ok: "sched_ok s" and t: "0 < ticks" "unat ticks \<le> 2 ^ 62"
    and s': "s' = skew_countdown ticks s0" "currCountdown s0 = currCountdown s"
      "currCountdownPeriod s0 = currCountdownPeriod s" "ticksTotal s0 = ticksTotal s"
    and p: "period x = ticks" "timeToFire x = time_ticks s + ticks"
  shows "timer_ok (due s') (now s) x"
proof -
  have inv: "sched_inv s" "currCountdown s0 \<le> currCountdownPeriod s0" "0 < currCountdown s0" "due s0 < 2 ^ 63"
    using ok s' by (auto simp: sched_ok_def sched_inv_def due_def)
  note sk = skew_countdown [OF inv(2,3) t(1), folded s'(1)]
  have "now s' = now s"
    by (simp add: now_def sk(1)) (simp add: time_ticks_def s')
  moreover have "now s' + unat (currCountdown s') = due s'"
    using sk inv(4) by (intro now_plus) simp_all
  ultimately show ?thesis
    using sk(4) t fire_time [OF inv(1) t(2)] p
    by (simp add: timer_ok_def word_less_nat_alt)
qed

lemma skew_ok:
  assumes ok: "sched_ok s" and t: "0 < ticks"
    and s': "s' = skew_countdown ticks s0" "currCountdown s0 = currCountdown s"
      "currCountdownPeriod s0 = currCountdownPeriod s" "ticksTotal s0 = ticksTotal s"
    and table: "due s' \<le> due s \<Longrightarrow> table_ok (due s') (now s) s0"
  shows "sched_ok s' \<and> time_ticks s' = time_ticks s"
proof -
  have inv: "currCountdown s0 \<le> currCountdownPeriod s0" "0 < currCountdown s0" "due s0 = due s" "due s < 2 ^ 63"
    using ok s' by (auto simp: sched_ok_def sched_inv_def due_def)
  note sk = skew_countdown [OF inv(1,2) t, folded s'(1)]
  have time: "time_ticks s' = time_ticks s"
    by (simp add: sk(1)) (simp add: time_ticks_def s')
  moreover have "table_ok (due s') (now s') s'"
    using table sk(5,6,7) inv(3) by (simp add: table_ok_def now_def time)
  ultimately show ?thesis
    using sk(2,3,7) inv by (simp add: sched_ok_def sched_inv_def)
qed

datatype 'f timer_request =
    Activate nat Bit64u bool
  | Deactivate nat
  | Register "'f option" Bit64u bool bool string
  | Unregister nat
  | Set_param nat Bit32u

fun run_request :: "'f timer_request \<Rightarrow> 'f pc_system \<Rightarrow> 'f pc_system" where
  "run_request (Activate i ticks cont) s = activate_timer_ticks i ticks cont s"
| "run_request (Deactivate i) s = deactivate_timer i s"
| "run_request (Register f ticks cont act ident) s = snd (register_timer_ticks f ticks cont act ident s)"
| "run_request (Unregister i) s = snd (unregisterTimer i s)"
| "run_request (Set_param i p) s = setTimerParam i p s"

text \<open>Requests leave the null timer alone and ask for less than \<open>2 ^ 62\<close> ticks.\<close>

fun request_ok :: "'f timer_request \<Rightarrow> bool" where
  "request_ok (Activate i ticks cont) = (i \<noteq> 0 \<and> ticks \<le> 2 ^ 62)"
| "request_ok (Deactivate i) = (i \<noteq> 0)"
| "request_ok (Register f ticks cont act ident) = (ticks \<le> 2 ^ 62)"
| "request_ok (Unregister i) = (i \<noteq> 0)"
| "request_ok (Set_param i p) = True"

lemma free_slot_bounds: "i \<le> numTimers s \<Longrightarrow> i \<le> free_slot s i \<and> free_slot s i \<le> numTimers s"
  by (induction s i rule: free_slot.induct) (subst (1 2) free_slot.simps, auto)

lemma clamp_le: "ticks \<le> 2 ^ 62 \<Longrightarrow> unat (clamp_period ticks) \<le> 2 ^ 62"
  by (simp add: clamp_pos word_le_nat_alt)

lemma table_ok_insert:
  assumes "table_ok d n s" "d' \<le> d" "i \<noteq> 0" "i \<le> numTimers s" "numTimers s < BX_MAX_TIMERS"
    "active t \<longrightarrow> timer_ok d' n t"
  shows "table_ok d' n (if i = numTimers s then s\<lparr>timer := (timer s)(i := t), numTimers := numTimers s + 1\<rparr>
    else s\<lparr>timer := (timer s)(i := t)\<rparr>)"
  using assms by (auto simp: table_ok_def timer_ok_def less_Suc_eq)

lemma sched_ok_tables: "sched_ok s \<Longrightarrow> table_ok (due s) (now s) s"
  by (simp add: sched_ok_def sched_inv_def)

lemma skew_request:
  assumes ok: "sched_ok s" and t: "ticks \<le> 2 ^ 62"
    and s0: "currCountdown s0 = currCountdown s" "currCountdownPeriod s0 = currCountdownPeriod s"
      "ticksTotal s0 = ticksTotal s"
    and x: "period x = clamp_period ticks" "timeToFire x = time_ticks s + clamp_period ticks"
    and table: "\<And>d'. d' \<le> due s \<Longrightarrow> timer_ok d' (now s) x \<Longrightarrow> table_ok d' (now s) s0"
  shows "sched_ok (skew_countdown (clamp_period ticks) s0) \<and>
    time_ticks (skew_countdown (clamp_period ticks) s0) = time_ticks s"
  by (rule skew_ok [OF ok clamp_pos(1) refl s0])
    (rule table, assumption, rule timer_ok_fresh [OF ok clamp_pos(1) clamp_le [OF t] refl s0 x])

lemma activate_ok:
  assumes ok: "sched_ok s" and i: "i \<noteq> 0" and t: "ticks \<le> 2 ^ 62"
  shows "sched_ok (activate_timer_ticks i ticks cont s) \<and>
    time_ticks (activate_timer_ticks i ticks cont s) = time_ticks s"
  unfolding activate_timer_ticks_def Let_def upd_timer_def
  by (rule skew_request [OF ok t, where x = "(timer s i)\<lparr>period := clamp_period ticks,
        timeToFire := time_ticks s + clamp_period ticks, active := True, continuous := cont\<rparr>"])
    (simp_all, rule table_ok_upd [OF sched_ok_tables [OF ok] _ i], simp_all)

lemma skew_numTimers: "skew_countdown ticks (s\<lparr>numTimers := n\<rparr>) = (skew_countdown ticks s)\<lparr>numTimers := n\<rparr>"
  by (simp add: skew_countdown_def)

lemma sched_same:
  assumes "sched_ok s" "currCountdown s' = currCountdown s" "currCountdownPeriod s' = currCountdownPeriod s"
    "ticksTotal s' = ticksTotal s" "table_ok (due s) (now s) s'"
  shows "sched_ok s' \<and> time_ticks s' = time_ticks s"
  using assms by (simp add: sched_ok_def sched_inv_def due_def now_def time_ticks_def)

lemma register_ok:
  fixes s :: "'f pc_system"
  assumes ok: "sched_ok s" and t: "ticks \<le> 2 ^ 62"
  shows "sched_ok (snd (register_timer_ticks f ticks cont act ident s)) \<and>
    time_ticks (snd (register_timer_ticks f ticks cont act ident s)) = time_ticks s"
proof (cases "numTimers s \<ge> BX_MAX_TIMERS")
  case True
  then show ?thesis
    using sched_same [OF ok, of "s\<lparr>pc_panics := pc_panics s @ [Too_many_timers]\<rparr>"] sched_ok_tables [OF ok]
    by (simp add: register_timer_ticks_def Let_def)
next
  case False
  define i where "i = free_slot s 1"
  then have slot: "free_slot s (Suc 0) = i" by simp
  have table: "table_ok (due s) (now s) s" by (rule sched_ok_tables [OF ok])
  then have i: "i \<noteq> 0" "i \<le> numTimers s"
    using free_slot_bounds [of 1 s] by (auto simp: i_def table_ok_def)
  define x :: "'f sys_timer" where "x = (timer s i)\<lparr>inUse := True, period := clamp_period ticks, timeToFire := time_ticks s + clamp_period ticks,
                     active := act, continuous := cont, funct := f,
                     timer_id := take (BxMaxTimerIDLen - 1) ident, param := 0\<rparr>"
  define s0 where "s0 = (if i = numTimers s then s\<lparr>timer := (timer s)(i := x), numTimers := numTimers s + 1\<rparr>
    else s\<lparr>timer := (timer s)(i := x)\<rparr>)"
  have s0: "currCountdown s0 = currCountdown s" "currCountdownPeriod s0 = currCountdownPeriod s"
      "ticksTotal s0 = ticksTotal s"
    by (simp_all add: s0_def)
  have ins: "table_ok d' (now s) s0" if "d' \<le> due s" "active x \<longrightarrow> timer_ok d' (now s) x" for d'
    unfolding s0_def using table_ok_insert [OF table that(1) i _ that(2)] False by simp
  have "snd (register_timer_ticks f ticks cont act ident s) =
      (if act then skew_countdown (clamp_period ticks) s0 else s0)"
    using False
    by (simp add: register_timer_ticks_def Let_def upd_timer_def s0_def x_def skew_numTimers skew_countdown_def slot)
  moreover have "sched_ok (skew_countdown (clamp_period ticks) s0) \<and>
      time_ticks (skew_countdown (clamp_period ticks) s0) = time_ticks s"
    by (rule skew_request [OF ok t s0, of x]) (simp add: x_def, simp add: x_def, rule ins, assumption, blast)
  moreover have "sched_ok s0 \<and> time_ticks s0 = time_ticks s" if "\<not> act"
    using that by (intro sched_same [OF ok s0] ins) (simp_all add: x_def)
  ultimately show ?thesis by simp
qed

lemma unregister_ok:
  assumes ok: "sched_ok s" and i: "i \<noteq> 0"
  shows "sched_ok (snd (unregisterTimer i s)) \<and> time_ticks (snd (unregisterTimer i s)) = time_ticks s"
  by (rule sched_same [OF ok])
    (use sched_ok_tables [OF ok] i in \<open>auto simp: unregisterTimer_def Let_def upd_timer_def table_ok_def\<close>)

lemma deactivate_ok:
  assumes ok: "sched_ok s" and i: "i \<noteq> 0"
  shows "sched_ok (deactivate_timer i s) \<and> time_ticks (deactivate_timer i s) = time_ticks s"
  by (rule sched_same [OF ok])
    (use sched_ok_tables [OF ok] i in \<open>auto simp: deactivate_timer_def upd_timer_def table_ok_def\<close>)

lemma param_ok:
  assumes ok: "sched_ok s"
  shows "sched_ok (setTimerParam i p s) \<and> time_ticks (setTimerParam i p s) = time_ticks s"
  by (rule sched_same [OF ok])
    (use sched_ok_tables [OF ok] in \<open>auto simp: setTimerParam_def upd_timer_def table_ok_def timer_ok_def\<close>)

lemma requests_keep:
  "sched_ok s \<Longrightarrow> request_ok r \<Longrightarrow> sched_ok (run_request r s) \<and> time_ticks (run_request r s) = time_ticks s"
  by (cases r) (simp_all add: activate_ok register_ok unregister_ok deactivate_ok param_ok)

section \<open>The event\<close>

text \<open>What the scan does to one timer at time \<open>T\<close>.\<close>

definition is_due :: "Bit64u \<Rightarrow> 'f sys_timer \<Rightarrow> bool" where
  "is_due T t \<longleftrightarrow> active t \<and> T = timeToFire t"

definition scanned :: "Bit64u \<Rightarrow> 'f sys_timer \<Rightarrow> 'f sys_timer" where
  "scanned T t =
    (if is_due T t then
       (if continuous t then t\<lparr>timeToFire := timeToFire t + period t\<rparr> else t\<lparr>active := False\<rparr>)
     else t)"

text \<open>The earliest time to fire of the first \<open>k\<close> timers, and a range of indices that holds all due ones.\<close>

definition min_ok :: "(nat \<Rightarrow> 'f sys_timer) \<Rightarrow> nat \<Rightarrow> Bit64u \<Rightarrow> bool" where
  "min_ok f k m \<longleftrightarrow>
    (\<forall>i<k. active (f i) \<longrightarrow> m \<le> timeToFire (f i)) \<and>
    (m = -1 \<or> (\<exists>i<k. active (f i) \<and> m = timeToFire (f i)))"

definition range_ok :: "(nat \<Rightarrow> bool) \<Rightarrow> nat \<Rightarrow> nat \<Rightarrow> nat \<Rightarrow> bool" where
  "range_ok P k a b \<longleftrightarrow> {i. i < k \<and> P i} \<subseteq> {a..b} \<and> {a..b} \<subseteq> {..<k}"

lemma min_less:
  fixes a b :: "'a::linorder"
  shows "min a b = (if a < b then a else b)"
  by auto

lemma min_ok_step:
  "min_ok f k m \<Longrightarrow> min_ok f (Suc k) (if active (f k) then min (timeToFire (f k)) m else m)"
  by (cases "active (f k)")
    (auto simp: min_ok_def less_Suc_eq min_def word_order.extremum_unique)

lemma range_ok_step:
  "range_ok P k a b \<Longrightarrow> range_ok P (Suc k) (if P k then min a k else a) (if P k then k else b)"
proof (cases "P k")
  case True
  assume r: "range_ok P k a b"
  have "i \<in> {min a k..k}" if "i < Suc k" "P i" for i
    using r that by (cases "i = k") (auto simp: range_ok_def dest: subsetD [where c = i])
  then have "{i. i < Suc k \<and> P i} \<subseteq> {min a k..k}" by blast
  moreover have "{min a k..k} \<subseteq> {..<Suc k}" by auto
  ultimately show ?thesis using True by (simp add: range_ok_def)
next
  case False
  assume r: "range_ok P k a b"
  have "{i. i < Suc k \<and> P i} = {i. i < k \<and> P i}" using False by (auto simp: less_Suc_eq)
  moreover have "{a..b} \<subseteq> {..<Suc k}"
  proof
    fix i assume "i \<in> {a..b}"
    then have "i \<in> {..<k}" using r unfolding range_ok_def by blast
    then show "i \<in> {..<Suc k}" by simp
  qed
  ultimately show ?thesis using r False by (simp add: range_ok_def)
qed

definition after_scan :: "'f pc_system \<Rightarrow> nat \<Rightarrow> nat \<Rightarrow> 'f sys_timer" where
  "after_scan s k i = (if i < k then scanned (ticksTotal s) (timer s i) else timer s i)"

lemma after_scan_0: "after_scan s 0 = timer s"
  by (simp add: after_scan_def fun_eq_iff)

lemma after_scan_Suc:
  "after_scan s (Suc k) = (after_scan s k)(k := scanned (ticksTotal s) (timer s k))"
  by (auto simp: after_scan_def less_Suc_eq)

definition scan_inv :: "'f pc_system \<Rightarrow> nat \<Rightarrow> 'f scan \<Rightarrow> bool" where
  "scan_inv s k c \<longleftrightarrow>
    sc_sys c = s\<lparr>timer := after_scan s k\<rparr> \<and>
    triggered c = (\<lambda>i. i < k \<and> is_due (ticksTotal s) (timer s i)) \<and>
    range_ok (\<lambda>i. is_due (ticksTotal s) (timer s i)) k (first_i c) (last_i c) \<and>
    min_ok (\<lambda>i. scanned (ticksTotal s) (timer s i)) k (minTimeToFire c)"

lemma scan_inv_step:
  fixes s :: "'f pc_system"
  assumes inv: "scan_inv s k c"
  shows "scan_inv s (Suc k) (scan_timer k c)"
proof -
  let ?t = "timer s k" and ?T = "ticksTotal s" and ?c = "scan_timer k c"
  have sys: "sc_sys c = s\<lparr>timer := after_scan s k\<rparr>"
    and trig: "triggered c = (\<lambda>i. i < k \<and> is_due ?T (timer s i))"
    using inv by (simp_all add: scan_inv_def)
  have k: "after_scan s k k = ?t" by (simp add: after_scan_def)
  have stay: "(after_scan s k)(k := ?t) = after_scan s k" by (auto simp: k)
  have trigS: "(triggered c)(k := is_due ?T ?t) = (\<lambda>i. i < Suc k \<and> is_due ?T (timer s i))"
    by (rule ext) (simp add: trig less_Suc_eq)
  have "sc_sys ?c = s\<lparr>timer := after_scan s (Suc k)\<rparr>"
    by (simp add: scan_timer_def scan_min_def Let_def sys k after_scan_Suc scanned_def is_due_def upd_timer_def stay)
  moreover have "triggered ?c = (\<lambda>i. i < Suc k \<and> is_due ?T (timer s i))"
    unfolding trigS [symmetric] by (simp add: scan_timer_def scan_min_def Let_def sys k is_due_def)
  moreover have "first_i ?c = (if is_due ?T ?t then min (first_i c) k else first_i c)"
    by (simp add: scan_timer_def scan_min_def Let_def sys k is_due_def min_less)
  moreover have "last_i ?c = (if is_due ?T ?t then k else last_i c)"
    by (simp add: scan_timer_def scan_min_def Let_def sys k is_due_def)
  moreover have "minTimeToFire ?c = (if active (scanned ?T ?t) then min (timeToFire (scanned ?T ?t)) (minTimeToFire c)
      else minTimeToFire c)"
    by (simp add: scan_timer_def scan_min_def Let_def sys k is_due_def scanned_def upd_timer_def min_less)
  moreover have "range_ok (\<lambda>i. is_due ?T (timer s i)) k (first_i c) (last_i c)"
    using inv by (simp add: scan_inv_def)
  note range_ok_step [OF this]
  moreover have "min_ok (\<lambda>i. scanned ?T (timer s i)) k (minTimeToFire c)"
    using inv by (simp add: scan_inv_def)
  note min_ok_step [OF this]
  ultimately show ?thesis
    by (simp only: scan_inv_def simp_thms)
qed

lemma scan_timers_inv:
  assumes "0 < numTimers s"
  shows "scan_inv s (numTimers s) (scan_timers s)"
proof -
  have "scan_inv s k (fold scan_timer [0..<k]
      \<lparr>sc_sys = s, first_i = numTimers s, last_i = 0, minTimeToFire = -1, triggered = (\<lambda>_. False)\<rparr>)" for k
  proof (induction k)
    case 0
    then show ?case
      using assms by (simp add: scan_inv_def after_scan_0 range_ok_def min_ok_def)
  next
    case (Suc k)
    then show ?case by (simp add: scan_inv_step)
  qed
  then show ?thesis by (simp add: scan_timers_def)
qed

lemma fold_filter:
  assumes "\<And>x. \<not> P x \<Longrightarrow> f x = (\<lambda>st. st)"
  shows "fold f xs st = fold f (filter P xs) st"
  by (induction xs arbitrary: st) (simp_all add: assms)

lemma filter_range:
  assumes r: "range_ok P n a b" and P: "\<And>i. P i \<Longrightarrow> i < n"
  shows "filter P [a..<b + 1] = filter P [0..<n]"
proof (rule sorted_distinct_set_unique)
  have "set [a..<b + 1] = {a..b}" by auto
  then have "set (filter P [a..<b + 1]) = {a..b} \<inter> Collect P" by auto
  also have "\<dots> = {0..<n} \<inter> Collect P"
  proof (rule set_eqI)
    fix i
    have "P i \<Longrightarrow> i \<in> {a..b}"
      using r P [of i] unfolding range_ok_def by blast
    then show "i \<in> {a..b} \<inter> Collect P \<longleftrightarrow> i \<in> {0..<n} \<inter> Collect P"
      using P [of i] by (cases "P i") simp_all
  qed
  also have "\<dots> = set (filter P [0..<n])"
    by auto
  finally show "set (filter P [a..<b + 1]) = set (filter P [0..<n])" .
qed (simp_all add: sorted_wrt_filter del: upt_Suc)

text \<open>The service as the event leaves it to the handlers.\<close>

definition rearmed :: "'f pc_system \<Rightarrow> 'f pc_system" where
  "rearmed s =
    (let s = s\<lparr>ticksTotal := ticksTotal s + ucast (currCountdownPeriod s)\<rparr>;
         c = scan_timers s;
         s = sc_sys c;
         next = ucast (minTimeToFire c - ticksTotal s)
     in s\<lparr>currCountdown := next, currCountdownPeriod := next\<rparr>)"

definition due_now :: "'f pc_system \<Rightarrow> nat \<Rightarrow> bool" where
  "due_now s i \<longleftrightarrow> i < numTimers s \<and> is_due (ticksTotal s + ucast (currCountdownPeriod s)) (timer s i)"

lemma countdownEvent_eq:
  assumes "0 < numTimers s"
  shows "countdownEvent call (s, w) = fold (fire_timer call (due_now s)) [0..<numTimers s] (rearmed s, w)"
proof -
  define s' where "s' = s\<lparr>ticksTotal := ticksTotal s + ucast (currCountdownPeriod s)\<rparr>"
  define c where "c = scan_timers s'"
  have inv: "scan_inv s' (numTimers s) c"
    using scan_timers_inv [of s'] assms by (simp add: c_def s'_def)
  have trig: "triggered c = due_now s"
    using inv by (auto simp: scan_inv_def s'_def due_now_def fun_eq_iff)
  have skip: "fire_timer call (due_now s) i = (\<lambda>st. st)" if "\<not> due_now s i" for i
    using that by (simp add: fire_timer_def fun_eq_iff)
  have "filter (due_now s) [first_i c..<last_i c + 1] = filter (due_now s) [0..<numTimers s]"
  proof (rule filter_range)
    show "range_ok (due_now s) (numTimers s) (first_i c) (last_i c)"
      using inv by (simp add: scan_inv_def range_ok_def due_now_def s'_def)
    show "i < numTimers s" if "due_now s i" for i
      using that by (simp add: due_now_def)
  qed
  then have "fold (fire_timer call (due_now s)) [first_i c..<last_i c + 1] st =
      fold (fire_timer call (due_now s)) [0..<numTimers s] st" for st
    using fold_filter [of "due_now s" "fire_timer call (due_now s)", OF skip] by metis
  then show ?thesis
    unfolding countdownEvent_def rearmed_def Let_def fst_conv snd_conv s'_def [symmetric] c_def [symmetric] trig
    by simp
qed

lemma unat_narrow: "unat (x :: Bit64u) < 2 ^ 32 \<Longrightarrow> unat (ucast x :: Bit32u) = unat x"
  by (simp add: unsigned_ucast_eq take_bit_nat_eq_self)

lemma scanned_keeps:
  "continuous t \<Longrightarrow> active (scanned T t) = active t"
  "active (scanned T t) \<Longrightarrow> active t"
  "continuous (scanned T t) = continuous t" "period (scanned T t) = period t" "funct (scanned T t) = funct t"
  by (auto simp: scanned_def split: if_splits)

lemma scanned_ok:
  assumes ok: "timer_ok n n t" and T: "unat T = n" "n < 2 ^ 62" and act: "active (scanned T t)"
  shows "n < unat (timeToFire (scanned T t))"
    and "unat (timeToFire (scanned T t)) \<le> n + unat (period t)"
proof -
  have "unat (timeToFire t + period t) = n + unat (period t)" if "T = timeToFire t"
    using ok T that by (subst unat_sum) (auto simp: timer_ok_def)
  moreover have "n \<noteq> unat (timeToFire t)" if "T \<noteq> timeToFire t"
    using that T(1) by (auto dest: word_unat_eq_iff [THEN iffD2])
  ultimately show "n < unat (timeToFire (scanned T t))" "unat (timeToFire (scanned T t)) \<le> n + unat (period t)"
    using ok act by (auto simp: scanned_def is_due_def timer_ok_def split: if_splits)
qed

lemma rearmed_ok:
  assumes inv: "sched_inv s" and zero: "currCountdown s = 0" and n: "now s < 2 ^ 62"
  shows "sched_ok (rearmed s)" and "time_ticks (rearmed s) = time_ticks s"
    and "timer (rearmed s) = (\<lambda>i. if i < numTimers s then scanned (time_ticks s) (timer s i) else timer s i)"
    and "numTimers (rearmed s) = numTimers s"
proof -
  define T where "T = ticksTotal s + ucast (currCountdownPeriod s)"
  define s' where "s' = s\<lparr>ticksTotal := T\<rparr>"
  define c where "c = scan_timers s'"
  let ?f = "\<lambda>i. scanned T (timer s i)" and ?m = "minTimeToFire c" and ?n = "numTimers s"
  let ?next = "ucast (?m - T) :: Bit32u"
  have time: "time_ticks s = T" by (simp add: time_ticks_def zero T_def)
  have T: "unat T = now s" by (simp add: now_def time)
  have due: "due s = now s" using now_plus_countdown [OF inv] zero by simp
  have table: "table_ok (now s) (now s) s" using inv by (simp add: sched_inv_def due)
  then have "scan_inv s' ?n c"
    using scan_timers_inv [of s'] by (simp add: c_def s'_def table_ok_def)
  then have sys: "sc_sys c = s'\<lparr>timer := after_scan s' ?n\<rparr>" and min: "min_ok ?f ?n ?m"
    by (simp_all add: scan_inv_def s'_def)
  have fires: "now s < unat (timeToFire (?f i)) \<and> unat (timeToFire (?f i)) \<le> now s + unat (period (timer s i))"
    if "i < ?n" "active (?f i)" for i
    using table that scanned_keeps(2) [OF that(2)] scanned_ok [OF _ T n that(2)]
    by (simp add: table_ok_def)
  have zero_ok: "0 < ?n" "active (?f 0)" "unat (timeToFire (?f 0)) \<le> now s + 0xffffffff"
    using table fires [of 0] by (auto simp: table_ok_def scanned_keeps NullTimerInterval_def)
  have le0: "unat ?m \<le> now s + 0xffffffff"
  proof -
    have "?m \<le> timeToFire (?f 0)" using min zero_ok by (simp add: min_ok_def)
    then show ?thesis using zero_ok(3) by (simp add: word_le_nat_alt)
  qed
  then have "?m \<noteq> - 1"
    using n by (auto simp: unsigned_minus_1_eq_mask mask_eq_exp_minus_1)
  then obtain k where k: "k < ?n" "active (?f k)" "?m = timeToFire (?f k)"
    using min by (auto simp: min_ok_def)
  then have m: "now s < unat ?m" using fires by simp
  then have "unat (?m - T) = unat ?m - now s"
    using T by (subst unat_diff) (simp_all add: word_le_nat_alt)
  then have next_eq: "unat ?next = unat ?m - now s"
    using le0 by (subst unat_narrow) simp_all
  have r: "rearmed s = s'\<lparr>timer := after_scan s' ?n, currCountdown := ?next, currCountdownPeriod := ?next\<rparr>"
    by (simp add: rearmed_def Let_def sys flip: T_def s'_def c_def) (simp add: s'_def)
  show tim: "timer (rearmed s) = (\<lambda>i. if i < ?n then scanned (time_ticks s) (timer s i) else timer s i)"
    "numTimers (rearmed s) = ?n" "time_ticks (rearmed s) = time_ticks s"
    by (simp_all add: r s'_def after_scan_def fun_eq_iff time) (simp add: time_ticks_def)
  have due': "due (rearmed s) = unat ?m"
    using T m next_eq by (simp add: r due_def s'_def)
  have "timer_ok (unat ?m) (now s) (?f i)" if "i < ?n" "active (?f i)" for i
  proof -
    have "?m \<le> timeToFire (?f i)" using min that by (simp add: min_ok_def)
    moreover have "timer_ok (now s) (now s) (timer s i)"
      using table that scanned_keeps(2) by (auto simp: table_ok_def)
    ultimately show ?thesis
      using fires [OF that] by (simp add: timer_ok_def scanned_keeps word_le_nat_alt)
  qed
  moreover have "timer (rearmed s) i = ?f i" if "i < ?n" for i
    using that by (simp add: tim time)
  moreover have "?n \<le> BX_MAX_TIMERS" "continuous (timer s 0)" "period (timer s 0) = NullTimerInterval"
    using table by (simp_all add: table_ok_def)
  ultimately have "table_ok (unat ?m) (now s) (rearmed s)"
    using zero_ok(1,2) by (simp add: table_ok_def tim(2) scanned_keeps(3,4))
  moreover have "now (rearmed s) = now s" by (simp add: now_def tim)
  moreover have "0 < ?next" using next_eq m by (simp add: word_less_nat_alt)
  ultimately show "sched_ok (rearmed s)"
    using le0 n by (simp add: sched_ok_def sched_inv_def due') (simp add: r)
qed

section \<open>Handlers\<close>

text \<open>
  What the service needs of the handlers it calls: in a state they find sound they keep the
  table sound and let no time pass. The service, between two calls, only lets
  time advance, counts down and changes \<open>active\<close>, \<open>timeToFire\<close> and \<open>triggeredTimer\<close>.
\<close>

definition same_timer :: "'f sys_timer \<Rightarrow> 'f sys_timer \<Rightarrow> bool" where
  "same_timer t t' \<longleftrightarrow> inUse t' = inUse t \<and> period t' = period t \<and> funct t' = funct t \<and> continuous t' = continuous t"

definition advances :: "'f pc_system \<Rightarrow> 'f pc_system \<Rightarrow> bool" where
  "advances s s' \<longleftrightarrow> time_ticks s \<le> time_ticks s' \<and> numTimers s' = numTimers s \<and>
    (\<forall>i. same_timer (timer s i) (timer s' i))"

text \<open>Counting down \<open>k\<close> ticks.\<close>

lemma count_down:
  assumes inv: "sched_inv s" and k: "k \<le> currCountdown s"
  defines "s' \<equiv> s\<lparr>currCountdown := currCountdown s - k\<rparr>"
  shows "sched_inv s'" and "now s' = now s + unat k" and "time_ticks s' = time_ticks s + ucast k" and "due s' = due s"
proof -
  have due: "due s' = due s" by (simp add: s'_def due_def)
  have le: "currCountdown s' \<le> currCountdownPeriod s'"
    using inv k word_sub_le [OF k] by (auto simp: s'_def sched_inv_def)
  have c: "unat (currCountdown s') = unat (currCountdown s) - unat k"
    using k by (simp add: s'_def unat_diff)
  have "now s' + unat (currCountdown s') = due s"
    using now_plus [OF le] inv by (simp add: due sched_inv_def)
  then show now: "now s' = now s + unat k"
    using now_plus_countdown [OF inv] k c by (simp add: word_le_nat_alt)
  have "now s + unat k < 2 ^ 64"
    using now_plus_countdown [OF inv] inv k by (simp add: sched_inv_def word_le_nat_alt)
  then show "time_ticks s' = time_ticks s + ucast k"
    using now by (intro word_unat_eq_iff [THEN iffD2]) (simp add: now_def unat_sum)
  have "table_ok (due s') (now s') s"
    using inv now due by (auto simp: sched_inv_def table_ok_def timer_ok_def)
  then show "sched_inv s'"
    using le due inv by (simp add: sched_inv_def) (simp add: s'_def)
  show "due s' = due s" by (rule due)
qed

lemma advances_count_down: "sched_inv s \<Longrightarrow> k \<le> currCountdown s \<Longrightarrow>
    advances s (s\<lparr>currCountdown := currCountdown s - k\<rparr>)"
  using count_down(2) [of s k] by (simp add: advances_def same_timer_def word_le_nat_alt now_def)

lemma tickn_0: "0 < currCountdown (fst st) \<Longrightarrow> tickn call 0 st = Some st"
  by (subst tickn.simps) (simp add: word_gt_0)

lemma tickn_Suc:
  assumes c: "0 < currCountdown (fst st)" and n: "n + 1 \<noteq> 0"
  shows "tickn call (n + 1) st = tickn call n (tick1 call st)"
proof (cases "currCountdown (fst st) = 1")
  case True
  then show ?thesis
    using n by (subst tickn.simps) (simp add: tick1_def Let_def word_le_nat_alt unat_gt_0 Suc_le_eq del: unat_1)
next
  case False
  let ?c = "currCountdown (fst st)"
  have c1: "?c - 1 \<noteq> 0" using False by simp
  have tick: "tick1 call st = (fst st\<lparr>currCountdown := ?c - 1\<rparr>, snd st)"
    using c1 by (simp add: tick1_def Let_def)
  have le: "?c \<le> 1 + n \<longleftrightarrow> ?c - 1 \<le> n"
    using unatSuc [of n] n c by (simp add: word_le_nat_alt unat_minus_one word_gt_0 add.commute le_diff_conv)
  show ?thesis
    by (subst (1 2) tickn.simps) (simp add: tick le algebra_simps)
qed

locale timer_handlers =
  fixes call :: "('f, 'w) handler" and ready :: "'f pc_system \<Rightarrow> 'w \<Rightarrow> bool"
  assumes call_keeps: "sched_ok s \<Longrightarrow> ready s w \<Longrightarrow>
      (case call f (s, w) of (s', w') \<Rightarrow> sched_ok s' \<and> time_ticks s' = time_ticks s \<and> ready s' w')"
    and ready_advances: "ready s w \<Longrightarrow> advances s s' \<Longrightarrow> ready s' w"
begin

definition good :: "Bit64u \<Rightarrow> 'f pc_system \<times> 'w \<Rightarrow> bool" where
  "good T st \<longleftrightarrow> sched_ok (fst st) \<and> ready (fst st) (snd st) \<and> time_ticks (fst st) = T"

lemma triggered_ok:
  "sched_ok (s\<lparr>triggeredTimer := i\<rparr>) = sched_ok s"
  "time_ticks (s\<lparr>triggeredTimer := i\<rparr>) = time_ticks s"
  "ready s w \<Longrightarrow> ready (s\<lparr>triggeredTimer := i\<rparr>) w"
  by (simp_all add: sched_ok_def sched_inv_def due_def now_def time_ticks_def)
    (rule ready_advances, assumption, simp add: advances_def same_timer_def time_ticks_def)

lemma fire_good:
  assumes "good T st"
  shows "good T (fire_timer call trig i st)"
proof (cases "trig i \<and> funct (timer (fst st) i) \<noteq> None")
  case True
  then obtain f where f: "trig i" "funct (timer (fst st) i) = Some f" by auto
  obtain s' w' where c: "call f ((fst st)\<lparr>triggeredTimer := i\<rparr>, snd st) = (s', w')" by fastforce
  have "sched_ok s' \<and> time_ticks s' = T \<and> ready s' w'"
    using call_keeps [of "(fst st)\<lparr>triggeredTimer := i\<rparr>" "snd st" f] assms
    by (simp add: good_def triggered_ok c)
  then show ?thesis
    by (simp add: good_def fire_timer_def f c triggered_ok)
next
  case False
  then show ?thesis
    using assms by (auto simp: fire_timer_def split: option.splits bool.splits)
qed

lemma fires_good: "good T st \<Longrightarrow> good T (fold (fire_timer call trig) is st)"
  by (induction "is" arbitrary: st) (simp_all add: fire_good)

lemma event_good:
  assumes inv: "sched_inv s" and zero: "currCountdown s = 0" and n: "now s < 2 ^ 62" and ready: "ready s w"
  shows "good (time_ticks s) (countdownEvent call (s, w))"
proof -
  note r = rearmed_ok [OF inv zero n]
  have "advances s (rearmed s)"
    by (simp add: advances_def same_timer_def r scanned_def)
  then have "good (time_ticks s) (rearmed s, w)"
    using r ready_advances [OF ready] by (simp add: good_def)
  moreover have "0 < numTimers s" using inv by (simp add: sched_inv_def table_ok_def)
  ultimately show ?thesis
    using countdownEvent_eq fires_good by metis
qed

lemma tick1_good:
  assumes g: "good T st" and n: "unat T + 1 < 2 ^ 62"
  shows "good (T + 1) (tick1 call st)"
proof -
  obtain s w where st: "st = (s, w)" by fastforce
  define s' where "s' = s\<lparr>currCountdown := currCountdown s - 1\<rparr>"
  have ok: "sched_inv s" "ready s w" "time_ticks s = T" and k: "1 \<le> currCountdown s"
    using g by (auto simp: good_def st sched_ok_def word_le_nat_alt unat_gt_0 Suc_le_eq)
  note cd = count_down [OF ok(1) k, folded s'_def] 
  have ready: "ready s' w"
    unfolding s'_def by (rule ready_advances [OF ok(2) advances_count_down [OF ok(1) k]])
  show ?thesis
  proof (cases "currCountdown s' = 0")
    case True
    have "now s' < 2 ^ 62" using cd(2) n ok(3) by (simp add: now_def)
    then have "good (time_ticks s') (countdownEvent call (s', w))"
      by (rule event_good [OF cd(1) True _ ready])
    then show ?thesis using True cd(3) ok(3) by (simp add: tick1_def st flip: s'_def)
  next
    case False
    then have "good (T + 1) (s', w)"
      using cd ready ok(3) by (simp add: good_def sched_ok_def word_gt_0)
    then show ?thesis using False by (simp add: tick1_def st flip: s'_def)
  qed
qed

lemma ticks_good: "good T st \<Longrightarrow> unat T + n < 2 ^ 62 \<Longrightarrow> good (T + of_nat n) ((tick1 call ^^ n) st)"
proof (induction n)
  case (Suc n)
  have T: "unat (T + of_nat n) = unat T + n"
    using Suc.prems(2) by (simp add: unat_sum unat_of_nat take_bit_nat_eq_self)
  have "good (T + of_nat n + 1) (tick1 call ((tick1 call ^^ n) st))"
    using Suc T by (intro tick1_good) simp_all
  then show ?case by (simp add: algebra_simps)
qed simp

lemma tickn_ticks:
  assumes "good T st" and "unat T + unat n < 2 ^ 62"
  shows "tickn call n st = Some ((tick1 call ^^ unat n) st)"
proof -
  have "tickn call n st = Some ((tick1 call ^^ m) st)" if "unat n = m" for m
    using assms that
  proof (induction m arbitrary: n st T)
    case 0
    then show ?case by (simp add: good_def sched_ok_def tickn_0 unat_eq_0)
  next
    case (Suc m)
    then have c: "0 < currCountdown (fst st)" by (simp add: good_def sched_ok_def)
    have n0: "n \<noteq> 0" using Suc.prems(3) by auto
    then have m: "unat (n - 1) = m" using Suc.prems(3) by (simp add: unat_minus_one)
    have T: "unat (T + 1) = unat T + 1"
      using Suc.prems(2,3) by (simp add: unat_sum)
    have "tickn call (n - 1 + 1) st = tickn call (n - 1) (tick1 call st)"
      using n0 by (intro tickn_Suc c) simp
    also have "\<dots> = Some ((tick1 call ^^ m) (tick1 call st))"
      using Suc.prems T m by (intro Suc.IH [of "T + 1"] tick1_good) simp_all
    finally show ?case by (simp add: funpow_swap1)
  qed
  then show ?thesis by simp
qed

end

section \<open>The schedule\<close>

text \<open>A handler that only notes its timer and the time.\<close>

definition recorder :: "('f, (nat \<times> nat) list) handler" where
  "recorder f st = (fst st, snd st @ [(triggeredTimer (fst st), now (fst st))])"

interpretation recorder: timer_handlers recorder "\<lambda>_ _. True"
  by unfold_locales (simp_all add: recorder_def)

definition fires_at :: "'f sys_timer \<Rightarrow> nat \<Rightarrow> bool" where
  "fires_at x t \<longleftrightarrow> active x \<and> funct x \<noteq> None \<and>
    (if continuous x then unat (timeToFire x) \<le> t \<and> unat (period x) dvd (t - unat (timeToFire x))
     else t = unat (timeToFire x))"

definition fired_at :: "'f pc_system \<Rightarrow> nat \<Rightarrow> (nat \<times> nat) list" where
  "fired_at s t = map (\<lambda>i. (i, t)) (filter (\<lambda>i. fires_at (timer s i) t) [0..<numTimers s])"

definition schedule :: "'f pc_system \<Rightarrow> nat \<Rightarrow> (nat \<times> nat) list" where
  "schedule s n = concat (map (fired_at s) [now s + 1..<now s + n + 1])"

lemma periodic_next:
  fixes n p u :: nat
  assumes "0 < p" "n < u"
  shows "(n + p \<le> u \<and> p dvd (u - (n + p))) \<longleftrightarrow> p dvd (u - n)"
proof
  assume *: "n + p \<le> u \<and> p dvd (u - (n + p))"
  then have "u - n = (u - (n + p)) + p" by simp
  then show "p dvd (u - n)" using * by (metis dvd_add dvd_refl)
next
  assume *: "p dvd (u - n)"
  then have "p \<le> u - n" using assms by (intro dvd_imp_le) simp_all
  moreover have "u - (n + p) = (u - n) - p" by simp
  ultimately show "n + p \<le> u \<and> p dvd (u - (n + p))"
    using * by (metis dvd_diff_nat dvd_refl le_diff_conv2 add.commute assms(2) less_imp_le)
qed

lemma fires_scanned:
  assumes ok: "active x \<longrightarrow> timer_ok n n x" and T: "unat T = n" "n < 2 ^ 62" and u: "n < u"
  shows "fires_at (scanned T x) u = fires_at x u"
proof (cases "is_due T x")
  case False
  then show ?thesis by (simp add: scanned_def)
next
  case True
  then have x: "active x" "unat (timeToFire x) = n" "timeToFire x = T" "0 < unat (period x)" "unat (period x) \<le> 2 ^ 62"
    using ok T by (auto simp: is_due_def timer_ok_def)
  then have sum: "unat (timeToFire x + period x) = n + unat (period x)"
    using T by (subst unat_sum) simp_all
  then show ?thesis
    using True x u periodic_next [of "unat (period x)" n u] by (simp add: fires_at_def scanned_def)
qed

lemma record_fold:
  "timer (fst (fold (fire_timer recorder trig) is (s, w))) = timer s \<and>
   numTimers (fst (fold (fire_timer recorder trig) is (s, w))) = numTimers s \<and>
   snd (fold (fire_timer recorder trig) is (s, w)) =
     w @ map (\<lambda>i. (i, now s)) (filter (\<lambda>i. trig i \<and> funct (timer s i) \<noteq> None) is)"
proof (induction "is" arbitrary: s w)
  case (Cons i "is")
  have now: "now (s\<lparr>triggeredTimer := k\<rparr>) = now s" for k
    by (simp add: now_def time_ticks_def)
  show ?case
  proof (cases "trig i \<and> funct (timer s i) \<noteq> None")
    case True
    then have "fire_timer recorder trig i (s, w) = (s\<lparr>triggeredTimer := 0\<rparr>, w @ [(i, now s)])"
      by (auto simp: fire_timer_def recorder_def now)
    then show ?thesis
      using True Cons.IH [of "s\<lparr>triggeredTimer := 0\<rparr>" "w @ [(i, now s)]"] by (simp add: now)
  next
    case False
    then have "fire_timer recorder trig i (s, w) = (s, w)"
      by (auto simp: fire_timer_def split: option.splits bool.splits)
    then show ?thesis using False Cons.IH by simp
  qed
qed simp

lemma record_tick:
  assumes ok: "sched_ok s" and n: "now s + 1 < 2 ^ 62" and tick: "tick1 recorder (s, w) = (s', w')"
  shows "w' = w @ fired_at s (now s + 1)" and "numTimers s' = numTimers s"
    and "i < numTimers s \<Longrightarrow> now s + 1 < u \<Longrightarrow> fires_at (timer s' i) u = fires_at (timer s i) u"
proof -
  define s1 where "s1 = s\<lparr>currCountdown := currCountdown s - 1\<rparr>"
  have inv: "sched_inv s" and k: "1 \<le> currCountdown s"
    using ok by (auto simp: sched_ok_def word_le_nat_alt unat_gt_0 Suc_le_eq)
  note cd = count_down [OF inv k, folded s1_def]
  have table: "timer_ok (due s) (now s) (timer s i)" if "i < numTimers s" "active (timer s i)" for i
    using ok that by (simp add: sched_ok_def sched_inv_def table_ok_def)
  have "w' = w @ fired_at s (now s + 1) \<and> numTimers s' = numTimers s \<and>
    (\<forall>i u. i < numTimers s \<longrightarrow> now s + 1 < u \<longrightarrow> fires_at (timer s' i) u = fires_at (timer s i) u)"
  proof (cases "currCountdown s1 = 0")
    case False
    have "\<not> fires_at (timer s i) (now s + 1)" if "i < numTimers s" for i
    proof -
      have "now s + 1 < due s"
        using now_plus_countdown [OF cd(1)] False cd(2,4) by (simp add: unat_gt_0 word_gt_0 flip: unat_gt_0)
      then show ?thesis using table [OF that] by (auto simp: fires_at_def timer_ok_def)
    qed
    then have "fired_at s (now s + 1) = []"
      by (simp add: fired_at_def)
    then show ?thesis
      using tick False by (auto simp: tick1_def s1_def)
  next
    case True
    have now1: "now s1 = now s + 1" "now s1 < 2 ^ 62" using cd n by simp_all
    have due1: "due s = now s + 1" using now_plus_countdown [OF cd(1)] True cd(4) now1 by simp
    note r = rearmed_ok [OF cd(1) True now1(2)]
    have T: "time_ticks s1 = ticksTotal s1 + ucast (currCountdownPeriod s1)" "unat (time_ticks s1) = now s + 1"
      using True now1 by (simp_all add: time_ticks_def now_def)
    have same: "timer s1 = timer s" "numTimers s1 = numTimers s" by (simp_all add: s1_def)
    have pos: "0 < numTimers s1" using cd(1) by (simp add: sched_inv_def table_ok_def)
    have ev: "(s', w') = fold (fire_timer recorder (due_now s1)) [0..<numTimers s] (rearmed s1, w)"
      using tick True countdownEvent_eq [OF pos, of recorder w] by (simp add: tick1_def same flip: s1_def)
    have fires: "(due_now s1 i \<and> funct (timer (rearmed s1) i) \<noteq> None) = fires_at (timer s i) (now s + 1)"
      if "i < numTimers s" for i
    proof -
      have "time_ticks s1 = timeToFire (timer s i) \<longleftrightarrow> unat (timeToFire (timer s i)) = now s + 1"
        using T(2) by (metis word_unat_eq_iff)
      moreover have "due_now s1 i \<longleftrightarrow> active (timer s i) \<and> time_ticks s1 = timeToFire (timer s i)"
        using that by (simp add: due_now_def is_due_def T(1) same)
      moreover have "funct (timer (rearmed s1) i) = funct (timer s i)"
        using that by (simp add: r same scanned_keeps)
      moreover have "now s + 1 \<le> unat (timeToFire (timer s i))" if "active (timer s i)"
        using table [OF \<open>i < numTimers s\<close> that] due1 by (simp add: timer_ok_def)
      ultimately show ?thesis
        by (cases "active (timer s i)") (auto simp: fires_at_def)
    qed
    have "w' = w @ map (\<lambda>i. (i, now s + 1)) (filter (\<lambda>i. due_now s1 i \<and> funct (timer (rearmed s1) i) \<noteq> None) [0..<numTimers s])"
      and s': "timer s' = timer (rearmed s1)" "numTimers s' = numTimers s"
      using record_fold [of "due_now s1" "[0..<numTimers s]" "rearmed s1" w] r(2) now1
      by (simp_all add: same now_def r flip: ev)
    moreover have "filter (\<lambda>i. due_now s1 i \<and> funct (timer (rearmed s1) i) \<noteq> None) [0..<numTimers s] =
        filter (\<lambda>i. fires_at (timer s i) (now s + 1)) [0..<numTimers s]"
      using fires by (intro filter_cong) simp_all
    ultimately have "w' = w @ fired_at s (now s + 1)"
      by (simp only: fired_at_def)
    moreover have "fires_at (timer s' i) u = fires_at (timer s i) u" if "i < numTimers s" "now s + 1 < u" for i u
    proof -
      have "active (timer s i) \<longrightarrow> timer_ok (now s + 1) (now s + 1) (timer s i)"
        using table [OF that(1)] by (auto simp: timer_ok_def due1)
      then have "fires_at (scanned (time_ticks s1) (timer s i)) u = fires_at (timer s i) u"
        by (rule fires_scanned) (use T(2) n that in simp_all)
      then show ?thesis using that by (simp add: s' r same)
    qed
    ultimately show ?thesis using s' by simp
  qed
  then show "w' = w @ fired_at s (now s + 1)" "numTimers s' = numTimers s"
    "i < numTimers s \<Longrightarrow> now s + 1 < u \<Longrightarrow> fires_at (timer s' i) u = fires_at (timer s i) u"
    by auto
qed

lemma record_ticks:
  assumes "sched_ok s" "now s + n < 2 ^ 62"
  shows "snd ((tick1 recorder ^^ n) (s, w)) = w @ schedule s n"
  using assms
proof (induction n arbitrary: s w)
  case 0
  then show ?case by (simp add: schedule_def)
next
  case (Suc n)
  obtain s' w' where t: "tick1 recorder (s, w) = (s', w')" by fastforce
  note r = record_tick [OF Suc.prems(1) _ t]
  have g: "sched_ok s'" "time_ticks s' = time_ticks s + 1"
    using recorder.tick1_good [of "time_ticks s" "(s, w)"] Suc.prems t
    by (simp_all add: recorder.good_def now_def)
  then have now: "now s' = now s + 1"
    using Suc.prems(2) by (simp add: now_def unat_sum)
  have "fired_at s' u = fired_at s u" if "u \<in> set [now s' + 1..<now s' + n + 1]" for u
  proof -
    have "now s + 1 < u" using that now by (auto simp del: upt_Suc)
    then have "filter (\<lambda>i. fires_at (timer s' i) u) [0..<numTimers s] = filter (\<lambda>i. fires_at (timer s i) u) [0..<numTimers s]"
      using r(3) Suc.prems(2) by (intro filter_cong) simp_all
    then show ?thesis using r(2) Suc.prems(2) by (simp add: fired_at_def)
  qed
  then have "schedule s' n = concat (map (fired_at s) [now s' + 1..<now s' + n + 1])"
    unfolding schedule_def by (intro arg_cong [where f = concat] map_cong refl)
  moreover have "[now s + 1..<now s + Suc n + 1] = (now s + 1) # [now s' + 1..<now s' + n + 1]"
    using now by (simp add: upt_conv_Cons)
  ultimately have "fired_at s (now s + 1) @ schedule s' n = schedule s (Suc n)"
    by (simp add: schedule_def)
  moreover have "snd ((tick1 recorder ^^ n) (s', w')) = w' @ schedule s' n"
    using Suc.IH [of s' w'] g now Suc.prems(2) by simp
  ultimately show ?case
    using r(1) Suc.prems(2) by (simp add: funpow_Suc_right t del: funpow.simps)
qed

section \<open>Reachable states\<close>

text \<open>The global object starts zeroed, is constructed and then initialised by main.cc.\<close>

definition zero_timer :: "'f sys_timer" where
  "zero_timer = \<lparr>inUse = False, period = 0, timeToFire = 0, active = False, continuous = False, funct = None,
    timer_id = [], param = 0\<rparr>"

definition zero_system :: "'f pc_system" where
  "zero_system = \<lparr>timer = (\<lambda>_. zero_timer), numTimers = 0, triggeredTimer = 0, currCountdown = 0,
    currCountdownPeriod = 0, ticksTotal = 0, lastTimeUsec = 0, usecSinceLast = 0, HRQ = False, enable_a20 = False,
    a20_mask = 0, kill_bochs_request = False, pc_calls = [], pc_panics = []\<rparr>"

definition power_up :: "'f \<Rightarrow> 'f pc_system" where
  "power_up nullTimer = pc_initialize (pc_construct nullTimer zero_system)"

text \<open>
  The fields of the service are private: a handler acts on it by requests. \<open>prog\<close> gives
  the requests of a handler, and its effect on the rest of the machine.
\<close>

definition request_handler ::
  "('f \<Rightarrow> 'f pc_system \<Rightarrow> 'w \<Rightarrow> 'f timer_request list \<times> 'w) \<Rightarrow> ('f, 'w) handler" where
  "request_handler prog f st = (case prog f (fst st) (snd st) of (rs, w) \<Rightarrow> (fold run_request rs (fst st), w))"

inductive pc_step ::
  "('f \<Rightarrow> 'f pc_system \<Rightarrow> 'w \<Rightarrow> 'f timer_request list \<times> 'w) \<Rightarrow> 'f pc_system \<times> 'w \<Rightarrow> 'f pc_system \<times> 'w \<Rightarrow> bool"
  for prog where
  request: "request_ok r \<Longrightarrow> pc_step prog (s, w) (run_request r s, w)"
| ticks: "now s + unat n < 2 ^ 62 \<Longrightarrow> tickn (request_handler prog) n (s, w) = Some (s', w') \<Longrightarrow> pc_step prog (s, w) (s', w')"
| device: "pc_step prog (s, w) (s, w')"

inductive pc_reachable ::
  "('f \<Rightarrow> 'f pc_system \<Rightarrow> 'w \<Rightarrow> 'f timer_request list \<times> 'w) \<Rightarrow> 'f pc_system \<times> 'w \<Rightarrow> bool" for prog where
  start: "pc_reachable prog (power_up f, w)"
| step: "pc_reachable prog st \<Longrightarrow> pc_step prog st st' \<Longrightarrow> pc_reachable prog st'"

definition orderly :: "('f \<Rightarrow> 'f pc_system \<Rightarrow> 'w \<Rightarrow> 'f timer_request list \<times> 'w) \<Rightarrow> bool" where
  "orderly prog \<longleftrightarrow> (\<forall>f s w. list_all request_ok (fst (prog f s w)))"

lemma requests_fold:
  "sched_ok s \<Longrightarrow> list_all request_ok rs \<Longrightarrow>
    sched_ok (fold run_request rs s) \<and> time_ticks (fold run_request rs s) = time_ticks s"
  by (induction rs arbitrary: s) (simp_all add: requests_keep)

lemma request_handlers:
  fixes prog :: "'a \<Rightarrow> 'a pc_system \<Rightarrow> 'b \<Rightarrow> 'a timer_request list \<times> 'b"
  assumes "orderly prog"
  shows "timer_handlers (request_handler prog) (\<lambda>_ _. True)"
proof
  fix s :: "'a pc_system" and w :: 'b and f
  assume "sched_ok s"
  then show "case request_handler prog f (s, w) of (s', w') \<Rightarrow> sched_ok s' \<and> time_ticks s' = time_ticks s \<and> True"
    using assms requests_fold [of s "fst (prog f s w)"]
    by (simp add: request_handler_def orderly_def split_def)
qed simp

lemma power_up_ok: "sched_ok (power_up f)"
  by (simp add: power_up_def pc_initialize_def pc_construct_def zero_system_def zero_timer_def upd_timer_def
      sched_ok_def sched_inv_def due_def now_def time_ticks_def table_ok_def timer_ok_def NullTimerInterval_def
      BX_MAX_TIMERS_def)

lemma tickn_catches_up:
  assumes "orderly prog" "sched_ok s" "now s + unat n < 2 ^ 62"
  shows "\<exists>s' w'. tickn (request_handler prog) n (s, w) = Some (s', w') \<and>
    (tick1 (request_handler prog) ^^ unat n) (s, w) = (s', w') \<and> sched_ok s' \<and> now s' = now s + unat n"
proof -
  note h = request_handlers [OF assms(1)]
  have g: "timer_handlers.good (\<lambda>_ _. True) (time_ticks s) (s, w)"
    using assms(2) by (simp add: timer_handlers.good_def [OF h])
  obtain s' w' where st: "(tick1 (request_handler prog) ^^ unat n) (s, w) = (s', w')" by fastforce
  have "tickn (request_handler prog) n (s, w) = Some (s', w')"
    using timer_handlers.tickn_ticks [OF h g] assms(3) st by (simp add: now_def)
  moreover have "timer_handlers.good (\<lambda>_ _. True) (time_ticks s + of_nat (unat n)) (s', w')"
    using timer_handlers.ticks_good [OF h g, of "unat n"] assms(3) by (simp add: now_def st)
  then have "sched_ok s' \<and> now s' = now s + unat n"
    using assms(3) by (simp add: timer_handlers.good_def [OF h] now_def unat_sum)
  ultimately show ?thesis using st by blast
qed

lemma reachable_sched:
  assumes prog: "orderly prog"
  shows "pc_reachable prog st \<Longrightarrow> sched_ok (fst st)"
proof (induction rule: pc_reachable.induct)
  case (step st st')
  from step.hyps(2) show ?case
  proof (cases rule: pc_step.cases)
    case (request r s w)
    then show ?thesis using step.IH requests_keep by auto
  next
    case (ticks s n w s' w')
    then show ?thesis using tickn_catches_up [OF prog, of s n w] step.IH by auto
  next
    case (device s w w')
    then show ?thesis using step.IH by simp
  qed
qed (simp add: power_up_ok)

text \<open>Two timers due at the same tick; the handler of the first stops the second.\<close>

definition stopper :: "nat \<Rightarrow> nat pc_system \<Rightarrow> nat list \<Rightarrow> nat timer_request list \<times> nat list" where
  "stopper f s w = (if f = 1 then [Deactivate 2] else [], w @ [f])"

definition two_timers :: "nat pc_system" where
  "two_timers = run_request (Register (Some 2) 5 True True ''b'') (run_request (Register (Some 1) 5 True True ''a'') (power_up 0))"

lemma two_timers_reachable: "orderly stopper" "pc_reachable stopper (two_timers, [])"
proof -
  show "orderly stopper" by (simp add: orderly_def stopper_def)
  have "pc_reachable stopper (power_up 0, [])" by (rule pc_reachable.start)
  then show "pc_reachable stopper (two_timers, [])"
    unfolding two_timers_def
    by (intro pc_reachable.step [OF _ pc_step.request] pc_reachable.step [OF _ pc_step.request]) simp_all
qed

lemma two_timers_now: "now two_timers = 0"
  by code_simp

lemma two_timers_fires:
  "numTimers two_timers = 3"
  "fires_at (timer two_timers 0) t = (4294967295 \<le> t \<and> 4294967295 dvd (t - 4294967295))"
  "fires_at (timer two_timers 1) t = (5 \<le> t \<and> 5 dvd (t - 5))"
  "fires_at (timer two_timers 2) t = (5 \<le> t \<and> 5 dvd (t - 5))"
proof -
  have "active (timer two_timers 0)" "active (timer two_timers 1)" "active (timer two_timers 2)"
    "continuous (timer two_timers 0)" "continuous (timer two_timers 1)" "continuous (timer two_timers 2)"
    "timeToFire (timer two_timers 0) = 4294967295" "timeToFire (timer two_timers 1) = 5" "timeToFire (timer two_timers 2) = 5"
    "period (timer two_timers 0) = 4294967295" "period (timer two_timers 1) = 5" "period (timer two_timers 2) = 5"
    "funct (timer two_timers 0) = Some 0" "funct (timer two_timers 1) = Some 1" "funct (timer two_timers 2) = Some 2"
    by code_simp+
  then show "fires_at (timer two_timers 0) t = (4294967295 \<le> t \<and> 4294967295 dvd (t - 4294967295))"
    "fires_at (timer two_timers 1) t = (5 \<le> t \<and> 5 dvd (t - 5))"
    "fires_at (timer two_timers 2) t = (5 \<le> t \<and> 5 dvd (t - 5))"
    by (simp_all add: fires_at_def)
  show "numTimers two_timers = 3" by code_simp
qed

section \<open>Properties\<close>

text \<open>
  C12. The countdown always stands at or before the next event: in every state that the service reaches
  from power-up, by requests and ticks of any orderly handlers, the countdown is not zero, no active timer's time
  has been missed, none is due before the countdown ends, and the null timer keeps the countdown
  within 32 bits.
\<close>

theorem countdown_never_late:
  assumes "orderly prog" and "pc_reachable prog (s, w)"
  shows "0 < currCountdown s \<and> currCountdown s \<le> currCountdownPeriod s \<and> active (timer s 0) \<and>
    list_all (\<lambda>i. \<not> active (timer s i) \<or> now s + unat (currCountdown s) \<le> unat (timeToFire (timer s i)))
      [0..<numTimers s]"
proof -
  have ok: "sched_ok s" using reachable_sched [OF assms] by simp
  then show ?thesis
    using now_plus_countdown [of s] by (auto simp: sched_ok_def sched_inv_def table_ok_def timer_ok_def list_all_iff)
qed

theorem countdown_never_late_witness:
  "0 < currCountdown two_timers \<and> currCountdown two_timers \<le> currCountdownPeriod two_timers \<and> active (timer two_timers 0)"
  using countdown_never_late [OF two_timers_reachable] by simp

text \<open>
  C13. The timer service always catches up: with any orderly handlers \<open>tickn\<close> returns for every
  number of ticks (its loop, which runs once per event and not once per tick, ends), it
  advances the time by exactly that number, and it leaves the state that as many calls of \<open>tick1\<close> leave.
\<close>

theorem tickn_terminates:
  assumes "orderly prog" and "pc_reachable prog (s, w)" and "now s + unat n < 2 ^ 62"
  shows "\<exists>s' w'. tickn (request_handler prog) n (s, w) = Some (s', w') \<and>
    (tick1 (request_handler prog) ^^ unat n) (s, w) = (s', w') \<and> now s' = now s + unat n"
  using tickn_catches_up [OF assms(1) _ assms(3)] reachable_sched [OF assms(1,2)] by fastforce

theorem tickn_terminates_witness:
  "\<exists>s' w'. tickn (request_handler stopper) 100 (two_timers, []) = Some (s', w') \<and>
    (tick1 (request_handler stopper) ^^ 100) (two_timers, []) = (s', w') \<and> now s' = 100"
proof -
  have n: "unat (100 :: Bit32u) = 100" by simp
  have "now two_timers + unat (100 :: Bit32u) < 2 ^ 62" by (simp add: two_timers_now)
  from tickn_terminates [OF two_timers_reachable this] show ?thesis
    unfolding n two_timers_now add_0 .
qed



text \<open>
  C18. The sequential clock is strictly increasing: a reading is later than the one before it and
  later than the emulated time, however little emulated time has passed in between.
\<close>

theorem sequential_time_increases:
  assumes "time_usec_sequential conv s = (r, s1)"
    and "lastTimeUsec s2 = lastTimeUsec s1" and "usecSinceLast s2 = usecSinceLast s1"
    and "pc_time_usec conv s \<le> pc_time_usec conv s2"
    and "unat (pc_time_usec conv s2) + unat (usecSinceLast s1) + 1 < 2 ^ 64"
  shows "r < fst (time_usec_sequential conv s2) \<and> pc_time_usec conv s2 < fst (time_usec_sequential conv s2)"
proof -
  let ?t = "pc_time_usec conv s" and ?t2 = "pc_time_usec conv s2" and ?u = "usecSinceLast s1"
  have s1: "lastTimeUsec s1 = ?t" "r = ?t + ?u"
    using assms(1) by (auto simp: time_usec_sequential_def Let_def split: if_splits)
  define u2 where "u2 = (if ?t2 = ?t then ?u else if ?t2 - ?t \<ge> ?u then 0 else ?u - (?t2 - ?t)) + 1"
  have r2: "fst (time_usec_sequential conv s2) = ?t2 + u2"
    by (simp add: time_usec_sequential_def Let_def assms(2,3) s1 u2_def)
  have le: "unat ?t \<le> unat ?t2" using assms(4) by (simp add: word_le_nat_alt)
  have diff: "unat (?t2 - ?t) = unat ?t2 - unat ?t" using assms(4) by (rule unat_diff)
  have u2: "unat u2 = (if ?t2 = ?t then unat ?u else unat ?u - (unat ?t2 - unat ?t)) + 1"
  proof -
    let ?x = "if ?t2 = ?t then ?u else if ?t2 - ?t \<ge> ?u then 0 else ?u - (?t2 - ?t)"
    have "unat ?x = (if ?t2 = ?t then unat ?u else unat ?u - (unat ?t2 - unat ?t))"
      by (auto simp: unat_diff diff word_le_nat_alt)
    then show ?thesis
      unfolding u2_def using assms(5) by (subst unat_sum) (auto split: if_splits)
  qed
  have "unat (?t2 + u2) = unat ?t2 + unat u2"
    using assms(5) u2 by (intro unat_sum) (auto split: if_splits)
  moreover have "unat r = unat ?t + unat ?u"
    using assms(5) le by (simp add: s1 unat_sum)
  ultimately show ?thesis
    using u2 le by (auto simp: r2 word_less_nat_alt)
qed

theorem sequential_time_increases_witness:
  "fst (time_usec_sequential (\<lambda>t. t div 15) two_timers) <
    fst (time_usec_sequential (\<lambda>t. t div 15) (snd (time_usec_sequential (\<lambda>t. t div 15) two_timers)))"
proof -
  let ?c = "\<lambda>t :: Bit64u. t div 15" let ?s = "snd (time_usec_sequential ?c two_timers)"
  have "pc_time_usec ?c two_timers = 0" "pc_time_usec ?c ?s = 0" "usecSinceLast ?s = 1"
    by code_simp+
  then show ?thesis
    using sequential_time_increases [of ?c two_timers "fst (time_usec_sequential ?c two_timers)" ?s ?s] by simp
qed


end
