(* ===== verification/Virt_Timer.thy ===== *)
theory Virt_Timer
  imports Pc_Timers
begin

text \<open>
  The virtual timers of iodev/virt_timer.cc: a second table of timers, counted in microseconds, that
  one timer of the timer service per mode drives. Mode \<open>False\<close> follows the emulated time, mode \<open>True\<close>
  follows the host's clock. An operation acts on the whole \<open>machine\<close>: the virtual timers, the timer
  service and the rest \<open>'w\<close>. A handler is a value of the type \<open>'g\<close>, its effect the argument \<open>call\<close>.
  The conversions that use floating point numbers and the host's clock are the record \<open>host\<close>.
  The assertions are not compiled (BX_ASSERT_ENABLE is 0).
\<close>

section \<open>State\<close>

record 'g virtual_timer =
  v_inUse :: bool
  v_period :: Bit64u
  v_timeToFire :: Bit64u
  v_active :: bool
  v_continuous :: bool
  v_realtime :: bool
  v_funct :: 'g
  v_id :: string

record mode_times =
  current_timers_time :: Bit64u
  timers_next_event_time :: Bit64u
  last_sequential_time :: Bit64u
  virtual_next_event_time :: Bit64u
  current_virtual_time :: Bit64u
  system_timer_id :: int

record 'g virt_timer =
  v_timer :: "nat \<Rightarrow> 'g virtual_timer"
  v_numTimers :: nat
  times :: "bool \<Rightarrow> mode_times"
  in_timer_handler :: bool
  v_ips :: Bit64u
  init_done :: bool
  last_real_time :: Bit64u
  total_real_usec :: Bit64u
  last_realtime_delta :: Bit64u
  real_time_delay :: Bit64u
  v_last_usec :: Bit64u
  usec_per_second :: Bit64u
  stored_delta :: Bit64u
  last_system_usec :: Bit64u
  em_last_realtime :: Bit64u
  v_total_ticks :: Bit64u
  last_realtime_ticks :: Bit64u
  ticks_per_second :: Bit64u
  v_panics :: "string list"

record ('f, 'g, 'w) machine =
  virt :: "'g virt_timer"
  sys :: "'f pc_system"
  rest :: 'w

text \<open>
  \<open>usec_ticks\<close> is the product with \<open>m_ips\<close>, \<open>ticks_usec\<close> the quotient, \<open>max_mult\<close> the product
  with MAX_MULT, \<open>alpha_lower\<close> the macro ALPHA_LOWER, \<open>realtime_usec\<close> the host's clock at the call.
\<close>

record host =
  usec_ticks :: "Bit32u \<Rightarrow> Bit64u"
  ticks_usec :: "Bit64u \<Rightarrow> Bit64u"
  max_mult :: "Bit64u \<Rightarrow> Bit64u"
  alpha_lower :: "Bit64u \<Rightarrow> Bit64u \<Rightarrow> Bit64u"
  realtime_usec :: Bit64u

definition BX_MAX_VIRTUAL_TIMERS :: nat where "BX_MAX_VIRTUAL_TIMERS = 32"
definition BX_MAX_VIRTUAL_TIME :: "'a::len word" where "BX_MAX_VIRTUAL_TIME = 0x7fffffff"
definition V_USEC_PER_SECOND :: Bit64u where "V_USEC_PER_SECOND = 1000000"
definition BX_MIN_IPS :: Bit64u where "BX_MIN_IPS = 1000000"

type_synonym ('f, 'g, 'w) vhandler = "'g \<Rightarrow> ('f, 'g, 'w) machine \<Rightarrow> ('f, 'g, 'w) machine"

definition on_virt :: "('g virt_timer \<Rightarrow> 'g virt_timer) \<Rightarrow> ('f, 'g, 'w) machine \<Rightarrow> ('f, 'g, 'w) machine" where
  "on_virt f m = m\<lparr>virt := f (virt m)\<rparr>"

definition on_sys :: "('f pc_system \<Rightarrow> 'f pc_system) \<Rightarrow> ('f, 'g, 'w) machine \<Rightarrow> ('f, 'g, 'w) machine" where
  "on_sys f m = m\<lparr>sys := f (sys m)\<rparr>"

definition upd_times :: "bool \<Rightarrow> (mode_times \<Rightarrow> mode_times) \<Rightarrow> ('f, 'g, 'w) machine \<Rightarrow> ('f, 'g, 'w) machine" where
  "upd_times mode f = on_virt (\<lambda>v. v\<lparr>times := (times v)(mode := f (times v mode))\<rparr>)"

definition upd_vtimer :: "nat \<Rightarrow> ('g virtual_timer \<Rightarrow> 'g virtual_timer) \<Rightarrow> ('f, 'g, 'w) machine \<Rightarrow> ('f, 'g, 'w) machine" where
  "upd_vtimer i f = on_virt (\<lambda>v. v\<lparr>v_timer := (v_timer v)(i := f (v_timer v i))\<rparr>)"

abbreviation mtimes :: "bool \<Rightarrow> ('f, 'g, 'w) machine \<Rightarrow> mode_times" where
  "mtimes mode m \<equiv> times (virt m) mode"

abbreviation vtimer :: "nat \<Rightarrow> ('f, 'g, 'w) machine \<Rightarrow> 'g virtual_timer" where
  "vtimer i m \<equiv> v_timer (virt m) i"

definition V_TICKS_TO_USEC :: "'g virt_timer \<Rightarrow> Bit64u \<Rightarrow> Bit64u" where
  "V_TICKS_TO_USEC v a = (a * usec_per_second v) div ticks_per_second v"

definition MIN_USEC_PER_SECOND :: "'g virt_timer \<Rightarrow> Bit64u" where
  "MIN_USEC_PER_SECOND v = (V_USEC_PER_SECOND * BX_MIN_IPS) div v_ips v + 1"

section \<open>The timer of the service that drives a mode\<close>

definition system_timer :: "host \<Rightarrow> bool \<Rightarrow> Bit64u \<Rightarrow> ('f, 'g, 'w) machine \<Rightarrow> ('f, 'g, 'w) machine" where
  "system_timer h mode usec m =
    on_sys (activate_timer (usec_ticks h) (nat (system_timer_id (mtimes mode m))) (ucast (min 0x7FFFFFFF usec)) False) m"

definition stop_system_timer :: "bool \<Rightarrow> ('f, 'g, 'w) machine \<Rightarrow> ('f, 'g, 'w) machine" where
  "stop_system_timer mode m = on_sys (deactivate_timer (nat (system_timer_id (mtimes mode m)))) m"

definition next_event_time_update :: "host \<Rightarrow> bool \<Rightarrow> ('f, 'g, 'w) machine \<Rightarrow> ('f, 'g, 'w) machine" where
  "next_event_time_update h mode m =
    (let m = upd_times mode (\<lambda>t. t\<lparr>virtual_next_event_time :=
                timers_next_event_time t + current_timers_time t - current_virtual_time t\<rparr>) m
     in if init_done (virt m)
        then system_timer h mode (max 1 (V_TICKS_TO_USEC (virt m) (virtual_next_event_time (mtimes mode m))))
               (stop_system_timer mode m)
        else m)"

section \<open>Requests\<close>

function v_free_slot :: "'g virt_timer \<Rightarrow> nat \<Rightarrow> nat" where
  "v_free_slot v i = (if i < v_numTimers v \<and> v_inUse (v_timer v i) then v_free_slot v (i + 1) else i)"
  by auto
termination by (relation "measure (\<lambda>(v, i). v_numTimers v - i)") auto

declare v_free_slot.simps [simp del]

text \<open>An event sooner than the next one of its mode becomes the next one.\<close>

definition sooner_event :: "host \<Rightarrow> bool \<Rightarrow> Bit32u \<Rightarrow> ('f, 'g, 'w) machine \<Rightarrow> ('f, 'g, 'w) machine" where
  "sooner_event h mode useconds m =
    (if ucast useconds < timers_next_event_time (mtimes mode m)
     then next_event_time_update h mode (upd_times mode (\<lambda>t. t\<lparr>timers_next_event_time := ucast useconds\<rparr>) m)
     else m)"

definition v_register_timer ::
  "host \<Rightarrow> 'g \<Rightarrow> Bit32u \<Rightarrow> bool \<Rightarrow> bool \<Rightarrow> bool \<Rightarrow> string \<Rightarrow> ('f, 'g, 'w) machine \<Rightarrow> nat \<times> ('f, 'g, 'w) machine" where
  "v_register_timer h handler useconds cont act realtime ident m =
    (let i = v_free_slot (virt m) 0;
         m = (if i = v_numTimers (virt m) then on_virt (\<lambda>v. v\<lparr>v_numTimers := v_numTimers v + 1\<rparr>) m else m);
         m = upd_vtimer i (\<lambda>t. t\<lparr>v_inUse := True, v_period := ucast useconds,
                v_timeToFire := current_timers_time (mtimes realtime m) + ucast useconds,
                v_active := act, v_realtime := realtime, v_continuous := cont, v_funct := handler,
                v_id := take (BxMaxTimerIDLen - 1) ident\<rparr>) m
     in (i, sooner_event h realtime useconds m))"

definition v_unregisterTimer :: "nat \<Rightarrow> ('f, 'g, 'w) machine \<Rightarrow> bool \<times> ('f, 'g, 'w) machine" where
  "v_unregisterTimer i m =
    (if v_active (vtimer i m)
     then (False, on_virt (\<lambda>v. v\<lparr>v_panics := v_panics v @ [v_id (v_timer v i)]\<rparr>) m)
     else
       (let m = upd_vtimer i (\<lambda>t. t\<lparr>v_inUse := False\<rparr>) m
        in (True, if i = v_numTimers (virt m) - 1
                  then on_virt (\<lambda>v. v\<lparr>v_numTimers := v_numTimers v - 1\<rparr>) m else m)))"

definition v_activate_timer :: "host \<Rightarrow> nat \<Rightarrow> Bit32u \<Rightarrow> bool \<Rightarrow> ('f, 'g, 'w) machine \<Rightarrow> ('f, 'g, 'w) machine" where
  "v_activate_timer h i useconds cont m =
    (let realtime = v_realtime (vtimer i m);
         m = upd_vtimer i (\<lambda>t. t\<lparr>v_period := ucast useconds,
                v_timeToFire := current_timers_time (mtimes realtime m) + ucast useconds,
                v_active := True, v_continuous := cont\<rparr>) m
     in sooner_event h realtime useconds m)"

definition v_deactivate_timer :: "nat \<Rightarrow> ('f, 'g, 'w) machine \<Rightarrow> ('f, 'g, 'w) machine" where
  "v_deactivate_timer i m = upd_vtimer i (\<lambda>t. t\<lparr>v_active := False\<rparr>) m"

section \<open>Events\<close>

text \<open>
  The loop of \<open>periodic\<close> reads \<open>numTimers\<close> before every iteration, for a handler may
  register timers; it is written over the whole array with that test.
\<close>

definition fire_virtual :: "('f, 'g, 'w) vhandler \<Rightarrow> bool \<Rightarrow> nat \<Rightarrow> ('f, 'g, 'w) machine \<Rightarrow> ('f, 'g, 'w) machine" where
  "fire_virtual call mode i m =
    (let t = vtimer i m
     in if i < v_numTimers (virt m) \<and> v_inUse t \<and> v_active t \<and> v_realtime t = mode \<and>
           v_timeToFire t = current_timers_time (mtimes mode m)
        then (let m = upd_vtimer i (\<lambda>t. if v_continuous t then t\<lparr>v_timeToFire := v_timeToFire t + v_period t\<rparr>
                                          else t\<lparr>v_active := False\<rparr>) m
              in call (v_funct t) m)
        else m)"

text \<open>The second loop: \<open>timers_next_event_time\<close> is a time there, the earliest of the active timers.\<close>

definition earlier_event :: "'g virt_timer \<Rightarrow> bool \<Rightarrow> nat \<Rightarrow> Bit64u \<Rightarrow> Bit64u" where
  "earlier_event v mode i next =
    (let t = v_timer v i
     in if v_inUse t \<and> v_active t \<and> v_realtime t = mode \<and> v_timeToFire t < next then v_timeToFire t else next)"

definition next_event :: "bool \<Rightarrow> ('f, 'g, 'w) machine \<Rightarrow> ('f, 'g, 'w) machine" where
  "next_event mode m =
    (let next = fold (earlier_event (virt m) mode) [0..<v_numTimers (virt m)]
                  (current_timers_time (mtimes mode m) + BX_MAX_VIRTUAL_TIME)
     in upd_times mode (\<lambda>t. t\<lparr>timers_next_event_time := next - current_timers_time t\<rparr>) m)"

definition pass_timers_time :: "Bit64u \<Rightarrow> bool \<Rightarrow> ('f, 'g, 'w) machine \<Rightarrow> ('f, 'g, 'w) machine" where
  "pass_timers_time time_passed mode =
    upd_times mode (\<lambda>t. t\<lparr>timers_next_event_time := timers_next_event_time t - time_passed,
      current_timers_time := current_timers_time t + time_passed\<rparr>)"

definition virtual_events :: "host \<Rightarrow> ('f, 'g, 'w) vhandler \<Rightarrow> bool \<Rightarrow> ('f, 'g, 'w) machine \<Rightarrow> ('f, 'g, 'w) machine" where
  "virtual_events h call mode m =
    (let m = on_virt (\<lambda>v. v\<lparr>in_timer_handler := True\<rparr>) m;
         m = fold (fire_virtual call mode) [0..<BX_MAX_VIRTUAL_TIMERS] m;
         m = on_virt (\<lambda>v. v\<lparr>in_timer_handler := False\<rparr>) m
     in next_event_time_update h mode (next_event mode m))"

definition v_periodic ::
  "host \<Rightarrow> ('f, 'g, 'w) vhandler \<Rightarrow> Bit64u \<Rightarrow> bool \<Rightarrow> ('f, 'g, 'w) machine \<Rightarrow> ('f, 'g, 'w) machine" where
  "v_periodic h call time_passed mode m =
    (let m = pass_timers_time time_passed mode m
     in if time_passed < timers_next_event_time (mtimes mode m) then m else virtual_events h call mode m)"

definition advance_virtual_time ::
  "host \<Rightarrow> ('f, 'g, 'w) vhandler \<Rightarrow> Bit64u \<Rightarrow> bool \<Rightarrow> ('f, 'g, 'w) machine \<Rightarrow> ('f, 'g, 'w) machine" where
  "advance_virtual_time h call time_passed mode m =
    (let m = upd_times mode (\<lambda>t. t\<lparr>current_virtual_time := current_virtual_time t + time_passed,
                virtual_next_event_time := virtual_next_event_time t - time_passed\<rparr>) m;
         t = mtimes mode m
     in if current_virtual_time t > current_timers_time t
        then v_periodic h call (current_virtual_time t - current_timers_time t) mode m else m)"

section \<open>The handlers of the timer service\<close>

text \<open>The loop of mode \<open>False\<close>: from event to event up to the emulated time. It need not end.\<close>

partial_function (option) catch_up ::
  "host \<Rightarrow> ('f, 'g, 'w) vhandler \<Rightarrow> Bit64u \<Rightarrow> ('f, 'g, 'w) machine \<Rightarrow> ('f, 'g, 'w) machine option" where
  "catch_up h call temp_final_time m =
    (if temp_final_time = 0 then Some m
     else if temp_final_time > virtual_next_event_time (mtimes False m)
     then catch_up h call (temp_final_time - virtual_next_event_time (mtimes False m))
            (advance_virtual_time h call (virtual_next_event_time (mtimes False m)) False m)
     else Some (advance_virtual_time h call temp_final_time False m))"

declare catch_up.simps [code]

definition rearm_system_timer :: "host \<Rightarrow> ('f, 'g, 'w) machine \<Rightarrow> ('f, 'g, 'w) machine" where
  "rearm_system_timer h m =
    (let vnext = virtual_next_event_time (mtimes False m)
     in system_timer h False (if vnext > 2 then vnext - 2 else 1) m)"

definition timer_handler_0 ::
  "host \<Rightarrow> ('f, 'g, 'w) vhandler \<Rightarrow> ('f, 'g, 'w) machine \<Rightarrow> ('f, 'g, 'w) machine option" where
  "timer_handler_0 h call m =
    map_option (rearm_system_timer h)
      (catch_up h call (pc_time_usec (ticks_usec h) (sys m) - current_virtual_time (mtimes False m)) m)"

text \<open>
  Mode \<open>True\<close>: the ticks that line the virtual time up with the host's clock, kept between the bounds
  of the code, and the accounts of both clocks.
\<close>

definition wanted_ticks :: "Bit64u \<Rightarrow> 'g virt_timer \<Rightarrow> Bit64u" where
  "wanted_ticks real_time_delta v =
    (let real_time_total = real_time_delta + total_real_usec v
     in if real_time_total < v_total_ticks v then 0 else real_time_total - v_total_ticks v)"

definition watch_realtime :: "host \<Rightarrow> Bit64u \<Rightarrow> 'g virt_timer \<Rightarrow> 'g virt_timer" where
  "watch_realtime h real_time_delta v =
    (let v = (if real_time_delta \<noteq> 0
              then v\<lparr>last_realtime_delta := real_time_delta, last_realtime_ticks := v_total_ticks v\<rparr> else v);
         v = v\<lparr>ticks_per_second := V_USEC_PER_SECOND\<rparr>
     in if wanted_ticks real_time_delta v + v_total_ticks v - last_realtime_ticks v > max_mult h (last_realtime_delta v)
        then v\<lparr>ticks_per_second := max_mult h V_USEC_PER_SECOND\<rparr> else v)"

definition limit_ticks :: "Bit64u \<Rightarrow> Bit64u \<Rightarrow> 'g virt_timer \<Rightarrow> Bit64u" where
  "limit_ticks system_time_delta ticks_delta v =
    (let most = (system_time_delta * V_USEC_PER_SECOND) div MIN_USEC_PER_SECOND v;
         ticks_delta = (if ticks_delta > most then most else ticks_delta);
         vnext = virtual_next_event_time (times v True)
     in if ticks_delta > vnext then vnext else ticks_delta)"

definition account_ticks :: "Bit64u \<Rightarrow> Bit64u \<Rightarrow> Bit64u \<Rightarrow> 'g virt_timer \<Rightarrow> 'g virt_timer" where
  "account_ticks real_time_delta system_time_delta ticks_delta v =
    (if ticks_delta \<noteq> 0
     then v\<lparr>last_real_time := last_real_time v + real_time_delta,
            total_real_usec := total_real_usec v + real_time_delta,
            last_system_usec := last_system_usec v + system_time_delta,
            stored_delta := 0,
            v_total_ticks := v_total_ticks v + ticks_delta\<rparr>
     else v\<lparr>stored_delta := system_time_delta\<rparr>)"

definition measure_speed :: "host \<Rightarrow> Bit64u \<Rightarrow> 'g virt_timer \<Rightarrow> 'g virt_timer" where
  "measure_speed h real_time_delta v =
    (let a = usec_per_second v
     in if real_time_delta \<noteq> 0
        then (let em_realtime_delta = last_system_usec v + stored_delta v - em_last_realtime v;
                  b = (V_USEC_PER_SECOND * em_realtime_delta) div real_time_delta;
                  v = v\<lparr>em_last_realtime := last_system_usec v + stored_delta v\<rparr>
              in v\<lparr>usec_per_second := alpha_lower h a b\<rparr>)
        else v\<lparr>usec_per_second := alpha_lower h a a\<rparr>)"

definition realtime_ticks :: "host \<Rightarrow> Bit64u \<Rightarrow> 'g virt_timer \<Rightarrow> Bit64u \<times> 'g virt_timer" where
  "realtime_ticks h usec_delta v =
    (let real_time_delta = realtime_usec h - last_real_time v - real_time_delay v;
         system_time_delta = usec_delta + stored_delta v;
         v = watch_realtime h real_time_delta v;
         ticks_delta = limit_ticks system_time_delta (wanted_ticks real_time_delta v) v;
         v = account_ticks real_time_delta system_time_delta ticks_delta v
     in (ticks_delta, measure_speed h real_time_delta v))"

definition timer_handler_1 ::
  "host \<Rightarrow> ('f, 'g, 'w) vhandler \<Rightarrow> ('f, 'g, 'w) machine \<Rightarrow> ('f, 'g, 'w) machine" where
  "timer_handler_1 h call m =
    (let usec_delta = pc_time_usec (ticks_usec h) (sys m) - v_last_usec (virt m);
         m = (if usec_delta \<noteq> 0
              then (let (ticks_delta, v) = realtime_ticks h usec_delta (virt m)
                    in advance_virtual_time h call ticks_delta True (m\<lparr>virt := v\<rparr>))
              else m);
         m = on_virt (\<lambda>v. v\<lparr>v_last_usec := v_last_usec v + usec_delta\<rparr>) m
     in system_timer h True (max 1 (V_TICKS_TO_USEC (virt m) (virtual_next_event_time (mtimes True m))))
          (stop_system_timer True m))"

definition timer_handler ::
  "host \<Rightarrow> ('f, 'g, 'w) vhandler \<Rightarrow> bool \<Rightarrow> ('f, 'g, 'w) machine \<Rightarrow> ('f, 'g, 'w) machine option" where
  "timer_handler h call mode m = (if \<not> mode then timer_handler_0 h call m else Some (timer_handler_1 h call m))"

section \<open>Reading the virtual time\<close>

definition v_time_usec ::
  "host \<Rightarrow> ('f, 'g, 'w) vhandler \<Rightarrow> bool \<Rightarrow> ('f, 'g, 'w) machine \<Rightarrow> (Bit64u \<times> ('f, 'g, 'w) machine) option" where
  "v_time_usec h call mode m =
    map_option (\<lambda>m. (current_timers_time (mtimes mode m), m))
      (if \<not> in_timer_handler (virt m) then timer_handler h call mode m else Some m)"

definition v_time_usec_sequential ::
  "host \<Rightarrow> ('f, 'g, 'w) vhandler \<Rightarrow> bool \<Rightarrow> ('f, 'g, 'w) machine \<Rightarrow> Bit64u \<times> ('f, 'g, 'w) machine" where
  "v_time_usec_sequential h call mode m =
    (let m = (if last_sequential_time (mtimes mode m) \<ge> current_timers_time (mtimes mode m)
              then (let m = v_periodic h call 1 mode m
                    in upd_times mode (\<lambda>t. t\<lparr>last_sequential_time := current_timers_time t\<rparr>) m)
              else m)
     in (current_timers_time (mtimes mode m), m))"

section \<open>Initialisation\<close>

definition v_setup :: "'g virt_timer \<Rightarrow> 'g virt_timer" where
  "v_setup v = v\<lparr>v_numTimers := 0, in_timer_handler := False,
     times := (\<lambda>i. (times v i)\<lparr>current_timers_time := 0, timers_next_event_time := BX_MAX_VIRTUAL_TIME,
       last_sequential_time := 0, virtual_next_event_time := BX_MAX_VIRTUAL_TIME, current_virtual_time := 0\<rparr>),
     init_done := False\<rparr>"

text \<open>\<open>handler\<close> gives the handlers passed to the timer service, \<open>nullTimer\<close> the one of the two null timers.\<close>

definition v_init ::
  "host \<Rightarrow> 'g \<Rightarrow> (bool \<Rightarrow> 'f) \<Rightarrow> Bit64u \<Rightarrow> ('f, 'g, 'w) machine \<Rightarrow> ('f, 'g, 'w) machine" where
  "v_init h nullTimer handler ips m =
    (let m = on_virt (\<lambda>v. v\<lparr>v_ips := ips\<rparr>) m;
         m = snd (v_register_timer h nullTimer BX_MAX_VIRTUAL_TIME True True False ''Null Timer #1'' m);
         m = snd (v_register_timer h nullTimer BX_MAX_VIRTUAL_TIME True True True ''Null Timer #2'' m);
         (id0, s) = register_timer (usec_ticks h) (Some (handler False))
                      (ucast (virtual_next_event_time (mtimes False m))) False True ''Virtual Timer #0'' (sys m);
         (id1, s) = register_timer (usec_ticks h) (Some (handler True))
                      (ucast (virtual_next_event_time (mtimes True m))) False True ''Virtual Timer #1'' s;
         m = upd_times False (\<lambda>t. t\<lparr>system_timer_id := id0\<rparr>) (upd_times True (\<lambda>t. t\<lparr>system_timer_id := id1\<rparr>) (m\<lparr>sys := s\<rparr>))
     in on_virt (\<lambda>v. v\<lparr>last_real_time := realtime_usec h, total_real_usec := 0, last_realtime_delta := 0,
          real_time_delay := 0, v_last_usec := 0, usec_per_second := V_USEC_PER_SECOND, stored_delta := 0,
          last_system_usec := 0, em_last_realtime := 0, v_total_ticks := 0, last_realtime_ticks := 0,
          ticks_per_second := V_USEC_PER_SECOND, init_done := True\<rparr>) m)"

definition set_realtime_delay :: "host \<Rightarrow> ('f, 'g, 'w) machine \<Rightarrow> ('f, 'g, 'w) machine" where
  "set_realtime_delay h = on_virt (\<lambda>v. v\<lparr>real_time_delay := realtime_usec h - last_real_time v\<rparr>)"

text \<open>The handlers as the timer service calls them; by \<open>handler_catches_up\<close> the first always returns.\<close>

definition pc_system_timer_handler ::
  "host \<Rightarrow> ('f, 'g, 'w) vhandler \<Rightarrow> bool \<Rightarrow> 'f pc_system \<times> 'g virt_timer \<times> 'w \<Rightarrow> 'f pc_system \<times> 'g virt_timer \<times> 'w" where
  "pc_system_timer_handler h call mode st =
    (case st of (s, v, w) \<Rightarrow>
       case timer_handler h call mode \<lparr>virt = v, sys = s, rest = w\<rparr> of
         Some m \<Rightarrow> (sys m, virt m, rest m)
       | None \<Rightarrow> st)"

end
