(* ===== verification/Virt_Events.thy ===== *)
theory Virt_Events
  imports Virt_Timer
begin

text \<open>
  What the virtual timers promise. The invariant of both modes and that requests, registrations and
  the handlers of the timer service keep it, for every host and all devices that ask for delays
  other than zero; the handler of the service always returns and has then caught up with the emulated
  time; the calls it makes are a schedule computed from the table; and the one registration
  that breaks the loop. The locale \<open>virtual_handlers\<close> is the interface of the handlers that the
  timers call, \<open>virtual_devices\<close> the one of the devices behind them.
\<close>

section \<open>The invariant\<close>

definition live :: "bool \<Rightarrow> 'g virtual_timer \<Rightarrow> bool" where
  "live mode t \<longleftrightarrow> v_inUse t \<and> v_active t \<and> v_realtime t = mode"

definition vt_ok :: "nat \<Rightarrow> nat \<Rightarrow> 'g virtual_timer \<Rightarrow> bool" where
  "vt_ok e c t \<longleftrightarrow>
    e \<le> unat (v_timeToFire t) \<and> unat (v_timeToFire t) \<le> c + unat (v_period t) \<and>
    0 < unat (v_period t) \<and> unat (v_period t) < 2 ^ 32"

text \<open>
  A mode at rest, or in the middle of an event that has visited the first \<open>k\<close> timers: at rest the
  next event is ahead and both clocks agree on it.
\<close>

definition mode_inv :: "nat option \<Rightarrow> 'g virt_timer \<Rightarrow> bool \<Rightarrow> bool" where
  "mode_inv k v mode \<longleftrightarrow>
    (let t = times v mode; c = unat (current_timers_time t); n = unat (timers_next_event_time t)
     in unat (current_virtual_time t) \<le> c \<and> c < 2 ^ 62 \<and>
        (k = None \<longrightarrow> 0 < n \<and> n \<le> 0x7fffffff \<and>
           unat (current_virtual_time t) + unat (virtual_next_event_time t) = c + n) \<and>
        (\<forall>i<v_numTimers v. live mode (v_timer v i) \<longrightarrow>
           vt_ok (case k of None \<Rightarrow> c + n | Some k \<Rightarrow> if i < k then c + 1 else c) c (v_timer v i)))"

definition host_ok :: "host \<Rightarrow> bool" where
  "host_ok h \<longleftrightarrow> (\<forall>x. usec_ticks h x \<le> 2 ^ 62) \<and> ticks_usec h 0 = 0 \<and>
    (\<forall>x y. x \<le> y \<longrightarrow> ticks_usec h x \<le> ticks_usec h y)"

definition emulated_usec :: "host \<Rightarrow> ('f, 'g, 'w) machine \<Rightarrow> nat" where
  "emulated_usec h m = unat (pc_time_usec (ticks_usec h) (sys m))"

definition state_inv :: "host \<Rightarrow> (bool \<Rightarrow> nat option) \<Rightarrow> ('f, 'g, 'w) machine \<Rightarrow> bool" where
  "state_inv h k m \<longleftrightarrow>
    sched_ok (sys m) \<and> v_numTimers (virt m) \<le> BX_MAX_VIRTUAL_TIMERS \<and>
    (\<forall>mode. 0 < system_timer_id (mtimes mode m)) \<and> (\<forall>mode. mode_inv (k mode) (virt m) mode) \<and>
    unat (current_virtual_time (mtimes False m)) \<le> emulated_usec h m"

abbreviation at_rest :: "bool \<Rightarrow> nat option" where
  "at_rest \<equiv> \<lambda>_. None"

section \<open>The timer of the service\<close>

lemma activate_again:
  "activate_timer_ticks i (clamp_period t) cont (upd_timer i (\<lambda>x. x\<lparr>period := clamp_period t\<rparr>) s) =
   activate_timer_ticks i t cont s"
proof -
  have "clamp_period (clamp_period t) = clamp_period t"
    by (simp add: clamp_period_def MinAllowableTimerPeriod_def)
  then show ?thesis
    by (simp add: activate_timer_ticks_def upd_timer_def Let_def time_ticks_def)
qed

lemma activate_timer_eq:
  "useconds \<noteq> 0 \<Longrightarrow> activate_timer conv i useconds cont s = activate_timer_ticks i (conv useconds) cont s"
  by (simp add: activate_timer_def activate_converted_def Let_def activate_again)

lemma delay_nonzero: "usec \<noteq> 0 \<Longrightarrow> (ucast (min 0x7FFFFFFF usec :: Bit64u) :: Bit32u) \<noteq> 0"
proof -
  assume "usec \<noteq> 0"
  then have "0 < unat (min 0x7FFFFFFF usec)" by (simp add: min_def unat_gt_0)
  moreover have "unat (min 0x7FFFFFFF usec) < 2 ^ 32" by (simp add: min_def word_le_nat_alt)
  ultimately show ?thesis
    using unat_narrow [of "min 0x7FFFFFFF usec"] by (metis neq0_conv unat_0)
qed

lemma system_timer_sel [simp]:
  "virt (system_timer h mode usec m) = virt m" "rest (system_timer h mode usec m) = rest m"
  "virt (stop_system_timer mode m) = virt m" "rest (stop_system_timer mode m) = rest m"
  by (simp_all add: system_timer_def stop_system_timer_def on_sys_def)

lemma on_virt_sel [simp]:
  "virt (on_virt f m) = f (virt m)" "sys (on_virt f m) = sys m" "rest (on_virt f m) = rest m"
  by (simp_all add: on_virt_def)

lemma upd_times_sel [simp]:
  "sys (upd_times mode f m) = sys m" "rest (upd_times mode f m) = rest m"
  "v_timer (virt (upd_times mode f m)) = v_timer (virt m)"
  "v_numTimers (virt (upd_times mode f m)) = v_numTimers (virt m)"
  "init_done (virt (upd_times mode f m)) = init_done (virt m)"
  "in_timer_handler (virt (upd_times mode f m)) = in_timer_handler (virt m)"
  "mtimes mode' (upd_times mode f m) = (if mode' = mode then f (mtimes mode m) else mtimes mode' m)"
  by (simp_all add: upd_times_def)

lemma upd_vtimer_sel [simp]:
  "sys (upd_vtimer i f m) = sys m" "rest (upd_vtimer i f m) = rest m" "times (virt (upd_vtimer i f m)) = times (virt m)"
  "v_numTimers (virt (upd_vtimer i f m)) = v_numTimers (virt m)"
  "v_timer (virt (upd_vtimer i f m)) = (v_timer (virt m))(i := f (vtimer i m))"
  by (simp_all add: upd_vtimer_def)

definition sys_kept :: "('f, 'g, 'w) machine \<Rightarrow> ('f, 'g, 'w) machine \<Rightarrow> bool" where
  "sys_kept m m' \<longleftrightarrow> (sched_ok (sys m) \<longrightarrow> sched_ok (sys m')) \<and> time_ticks (sys m') = time_ticks (sys m)"

lemma system_timer_kept:
  assumes "host_ok h" "0 < system_timer_id (mtimes mode m)" "usec \<noteq> 0" "sched_ok (sys m)"
  shows "sched_ok (sys (system_timer h mode usec m)) \<and>
    time_ticks (sys (system_timer h mode usec m)) = time_ticks (sys m)"
  using assms by (simp add: system_timer_def on_sys_def activate_timer_eq delay_nonzero activate_ok host_ok_def)

lemma stop_system_timer_kept:
  assumes "0 < system_timer_id (mtimes mode m)" "sched_ok (sys m)"
  shows "sched_ok (sys (stop_system_timer mode m)) \<and>
    time_ticks (sys (stop_system_timer mode m)) = time_ticks (sys m)"
  using assms by (simp add: stop_system_timer_def on_sys_def deactivate_ok)

lemma next_event_time_update_virt:
  "virt (next_event_time_update h mode m) = virt (upd_times mode (\<lambda>t. t\<lparr>virtual_next_event_time :=
      timers_next_event_time t + current_timers_time t - current_virtual_time t\<rparr>) m)"
  "rest (next_event_time_update h mode m) = rest m"
  by (simp_all add: next_event_time_update_def Let_def)

lemma next_event_time_update_kept:
  assumes "host_ok h" "0 < system_timer_id (mtimes mode m)" "sched_ok (sys m)"
  shows "sched_ok (sys (next_event_time_update h mode m)) \<and>
    time_ticks (sys (next_event_time_update h mode m)) = time_ticks (sys m)"
proof -
  let ?m = "upd_times mode (\<lambda>t. t\<lparr>virtual_next_event_time :=
      timers_next_event_time t + current_timers_time t - current_virtual_time t\<rparr>) m"
  have s: "sched_ok (sys (stop_system_timer mode ?m)) \<and> time_ticks (sys (stop_system_timer mode ?m)) = time_ticks (sys m)"
    using stop_system_timer_kept [where m = ?m and mode = mode] assms by simp
  have "max 1 x \<noteq> (0 :: Bit64u)" for x
    by (auto simp: max_def)
  then show ?thesis
    using system_timer_kept [OF assms(1), where m = "stop_system_timer mode ?m" and mode = mode] s assms(2,3)
    by (simp add: next_event_time_update_def Let_def)
qed

section \<open>Requests keep the invariant\<close>

lemma vt_ok_fresh:
  assumes "c = unat ctt" "c < 2 ^ 62" "usec \<noteq> (0 :: Bit32u)" "v_period x = ucast usec" "v_timeToFire x = ctt + ucast usec"
    and "e \<le> c + unat usec"
  shows "vt_ok e c x"
proof -
  have u: "0 < unat usec" "unat usec < 2 ^ 32"
    using assms(3) unsigned_less [of usec, where 'a = nat] by (simp_all add: unat_gt_0)
  then have "unat (ctt + ucast usec) = c + unat usec"
    using assms(1,2) by (subst unat_sum) simp_all
  then show ?thesis using assms u by (simp add: vt_ok_def)
qed

lemma next_time:
  assumes "unat (a :: Bit64u) \<le> unat b" "unat b < 2 ^ 62" "unat n < 2 ^ 62"
  shows "unat a + unat (n + b - a) = unat b + unat n"
proof -
  have "unat (n + b) = unat n + unat b" using assms by (subst unat_sum) simp_all
  then show ?thesis using assms by (subst unat_diff) (simp_all add: word_le_nat_alt)
qed

definition vtable_inv :: "(nat \<Rightarrow> nat) \<Rightarrow> nat \<Rightarrow> (nat \<Rightarrow> 'g virtual_timer) \<Rightarrow> nat \<Rightarrow> bool \<Rightarrow> bool" where
  "vtable_inv lo c f n mode \<longleftrightarrow> (\<forall>i<n. live mode (f i) \<longrightarrow> vt_ok (lo i) c (f i))"

definition earliest_due :: "nat option \<Rightarrow> mode_times \<Rightarrow> nat \<Rightarrow> nat" where
  "earliest_due k t i =
    (case k of None \<Rightarrow> unat (current_timers_time t) + unat (timers_next_event_time t)
     | Some k \<Rightarrow> if i < k then unat (current_timers_time t) + 1 else unat (current_timers_time t))"

definition clock_inv :: "nat option \<Rightarrow> mode_times \<Rightarrow> bool" where
  "clock_inv k t \<longleftrightarrow>
    unat (current_virtual_time t) \<le> unat (current_timers_time t) \<and> unat (current_timers_time t) < 2 ^ 62 \<and>
    (k = None \<longrightarrow> 0 < timers_next_event_time t \<and> timers_next_event_time t \<le> 0x7fffffff \<and>
       unat (current_virtual_time t) + unat (virtual_next_event_time t) =
       unat (current_timers_time t) + unat (timers_next_event_time t))"

lemma mode_inv_parts:
  "mode_inv k v mode \<longleftrightarrow> clock_inv k (times v mode) \<and>
    vtable_inv (earliest_due k (times v mode)) (unat (current_timers_time (times v mode))) (v_timer v) (v_numTimers v) mode"
  by (auto simp: mode_inv_def clock_inv_def vtable_inv_def earliest_due_def Let_def word_less_nat_alt word_le_nat_alt
      split: option.splits)

lemma vtable_other:
  assumes "vtable_inv lo c f n mode" "v_realtime x \<noteq> mode" "n' = n \<or> i = n \<and> n' = n + 1"
  shows "vtable_inv lo c (f(i := x)) n' mode"
  using assms by (auto simp: vtable_inv_def live_def less_Suc_eq)

lemma vtable_install:
  assumes f: "vtable_inv lo c f n mode" and lo: "\<And>j. j \<noteq> i \<Longrightarrow> lo' j \<le> lo j"
    and x: "i < n' \<Longrightarrow> live mode x \<Longrightarrow> vt_ok (lo' i) c x" and n: "n' = n \<or> i = n \<and> n' = n + 1"
  shows "vtable_inv lo' c (f(i := x)) n' mode"
  unfolding vtable_inv_def
proof (intro allI impI)
  fix j
  assume j: "j < n'" "live mode ((f(i := x)) j)"
  show "vt_ok (lo' j) c ((f(i := x)) j)"
  proof (cases "j = i")
    case True
    then show ?thesis using x j by simp
  next
    case False
    then have "vt_ok (lo j) c (f j)" using f j n by (auto simp: vtable_inv_def)
    then show ?thesis using lo [OF False] False by (simp add: vt_ok_def)
  qed
qed

lemma vt_ok_first: "vt_ok e c t \<Longrightarrow> e' \<le> e \<Longrightarrow> vt_ok e' c t"
  by (simp add: vt_ok_def)

lemma install_mode:
  fixes v :: "'g virt_timer"
  assumes inv: "mode_inv k v r" and u: "useconds \<noteq> (0 :: Bit32u)"
    and x: "v_period x = ucast useconds" "v_timeToFire x = current_timers_time (times v r) + ucast useconds"
    and n: "n = v_numTimers v \<or> i = v_numTimers v \<and> n = v_numTimers v + 1"
    and t: "t = (if ucast useconds < timers_next_event_time (times v r)
      then times v r\<lparr>timers_next_event_time := ucast useconds, virtual_next_event_time :=
         ucast useconds + current_timers_time (times v r) - current_virtual_time (times v r)\<rparr>
      else times v r)"
    and v': "times v' r = t" "v_timer v' = (v_timer v)(i := x)" "v_numTimers v' = n"
  shows "mode_inv k v' r"
proof -
  let ?t = "times v r" let ?c = "unat (current_timers_time ?t)"
  have clock: "clock_inv k ?t" and table: "vtable_inv (earliest_due k ?t) ?c (v_timer v) (v_numTimers v) r"
    using inv by (simp_all add: mode_inv_parts)
  have u0: "0 < unat useconds" "unat useconds < 2 ^ 32"
    using u unsigned_less [of useconds, where 'a = nat] by (simp_all add: unat_gt_0)
  have small: "unat (timers_next_event_time t) \<le> unat (timers_next_event_time ?t)"
    by (auto simp: t word_less_nat_alt)
  have clock': "clock_inv k t"
  proof (cases "ucast useconds < timers_next_event_time ?t")
    case True
    have "unat (current_virtual_time ?t) + unat (ucast useconds + current_timers_time ?t - current_virtual_time ?t) =
        ?c + unat useconds"
      using clock u0 by (subst next_time) (auto simp: clock_inv_def)
    moreover have "ucast useconds \<le> (0x7fffffff :: Bit64u)" if "k = None"
      using clock that True by (auto simp: clock_inv_def)
    ultimately show ?thesis
      using clock True u0 by (auto simp: clock_inv_def t word_less_nat_alt)
  qed (use clock t in simp)
  have same: "current_timers_time t = current_timers_time ?t" by (simp add: t)
  have first: "vt_ok (earliest_due k t i) ?c x"
  proof (rule vt_ok_fresh [OF refl _ u x])
    show "?c < 2 ^ 62" using clock by (simp add: clock_inv_def)
    have "unat (timers_next_event_time t) \<le> unat useconds"
      by (auto simp: t not_less word_le_nat_alt)
    then show "earliest_due k t i \<le> ?c + unat useconds"
      using u0 by (auto simp: earliest_due_def same split: option.splits)
  qed
  have "vtable_inv (earliest_due k t) ?c ((v_timer v)(i := x)) n r"
    by (rule vtable_install [where lo' = "earliest_due k t", OF table _ first n])
      (use small in \<open>auto simp: earliest_due_def same split: option.splits\<close>)
  then show ?thesis
    using clock' by (simp add: mode_inv_parts v' same)
qed

lemma install_ok:
  fixes m :: "('f, 'g, 'w) machine"
  assumes ok: "state_inv h k m" and host: "host_ok h" and u: "useconds \<noteq> 0"
    and x: "v_realtime x = r" "v_period x = ucast useconds"
      "v_timeToFire x = current_timers_time (mtimes r m) + ucast useconds"
    and n: "n = v_numTimers (virt m) \<or> i = v_numTimers (virt m) \<and> n = v_numTimers (virt m) + 1" "n \<le> BX_MAX_VIRTUAL_TIMERS"
  shows "state_inv h k (sooner_event h r useconds
    (on_virt (\<lambda>v. v\<lparr>v_numTimers := n, v_timer := (v_timer v)(i := x)\<rparr>) m))"
proof -
  let ?m1 = "on_virt (\<lambda>v. v\<lparr>v_numTimers := n, v_timer := (v_timer v)(i := x)\<rparr>) m"
  let ?m' = "sooner_event h r useconds ?m1"
  let ?t = "mtimes r m"
  let ?t' = "if ucast useconds < timers_next_event_time ?t
      then ?t\<lparr>timers_next_event_time := ucast useconds, virtual_next_event_time :=
         ucast useconds + current_timers_time ?t - current_virtual_time ?t\<rparr>
      else ?t"
  have ids: "0 < system_timer_id (mtimes mode m)" for mode using ok by (simp add: state_inv_def)
  have virt: "times (virt ?m') = (times (virt m))(r := ?t')" "v_timer (virt ?m') = (v_timer (virt m))(i := x)"
    "v_numTimers (virt ?m') = n"
    by (auto simp: sooner_event_def next_event_time_update_virt fun_eq_iff)
  have sys: "sched_ok (sys ?m') \<and> time_ticks (sys ?m') = time_ticks (sys m)"
    using next_event_time_update_kept [OF host, where mode = r and
        m = "upd_times r (\<lambda>t. t\<lparr>timers_next_event_time := ucast useconds\<rparr>) ?m1"] ok ids
    by (simp add: sooner_event_def state_inv_def)
  have "mode_inv (k mode) (virt ?m') mode" for mode
  proof (cases "mode = r")
    case True
    have "mode_inv (k r) (virt m) r" using ok by (simp add: state_inv_def)
    then show ?thesis
      unfolding True by (rule install_mode [OF _ u x(2,3) n(1) refl]) (simp_all add: virt)
  next
    case False
    then have "mode_inv (k mode) (virt m) mode" using ok by (simp add: state_inv_def)
    then show ?thesis
      using False vtable_other [OF _ _ n(1), where x = x] x(1) by (simp add: mode_inv_parts virt)
  qed
  moreover have "emulated_usec h ?m' = emulated_usec h m"
    using sys by (simp add: emulated_usec_def pc_time_usec_def)
  ultimately show ?thesis
    using ok sys n(2) by (auto simp: state_inv_def virt)
qed

text \<open>The requests a device makes, by itself or in a handler.\<close>

datatype ('f, 'g) vrequest =
    V_Activate nat Bit32u bool
  | V_Deactivate nat
  | V_Unregister nat
  | V_Service "'f timer_request"

fun run_vrequest :: "host \<Rightarrow> ('f, 'g) vrequest \<Rightarrow> ('f, 'g, 'w) machine \<Rightarrow> ('f, 'g, 'w) machine" where
  "run_vrequest h (V_Activate i useconds cont) m = v_activate_timer h i useconds cont m"
| "run_vrequest h (V_Deactivate i) m = v_deactivate_timer i m"
| "run_vrequest h (V_Unregister i) m = snd (v_unregisterTimer i m)"
| "run_vrequest h (V_Service r) m = on_sys (run_request r) m"

fun vrequest_ok :: "('f, 'g) vrequest \<Rightarrow> bool" where
  "vrequest_ok (V_Activate i useconds cont) = (useconds \<noteq> 0)"
| "vrequest_ok (V_Service r) = request_ok r"
| "vrequest_ok _ = True"

lemma v_activate_ok:
  assumes "state_inv h k m" "host_ok h" "useconds \<noteq> 0"
  shows "state_inv h k (v_activate_timer h i useconds cont m)"
proof -
  define x where "x = (vtimer i m)\<lparr>v_period := ucast useconds,
    v_timeToFire := current_timers_time (mtimes (v_realtime (vtimer i m)) m) + ucast useconds, v_active := True, v_continuous := cont\<rparr>"
  have "v_activate_timer h i useconds cont m = sooner_event h (v_realtime (vtimer i m)) useconds
      (on_virt (\<lambda>v. v\<lparr>v_numTimers := v_numTimers (virt m), v_timer := (v_timer v)(i := x)\<rparr>) m)"
    by (simp add: v_activate_timer_def Let_def upd_vtimer_def on_virt_def x_def)
  then show ?thesis
    using install_ok [OF assms, of x "v_realtime (vtimer i m)" "v_numTimers (virt m)" i] assms(1)
    by (simp add: x_def state_inv_def)
qed

lemma v_free_slot_le: "i \<le> v_numTimers v \<Longrightarrow> v_free_slot v i \<le> v_numTimers v"
  by (induction v i rule: v_free_slot.induct) (subst v_free_slot.simps, auto)

lemma v_register_ok:
  assumes ok: "state_inv h k m" and host: "host_ok h" and u: "useconds \<noteq> 0" and n: "v_numTimers (virt m) < BX_MAX_VIRTUAL_TIMERS"
  shows "state_inv h k (snd (v_register_timer h handler useconds cont act realtime ident m))"
proof -
  define i where "i = v_free_slot (virt m) 0"
  have i: "i \<le> v_numTimers (virt m)" by (simp add: i_def v_free_slot_le)
  define n' where "n' = (if i = v_numTimers (virt m) then v_numTimers (virt m) + 1 else v_numTimers (virt m))"
  define x where "x = (vtimer i m)\<lparr>v_inUse := True, v_period := ucast useconds,
    v_timeToFire := current_timers_time (mtimes realtime m) + ucast useconds, v_active := act, v_realtime := realtime,
    v_continuous := cont, v_funct := handler, v_id := take (BxMaxTimerIDLen - 1) ident\<rparr>"
  have "snd (v_register_timer h handler useconds cont act realtime ident m) = sooner_event h realtime useconds
      (on_virt (\<lambda>v. v\<lparr>v_numTimers := n', v_timer := (v_timer v)(i := x)\<rparr>) m)"
    by (simp add: v_register_timer_def Let_def upd_vtimer_def on_virt_def x_def n'_def flip: i_def)
  then show ?thesis
    using install_ok [OF ok host u, of x realtime n' i] n
    by (simp add: x_def n'_def split: if_splits)
qed

lemma mode_inv_fewer:
  assumes "mode_inv k v mode" "times v' = times v" "v_numTimers v' \<le> v_numTimers v"
    "\<And>i. live mode (v_timer v' i) \<Longrightarrow> v_timer v' i = v_timer v i"
  shows "mode_inv k v' mode"
  using assms by (fastforce simp: mode_inv_parts vtable_inv_def)

lemma state_inv_virt:
  assumes "state_inv h k m" "sched_ok (sys m')" "time_ticks (sys m') = time_ticks (sys m)"
    "times (virt m') = times (virt m)" "v_numTimers (virt m') \<le> v_numTimers (virt m)"
    "\<And>mode i. live mode (vtimer i m') \<Longrightarrow> vtimer i m' = vtimer i m"
  shows "state_inv h k m'"
  using assms mode_inv_fewer [OF _ assms(4,5,6)]
  by (simp add: state_inv_def emulated_usec_def pc_time_usec_def)

lemma state_inv_sched: "state_inv h k m \<Longrightarrow> sched_ok (sys m)"
  by (simp add: state_inv_def)

lemma vrequest_keeps:
  assumes ok: "state_inv h k m" and host: "host_ok h" and r: "vrequest_ok r"
  shows "state_inv h k (run_vrequest h r m)"
proof (cases r)
  case (V_Activate i useconds cont)
  then show ?thesis using v_activate_ok [OF ok host] r by simp
next
  case (V_Deactivate i)
  show ?thesis
    by (rule state_inv_virt [OF ok])
      (auto simp: V_Deactivate v_deactivate_timer_def live_def state_inv_sched [OF ok] split: if_splits)
next
  case (V_Unregister i)
  show ?thesis
    by (rule state_inv_virt [OF ok])
      (auto simp: V_Unregister v_unregisterTimer_def Let_def live_def state_inv_sched [OF ok] split: if_splits)
next
  case (V_Service q)
  then show ?thesis
    using requests_keep [OF state_inv_sched [OF ok], of q] r
    by (intro state_inv_virt [OF ok]) (simp_all add: on_sys_def)
qed

text \<open>No clock moves, and no system timer changes hands.\<close>

definition same_clocks :: "('f, 'g, 'w) machine \<Rightarrow> ('f, 'g, 'w) machine \<Rightarrow> bool" where
  "same_clocks m m' \<longleftrightarrow> time_ticks (sys m') = time_ticks (sys m) \<and>
    (\<forall>mode. current_timers_time (mtimes mode m') = current_timers_time (mtimes mode m) \<and>
       current_virtual_time (mtimes mode m') = current_virtual_time (mtimes mode m))"

lemma same_clocks_refl [simp]: "same_clocks m m"
  by (simp add: same_clocks_def)

lemma same_clocks_trans: "same_clocks m m' \<Longrightarrow> same_clocks m' m'' \<Longrightarrow> same_clocks m m''"
  by (simp add: same_clocks_def)

lemma update_clocks:
  assumes "host_ok h" "0 < system_timer_id (mtimes mode m)" "sched_ok (sys m)"
  shows "same_clocks m (next_event_time_update h mode m)"
  using next_event_time_update_kept [OF assms] by (simp add: same_clocks_def next_event_time_update_virt)

lemma sooner_clocks:
  assumes "host_ok h" "\<And>mode. 0 < system_timer_id (mtimes mode m)" "sched_ok (sys m)"
  shows "same_clocks m (sooner_event h mode useconds m)"
  using update_clocks [OF assms(1), where mode = mode and
      m = "upd_times mode (\<lambda>t. t\<lparr>timers_next_event_time := ucast useconds\<rparr>) m"] assms
  by (simp add: sooner_event_def same_clocks_def)

lemma vrequest_clocks:
  assumes ok: "state_inv h k m" and host: "host_ok h" and r: "vrequest_ok r"
  shows "same_clocks m (run_vrequest h r m)"
proof (cases r)
  case (V_Activate i useconds cont)
  have "same_clocks (upd_vtimer i f m) (sooner_event h mode useconds (upd_vtimer i f m))" for f mode
    using ok by (intro sooner_clocks host) (simp_all add: state_inv_def)
  then show ?thesis
    unfolding V_Activate run_vrequest.simps v_activate_timer_def Let_def
    by (rule same_clocks_trans [rotated]) (simp add: same_clocks_def)
next
  case (V_Service q)
  then show ?thesis
    using requests_keep [OF state_inv_sched [OF ok], of q] r by (simp add: same_clocks_def on_sys_def)
qed (simp_all add: same_clocks_def v_deactivate_timer_def v_unregisterTimer_def Let_def)

section \<open>Events keep the invariant\<close>

locale virtual_handlers =
  fixes h :: host and call :: "('f, 'g, 'w) vhandler"
  assumes host: "host_ok h"
    and call_inv: "state_inv h k m \<Longrightarrow> state_inv h k (call g m)"
    and call_clocks: "state_inv h k m \<Longrightarrow> same_clocks m (call g m)"
begin

lemma fire_inv:
  assumes ok: "state_inv h (ks(mode := Some k)) m"
  shows "state_inv h (ks(mode := Some (Suc k))) (fire_virtual call mode k m) \<and> same_clocks m (fire_virtual call mode k m)"
proof -
  let ?x = "vtimer k m" and ?c = "current_timers_time (mtimes mode m)" and ?n = "v_numTimers (virt m)"
  let ?fires = "k < ?n \<and> v_inUse ?x \<and> v_active ?x \<and> v_realtime ?x = mode \<and> v_timeToFire ?x = ?c"
  define f where "f = (\<lambda>t :: 'g virtual_timer. if v_continuous t then t\<lparr>v_timeToFire := v_timeToFire t + v_period t\<rparr>
    else t\<lparr>v_active := False\<rparr>)"
  define m1 where "m1 = (if ?fires then upd_vtimer k f m else m)"
  have modes: "mode_inv ((ks(mode := Some k)) md) (virt m) md" for md
    using ok by (simp add: state_inv_def)
  have here: "clock_inv (Some k) (mtimes mode m)"
    "vtable_inv (earliest_due (Some k) (mtimes mode m)) (unat ?c) (v_timer (virt m)) ?n mode"
    using modes [of mode] by (simp_all add: mode_inv_parts)
  have virt: "times (virt m1) = times (virt m)" "v_numTimers (virt m1) = ?n" "sys m1 = sys m"
    "v_timer (virt m1) = (v_timer (virt m))(k := if ?fires then f ?x else ?x)"
    by (simp_all add: m1_def)
  have "mode_inv ((ks(mode := Some (Suc k))) md) (virt m1) md" for md
  proof (cases "md = mode")
    case False
    then show ?thesis
      using modes [of md] by (auto simp: mode_inv_parts virt vtable_inv_def live_def f_def)
  next
    case True
    have "vtable_inv (earliest_due (Some (Suc k)) (mtimes mode m)) (unat ?c) (v_timer (virt m1)) ?n mode"
      unfolding virt
    proof (rule vtable_install [OF here(2)])
      fix j assume "j \<noteq> k"
      then show "earliest_due (Some (Suc k)) (mtimes mode m) j \<le> earliest_due (Some k) (mtimes mode m) j"
        by (simp add: earliest_due_def)
    next
      assume k: "k < ?n" and l: "live mode (if ?fires then f ?x else ?x)"
      have "live mode ?x" using l by (auto simp: live_def f_def split: if_splits)
      then have x: "vt_ok (unat ?c) (unat ?c) ?x"
        using here(2) [unfolded vtable_inv_def, THEN spec [of _ k]] k by (simp add: earliest_due_def)
      show "vt_ok (earliest_due (Some (Suc k)) (mtimes mode m) k) (unat ?c) (if ?fires then f ?x else ?x)"
      proof (cases ?fires)
        case True
        have cont: "v_continuous ?x" using l True by (auto simp: live_def f_def split: if_splits)
        have "unat (v_timeToFire ?x + v_period ?x) = unat ?c + unat (v_period ?x)"
          using here(1) x True by (subst unat_sum) (simp_all add: clock_inv_def vt_ok_def)
        then show ?thesis
          using True x cont by (simp add: f_def vt_ok_def earliest_due_def)
      next
        case False
        then have "v_timeToFire ?x \<noteq> ?c" using k \<open>live mode ?x\<close> by (auto simp: live_def)
        then have "unat (v_timeToFire ?x) \<noteq> unat ?c" by (simp add: word_unat_eq_iff)
        then show ?thesis unfolding if_not_P [OF False] using x by (simp add: vt_ok_def earliest_due_def)
      qed
    qed simp
    then show ?thesis
      using True here(1) by (simp add: mode_inv_parts virt clock_inv_def)
  qed
  then have inv1: "state_inv h (ks(mode := Some (Suc k))) m1"
    using ok by (simp add: state_inv_def virt emulated_usec_def)
  have clocks1: "same_clocks m m1" by (simp add: same_clocks_def virt)
  have "fire_virtual call mode k m = (if ?fires then call (v_funct ?x) m1 else m1)"
    by (simp add: fire_virtual_def Let_def m1_def f_def)
  then show ?thesis
    using inv1 clocks1 call_inv [OF inv1] same_clocks_trans [OF clocks1 call_clocks [OF inv1]] by simp
qed

lemma fires_inv:
  assumes "state_inv h (ks(mode := Some 0)) m"
  shows "state_inv h (ks(mode := Some k)) (fold (fire_virtual call mode) [0..<k] m) \<and>
    same_clocks m (fold (fire_virtual call mode) [0..<k] m)"
proof (induction k)
  case (Suc k)
  let ?m = "fold (fire_virtual call mode) [0..<k] m"
  have "state_inv h (ks(mode := Some (Suc k))) (fire_virtual call mode k ?m) \<and> same_clocks ?m (fire_virtual call mode k ?m)"
    using Suc by (intro fire_inv) blast
  moreover have "fold (fire_virtual call mode) [0..<Suc k] m = fire_virtual call mode k ?m" by simp
  ultimately show ?case
    using Suc same_clocks_trans [of m ?m "fire_virtual call mode k ?m"] by metis
qed (use assms in \<open>simp add: fun_upd_def\<close>)

end

text \<open>The second loop finds the earliest_due live timer.\<close>

lemma earlier_event_fold:
  "fold (earlier_event v mode) is e = e' \<Longrightarrow>
    e' \<le> e \<and> (\<forall>i\<in>set is. live mode (v_timer v i) \<longrightarrow> e' \<le> v_timeToFire (v_timer v i)) \<and>
    (e' = e \<or> (\<exists>i\<in>set is. live mode (v_timer v i) \<and> e' = v_timeToFire (v_timer v i)))"
proof (induction "is" arbitrary: e)
  case (Cons i "is")
  let ?e = "earlier_event v mode i e"
  have e: "?e \<le> e" "live mode (v_timer v i) \<longrightarrow> ?e \<le> v_timeToFire (v_timer v i)"
    "?e = e \<or> live mode (v_timer v i) \<and> ?e = v_timeToFire (v_timer v i)"
    by (auto simp: earlier_event_def Let_def live_def)
  show ?case using Cons.IH [of ?e] Cons.prems e by (auto intro: order_trans)
qed simp

lemma next_event_sel [simp]:
  "sys (next_event mode m) = sys m" "rest (next_event mode m) = rest m"
  "v_timer (virt (next_event mode m)) = v_timer (virt m)"
  "v_numTimers (virt (next_event mode m)) = v_numTimers (virt m)"
  by (simp_all add: next_event_def Let_def)

lemma next_event_inv:
  assumes ok: "state_inv h (ks(mode := Some BX_MAX_VIRTUAL_TIMERS)) m" and host: "host_ok h"
  shows "state_inv h (ks(mode := None)) (next_event_time_update h mode (next_event mode m)) \<and>
    same_clocks m (next_event_time_update h mode (next_event mode m))"
proof -
  define e where "e = fold (earlier_event (virt m) mode) [0..<v_numTimers (virt m)]
      (current_timers_time (mtimes mode m) + BX_MAX_VIRTUAL_TIME)"
  let ?t = "mtimes mode m" and ?n = "v_numTimers (virt m)" and ?f = "v_timer (virt m)"
  let ?c = "unat (current_timers_time ?t)" and ?m' = "next_event_time_update h mode (next_event mode m)"
  define tn where "tn = e - current_timers_time ?t"
  define t' where "t' = ?t\<lparr>timers_next_event_time := tn,
    virtual_next_event_time := tn + current_timers_time ?t - current_virtual_time ?t\<rparr>"
  have modes: "mode_inv ((ks(mode := Some BX_MAX_VIRTUAL_TIMERS)) md) (virt m) md" for md
    using ok by (simp add: state_inv_def)
  have n: "?n \<le> BX_MAX_VIRTUAL_TIMERS" using ok by (simp add: state_inv_def)
  have clock: "unat (current_virtual_time ?t) \<le> ?c" "?c < 2 ^ 62"
    and table: "vtable_inv (earliest_due (Some BX_MAX_VIRTUAL_TIMERS) ?t) ?c ?f ?n mode"
    using modes [of mode] by (simp_all add: mode_inv_parts clock_inv_def)
  have fires: "vt_ok (?c + 1) ?c (?f i)" if "i < ?n" "live mode (?f i)" for i
    using table [unfolded vtable_inv_def, THEN spec [of _ i]] that n by (simp add: earliest_due_def)
  have lim: "unat (current_timers_time ?t + BX_MAX_VIRTUAL_TIME) = ?c + 0x7fffffff"
    using clock by (subst unat_sum) (simp_all add: BX_MAX_VIRTUAL_TIME_def)
  note found = earlier_event_fold [OF e_def [symmetric]]
  have e: "?c < unat e" "unat e \<le> ?c + 0x7fffffff"
  proof -
    show "unat e \<le> ?c + 0x7fffffff" using found lim by (simp add: word_le_nat_alt)
    from found have "e = current_timers_time ?t + BX_MAX_VIRTUAL_TIME \<or>
        (\<exists>i. i < ?n \<and> live mode (?f i) \<and> e = v_timeToFire (?f i))" by auto
    then show "?c < unat e"
    proof (elim disjE exE conjE)
      fix i assume "i < ?n" "live mode (?f i)" "e = v_timeToFire (?f i)"
      then show ?thesis using fires [of i] by (simp add: vt_ok_def)
    qed (use lim in simp)
  qed
  have tn: "unat tn = unat e - ?c"
    using e by (simp add: tn_def unat_diff word_le_nat_alt)
  have times: "times (virt ?m') = (times (virt m))(mode := t')" "v_timer (virt ?m') = ?f" "v_numTimers (virt ?m') = ?n"
    by (auto simp: next_event_time_update_virt next_event_def Let_def t'_def tn_def e_def fun_eq_iff)
  have "unat (current_virtual_time ?t) + unat (tn + current_timers_time ?t - current_virtual_time ?t) = ?c + unat tn"
    using clock e tn by (intro next_time) simp_all
  then have clock': "clock_inv None t'"
    using clock e tn by (simp add: clock_inv_def t'_def word_less_nat_alt word_le_nat_alt)
  have "vt_ok (?c + unat tn) ?c (?f i)" if "i < ?n" "live mode (?f i)" for i
  proof -
    have "e \<le> v_timeToFire (?f i)" using found that by simp
    then show ?thesis using fires [OF that] tn e by (simp add: vt_ok_def word_le_nat_alt)
  qed
  note late = this
  have "mode_inv ((ks(mode := None)) md) (virt ?m') md" for md
  proof (cases "md = mode")
    case True
    then show ?thesis
      using clock' late by (simp add: mode_inv_parts times vtable_inv_def earliest_due_def) (simp add: t'_def)
  next
    case False
    then show ?thesis using modes [of md] by (simp add: mode_inv_parts times)
  qed
  moreover have ids: "0 < system_timer_id (mtimes md m)" for md using ok by (simp add: state_inv_def)
  have clocks: "same_clocks m ?m'"
    using update_clocks [OF host, where mode = mode and m = "next_event mode m"] ids state_inv_sched [OF ok]
    by (simp add: same_clocks_def next_event_def Let_def)
  moreover have "sched_ok (sys ?m')"
    using next_event_time_update_kept [OF host, where mode = mode and m = "next_event mode m"] ids state_inv_sched [OF ok]
    by (simp add: next_event_def Let_def)
  ultimately show ?thesis
    using ok clocks by (simp add: state_inv_def emulated_usec_def pc_time_usec_def same_clocks_def times t'_def)
qed

lemma handler_flag_inv:
  "state_inv h k (on_virt (\<lambda>v. v\<lparr>in_timer_handler := b\<rparr>) m) = state_inv h k m"
  "same_clocks m (on_virt (\<lambda>v. v\<lparr>in_timer_handler := b\<rparr>) m)"
  by (simp_all add: state_inv_def mode_inv_def emulated_usec_def same_clocks_def)

lemma realtime_steps:
  "times (watch_realtime h d v) = times v" "v_timer (watch_realtime h d v) = v_timer v"
  "v_numTimers (watch_realtime h d v) = v_numTimers v"
  "times (account_ticks d e k v) = times v" "v_timer (account_ticks d e k v) = v_timer v"
  "v_numTimers (account_ticks d e k v) = v_numTimers v"
  "times (measure_speed h d v) = times v" "v_timer (measure_speed h d v) = v_timer v"
  "v_numTimers (measure_speed h d v) = v_numTimers v"
  by (simp_all add: watch_realtime_def account_ticks_def measure_speed_def Let_def)

lemma limit_ticks_le: "limit_ticks e k v \<le> virtual_next_event_time (times v True)"
  by (simp add: limit_ticks_def Let_def not_less)

lemma realtime_ticks_times:
  assumes "realtime_ticks h u v = (t, v')"
  shows "times v' = times v" "v_timer v' = v_timer v" "v_numTimers v' = v_numTimers v"
    and "t \<le> virtual_next_event_time (times v True)"
  using assms limit_ticks_le [of _ _ "watch_realtime h (realtime_usec h - last_real_time v - real_time_delay v) v"]
  by (auto simp: realtime_ticks_def Let_def realtime_steps)

context virtual_handlers
begin

lemma events_inv:
  assumes "state_inv h (ks(mode := Some 0)) m"
  shows "state_inv h (ks(mode := None)) (virtual_events h call mode m) \<and> same_clocks m (virtual_events h call mode m)"
proof -
  let ?m1 = "on_virt (\<lambda>v. v\<lparr>in_timer_handler := True\<rparr>) m"
  let ?m2 = "fold (fire_virtual call mode) [0..<BX_MAX_VIRTUAL_TIMERS] ?m1"
  let ?m3 = "on_virt (\<lambda>v. v\<lparr>in_timer_handler := False\<rparr>) ?m2"
  have "state_inv h (ks(mode := Some BX_MAX_VIRTUAL_TIMERS)) ?m2 \<and> same_clocks ?m1 ?m2"
    using assms by (intro fires_inv) (simp add: handler_flag_inv)
  then have "state_inv h (ks(mode := Some BX_MAX_VIRTUAL_TIMERS)) ?m3 \<and> same_clocks m ?m3"
    using handler_flag_inv(2) same_clocks_trans by (metis handler_flag_inv(1))
  then show ?thesis
    using next_event_inv [OF _ host, of ks mode ?m3] same_clocks_trans
    unfolding virtual_events_def Let_def by blast
qed

text \<open>Time passes up to the next event of a mode, and the virtual clock with it.\<close>

lemma retime_inv:
  assumes ok: "state_inv h at_rest m"
    and m': "times (virt m') = (times (virt m))(mode := t')" "v_timer (virt m') = v_timer (virt m)"
      "v_numTimers (virt m') = v_numTimers (virt m)" "sys m' = sys m" "system_timer_id t' = system_timer_id (mtimes mode m)"
    and clock: "clock_inv k t'"
    and c: "unat (current_timers_time (mtimes mode m)) \<le> unat (current_timers_time t')"
    and e: "\<And>i. earliest_due k t' i \<le> earliest_due None (mtimes mode m) i"
    and behind: "\<not> mode \<Longrightarrow> unat (current_virtual_time t') \<le> emulated_usec h m"
  shows "state_inv h (at_rest(mode := k)) m'"
proof -
  have modes: "mode_inv None (virt m) md" for md using ok by (simp add: state_inv_def)
  have "vt_ok (earliest_due k t' i) (unat (current_timers_time t')) (vtimer i m)"
    if "i < v_numTimers (virt m)" "live mode (vtimer i m)" for i
  proof -
    have "vt_ok (earliest_due None (mtimes mode m) i) (unat (current_timers_time (mtimes mode m))) (vtimer i m)"
      using modes [of mode] that by (simp add: mode_inv_parts vtable_inv_def)
    then show ?thesis using c order_trans [OF e [of i]] by (auto simp: vt_ok_def)
  qed
  then have "mode_inv ((at_rest(mode := k)) md) (virt m') md" for md
    using clock modes [of md] by (cases "md = mode") (simp_all add: mode_inv_parts m' vtable_inv_def [of "earliest_due k t'"])
  then show ?thesis
    using ok behind by (auto simp: state_inv_def m' emulated_usec_def)
qed

lemma advance_cases:
  fixes m :: "('f, 'g, 'w) machine"
  assumes ok: "state_inv h at_rest m" and t: "t \<le> virtual_next_event_time (mtimes mode m)"
    and lim: "unat (current_virtual_time (mtimes mode m)) + unat t < 2 ^ 62"
    and behind: "\<not> mode \<Longrightarrow> unat (current_virtual_time (mtimes mode m)) + unat t \<le> emulated_usec h m"
  obtains m2 where "sys m2 = sys m" "v_timer (virt m2) = v_timer (virt m)" "v_numTimers (virt m2) = v_numTimers (virt m)"
    "rest m2 = rest m" "\<And>mode'. mode' \<noteq> mode \<Longrightarrow> mtimes mode' m2 = mtimes mode' m"
    "current_virtual_time (mtimes mode m2) = current_virtual_time (mtimes mode m) + t"
    "unat (current_timers_time (mtimes mode m)) \<le> unat (current_timers_time (mtimes mode m2))"
    "current_timers_time (mtimes mode m2) = current_timers_time (mtimes mode m) \<or>
     current_timers_time (mtimes mode m2) = current_virtual_time (mtimes mode m2)"
    "advance_virtual_time h call t mode m = m2 \<and> state_inv h at_rest m2 \<and>
       unat (current_timers_time (mtimes mode m2)) <
         unat (current_timers_time (mtimes mode m)) + unat (timers_next_event_time (mtimes mode m)) \<or>
     advance_virtual_time h call t mode m = virtual_events h call mode m2 \<and> state_inv h (at_rest(mode := Some 0)) m2 \<and>
       unat (current_timers_time (mtimes mode m)) < unat (current_timers_time (mtimes mode m2)) \<and>
       unat (current_timers_time (mtimes mode m2)) \<le>
         unat (current_timers_time (mtimes mode m)) + unat (timers_next_event_time (mtimes mode m))"
proof -
  let ?T = "mtimes mode m" and ?m' = "advance_virtual_time h call t mode m"
  let ?c = "unat (current_timers_time ?T)" and ?v = "unat (current_virtual_time ?T)"
    and ?n = "unat (timers_next_event_time ?T)" and ?vn = "unat (virtual_next_event_time ?T)"
  define t1 where "t1 = ?T\<lparr>current_virtual_time := current_virtual_time ?T + t, virtual_next_event_time := virtual_next_event_time ?T - t\<rparr>"
  define m1 where "m1 = upd_times mode (\<lambda>t'. t'\<lparr>current_virtual_time := current_virtual_time t' + t,
      virtual_next_event_time := virtual_next_event_time t' - t\<rparr>) m"
  have clock: "?v \<le> ?c" "?c < 2 ^ 62" "0 < ?n" "?n \<le> 0x7fffffff" "?v + ?vn = ?c + ?n"
    using ok by (auto simp: state_inv_def mode_inv_parts clock_inv_def word_less_nat_alt word_le_nat_alt)
  have t1: "unat (current_virtual_time t1) = ?v + unat t" "unat (virtual_next_event_time t1) = ?vn - unat t" "unat t \<le> ?vn"
    using lim t by (simp_all add: t1_def unat_sum unat_diff word_le_nat_alt)
  have m1: "mtimes mode m1 = t1" by (simp add: m1_def t1_def)
  have rest_triv: "at_rest(mode := None) = at_rest" by (rule fun_upd_triv [where f = at_rest])
  show thesis
  proof (cases "current_virtual_time t1 > current_timers_time t1")
    case False
    then have "?v + unat t \<le> ?c" using t1(1) by (simp add: t1_def not_less word_le_nat_alt)
    then have "state_inv h (at_rest(mode := None)) m1"
      using clock t1 behind by (intro retime_inv [OF ok, where t' = t1])
        (auto simp: m1_def t1_def clock_inv_def earliest_due_def word_less_nat_alt word_le_nat_alt fun_eq_iff)
    moreover have "?m' = m1"
      using False by (simp add: advance_virtual_time_def Let_def flip: m1_def) (simp add: m1)
    moreover have "sys m1 = sys m" "v_timer (virt m1) = v_timer (virt m)" "v_numTimers (virt m1) = v_numTimers (virt m)"
      "rest m1 = rest m" "\<And>mode'. mode' \<noteq> mode \<Longrightarrow> mtimes mode' m1 = mtimes mode' m"
      by (simp_all add: m1_def)
    moreover have "current_timers_time t1 = current_timers_time ?T"
      "current_virtual_time t1 = current_virtual_time ?T + t" by (simp_all add: t1_def)
    ultimately show ?thesis
      using clock(3) by (intro that [of m1]) (simp_all add: m1 rest_triv)
  next
    case True
    then have gt: "?c < ?v + unat t" using t1(1) by (simp add: t1_def word_less_nat_alt)
    define dt where "dt = current_virtual_time t1 - current_timers_time t1"
    define m2 where "m2 = pass_timers_time dt mode m1"
    define t2 where "t2 = t1\<lparr>timers_next_event_time := timers_next_event_time t1 - dt, current_timers_time := current_timers_time t1 + dt\<rparr>"
    have dt: "unat dt = ?v + unat t - ?c"
      using t1(1) gt by (simp add: dt_def unat_diff word_le_nat_alt t1_def)
    have le: "unat dt \<le> ?n" using clock t1 dt by simp
    have n2: "unat (timers_next_event_time t2) = ?n - unat dt"
      using le by (simp add: t2_def t1_def unat_diff word_le_nat_alt)
    have c2: "unat (current_timers_time t2) = ?v + unat t"
      using lim gt dt by (simp add: t2_def t1_def unat_sum)
    have v2: "current_virtual_time t2 = current_virtual_time t1" "virtual_next_event_time t2 = virtual_next_event_time t1"
      by (simp_all add: t2_def)
    have e2: "unat (current_timers_time t2) + unat (timers_next_event_time t2) = ?c + ?n"
      using c2 n2 dt le gt by simp
    have m2: "times (virt m2) = (times (virt m))(mode := t2)" "v_timer (virt m2) = v_timer (virt m)"
      "v_numTimers (virt m2) = v_numTimers (virt m)" "sys m2 = sys m" "system_timer_id t2 = system_timer_id ?T"
      by (auto simp: m2_def pass_timers_time_def m1_def t2_def t1_def fun_eq_iff)
    have r2: "rest m2 = rest m" by (simp add: m2_def pass_timers_time_def m1_def)
    have m'_eq: "?m' = (if dt < timers_next_event_time t2 then m2 else virtual_events h call mode m2)"
      using True by (simp add: advance_virtual_time_def v_periodic_def Let_def flip: m1_def)
        (simp add: m1 m2 flip: dt_def m2_def)
    have v2': "current_virtual_time t2 = current_virtual_time ?T + t" by (simp add: t2_def t1_def)
    have c2': "current_timers_time t2 = current_virtual_time t2" by (simp add: t2_def dt_def)
    show ?thesis
    proof (cases "dt < timers_next_event_time t2")
      case early: True
      have pos: "0 < unat (timers_next_event_time t2)" using early by (simp add: word_less_nat_alt)
      have "state_inv h (at_rest(mode := None)) m2"
      proof (rule retime_inv [OF ok m2])
        show "clock_inv None t2"
          using pos clock lim c2 n2 v2 t1 e2 by (simp add: clock_inv_def word_less_nat_alt word_le_nat_alt)
      qed (use c2 gt e2 behind v2 t1 in \<open>auto simp: earliest_due_def\<close>)
      then show ?thesis
        using early e2 pos c2 gt by (intro that [of m2]) (simp_all add: m'_eq m2 r2 v2' c2' rest_triv)
    next
      case False
      have "state_inv h (at_rest(mode := Some 0)) m2"
        by (rule retime_inv [OF ok m2]) (use c2 lim gt e2 behind v2 t1 in \<open>auto simp: earliest_due_def clock_inv_def\<close>)
      then show ?thesis
        using False e2 c2 gt by (intro that [of m2] disjI2) (simp_all add: m'_eq m2 r2 v2' c2')
    qed
  qed
qed

lemma advance_inv:
  assumes ok: "state_inv h at_rest m" and t: "t \<le> virtual_next_event_time (mtimes mode m)"
    and lim: "unat (current_virtual_time (mtimes mode m)) + unat t < 2 ^ 62"
    and behind: "\<not> mode \<Longrightarrow> unat (current_virtual_time (mtimes mode m)) + unat t \<le> emulated_usec h m"
  defines "m' \<equiv> advance_virtual_time h call t mode m"
  shows "state_inv h at_rest m'" and "time_ticks (sys m') = time_ticks (sys m)"
    and "current_virtual_time (mtimes mode m') = current_virtual_time (mtimes mode m) + t"
    and "mode' \<noteq> mode \<Longrightarrow> current_virtual_time (mtimes mode' m') = current_virtual_time (mtimes mode' m)"
proof -
  from advance_cases [OF ok t lim behind] obtain m2 where m2: "sys m2 = sys m"
    "\<And>mode'. mode' \<noteq> mode \<Longrightarrow> mtimes mode' m2 = mtimes mode' m"
    "current_virtual_time (mtimes mode m2) = current_virtual_time (mtimes mode m) + t"
    "m' = m2 \<and> state_inv h at_rest m2 \<or> m' = virtual_events h call mode m2 \<and> state_inv h (at_rest(mode := Some 0)) m2"
    unfolding m'_def by metis
  have triv: "at_rest(mode := None) = at_rest" by (rule fun_upd_triv [where f = at_rest])
  from m2(4) have "state_inv h at_rest m' \<and> same_clocks m2 m'"
    using events_inv [of at_rest mode m2] unfolding triv by auto
  then show "state_inv h at_rest m'" "time_ticks (sys m') = time_ticks (sys m)"
    "current_virtual_time (mtimes mode m') = current_virtual_time (mtimes mode m) + t"
    "mode' \<noteq> mode \<Longrightarrow> current_virtual_time (mtimes mode' m') = current_virtual_time (mtimes mode' m)"
    using m2(1,2,3) by (auto simp: same_clocks_def)
qed

lemma catch_up_inv:
  assumes ok: "state_inv h at_rest m"
    and lim: "unat (current_virtual_time (mtimes False m)) + unat t = emulated_usec h m" "emulated_usec h m < 2 ^ 62"
  shows "\<exists>m'. catch_up h call t m = Some m' \<and> state_inv h at_rest m' \<and> time_ticks (sys m') = time_ticks (sys m) \<and>
    current_virtual_time (mtimes False m') = pc_time_usec (ticks_usec h) (sys m)"
  using assms
proof (induction "unat t" arbitrary: t m rule: less_induct)
  case less
  let ?vn = "virtual_next_event_time (mtimes False m)" and ?v = "current_virtual_time (mtimes False m)"
  let ?U = "pc_time_usec (ticks_usec h) (sys m)"
  have U: "?v + t = ?U"
    using less.prems(2,3) by (simp add: word_unat_eq_iff emulated_usec_def unat_sum)
  consider "t = 0" | "t > ?vn" "t \<noteq> 0" | "t \<le> ?vn" "t \<noteq> 0" by fastforce
  then show ?case
  proof cases
    case 1
    then show ?thesis using less.prems U by (subst catch_up.simps) simp
  next
    case 2
    let ?m' = "advance_virtual_time h call ?vn False m"
    have gt: "unat ?vn < unat t" using 2 by (simp add: word_less_nat_alt)
    have adv: "state_inv h at_rest ?m'" "time_ticks (sys ?m') = time_ticks (sys m)"
      "current_virtual_time (mtimes False ?m') = ?v + ?vn"
      using less.prems gt by (auto intro!: advance_inv simp: emulated_usec_def)
    have pos: "0 < unat ?vn"
      using less.prems(1) by (auto simp: state_inv_def mode_inv_parts clock_inv_def word_less_nat_alt dest: spec [of _ False])
    have U': "emulated_usec h ?m' = emulated_usec h m" "pc_time_usec (ticks_usec h) (sys ?m') = ?U"
      by (simp_all add: emulated_usec_def pc_time_usec_def adv)
    have t': "unat (t - ?vn) = unat t - unat ?vn" using gt by (simp add: unat_diff word_le_nat_alt)
    have v': "unat (?v + ?vn) = unat ?v + unat ?vn"
      using less.prems(2,3) gt by (simp add: unat_sum)
    have "\<exists>m'. catch_up h call (t - ?vn) ?m' = Some m' \<and> state_inv h at_rest m' \<and> time_ticks (sys m') = time_ticks (sys ?m') \<and>
        current_virtual_time (mtimes False m') = pc_time_usec (ticks_usec h) (sys ?m')"
      using less.prems(2,3) adv(1,3) U' t' v' gt pos by (intro less.hyps) simp_all
    then show ?thesis
      using 2 adv(2) U'(2) by (subst catch_up.simps) simp
  next
    case 3
    let ?m' = "advance_virtual_time h call t False m"
    have "state_inv h at_rest ?m'" "time_ticks (sys ?m') = time_ticks (sys m)"
      "current_virtual_time (mtimes False ?m') = ?v + t"
      using less.prems 3 by (auto intro!: advance_inv simp: emulated_usec_def)
    moreover have "\<not> ?vn < t" using 3 by (simp add: not_less)
    ultimately show ?thesis
      using 3 U by (subst catch_up.simps) simp
  qed
qed

lemma rearm_inv:
  assumes ok: "state_inv h at_rest m"
  shows "state_inv h at_rest (rearm_system_timer h m)" "time_ticks (sys (rearm_system_timer h m)) = time_ticks (sys m)"
    "virt (rearm_system_timer h m) = virt m"
proof -
  define u where "u = (if virtual_next_event_time (mtimes False m) > 2 then virtual_next_event_time (mtimes False m) - 2 else 1)"
  have "u \<noteq> 0" by (auto simp: u_def)
  then have "sched_ok (sys (system_timer h False u m)) \<and> time_ticks (sys (system_timer h False u m)) = time_ticks (sys m)"
    using ok by (intro system_timer_kept host) (simp_all add: state_inv_def)
  then show "state_inv h at_rest (rearm_system_timer h m)" "time_ticks (sys (rearm_system_timer h m)) = time_ticks (sys m)"
    "virt (rearm_system_timer h m) = virt m"
    using state_inv_virt [OF ok, of "rearm_system_timer h m"] by (simp_all add: rearm_system_timer_def Let_def u_def [symmetric])
qed

lemma caught_up:
  assumes ok: "state_inv h at_rest m" and lim: "emulated_usec h m < 2 ^ 62"
  shows "\<exists>m'. catch_up h call (pc_time_usec (ticks_usec h) (sys m) - current_virtual_time (mtimes False m)) m = Some m' \<and>
    timer_handler_0 h call m = Some (rearm_system_timer h m') \<and> state_inv h at_rest m' \<and> time_ticks (sys m') = time_ticks (sys m) \<and>
    current_virtual_time (mtimes False m') = pc_time_usec (ticks_usec h) (sys m)"
proof -
  let ?t = "pc_time_usec (ticks_usec h) (sys m) - current_virtual_time (mtimes False m)"
  have "unat (current_virtual_time (mtimes False m)) \<le> emulated_usec h m" using ok by (simp add: state_inv_def)
  then have "unat (current_virtual_time (mtimes False m)) + unat ?t = emulated_usec h m"
    by (simp add: emulated_usec_def unat_diff word_le_nat_alt)
  from catch_up_inv [OF ok this lim] show ?thesis by (auto simp: timer_handler_0_def)
qed

lemma handler_catches_up:
  assumes ok: "state_inv h at_rest m" and lim: "emulated_usec h m < 2 ^ 62"
  shows "\<exists>m'. timer_handler_0 h call m = Some m' \<and> state_inv h at_rest m' \<and> time_ticks (sys m') = time_ticks (sys m) \<and>
    current_virtual_time (mtimes False m') = pc_time_usec (ticks_usec h) (sys m)"
  using caught_up [OF assms] rearm_inv by fastforce

lemma handler_1_inv:
  assumes ok: "state_inv h at_rest m"
    and lim: "unat (current_virtual_time (mtimes True m)) + unat (virtual_next_event_time (mtimes True m)) < 2 ^ 62"
  shows "state_inv h at_rest (timer_handler_1 h call m) \<and> time_ticks (sys (timer_handler_1 h call m)) = time_ticks (sys m)"
proof -
  define u where "u = pc_time_usec (ticks_usec h) (sys m) - v_last_usec (virt m)"
  define m1 where "m1 = (if u \<noteq> 0 then (let (t, v) = realtime_ticks h u (virt m) in advance_virtual_time h call t True (m\<lparr>virt := v\<rparr>)) else m)"
  have m1: "state_inv h at_rest m1 \<and> time_ticks (sys m1) = time_ticks (sys m)"
  proof (cases "u = 0")
    case False
    obtain t v where t: "realtime_ticks h u (virt m) = (t, v)" by fastforce
    let ?m0 = "m\<lparr>virt := v\<rparr>"
    note r = realtime_ticks_times [OF t]
    have le: "t \<le> virtual_next_event_time (mtimes True m)" by (rule r(4))
    have "state_inv h at_rest ?m0"
      using ok r by (intro state_inv_virt [OF ok]) (simp_all add: state_inv_def)
    moreover have "unat t \<le> unat (virtual_next_event_time (mtimes True m))"
      using le by (simp add: word_le_nat_alt)
    ultimately have "state_inv h at_rest (advance_virtual_time h call t True ?m0)"
      "time_ticks (sys (advance_virtual_time h call t True ?m0)) = time_ticks (sys ?m0)"
      using le lim r(1) by (intro advance_inv; simp)+
    then show ?thesis using False by (simp add: m1_def t)
  qed (use ok m1_def in simp)
  define m2 where "m2 = on_virt (\<lambda>v. v\<lparr>v_last_usec := v_last_usec v + u\<rparr>) m1"
  have m2: "state_inv h at_rest m2"
    using m1 by (intro state_inv_virt [OF conjunct1 [OF m1]]) (simp_all add: m2_def state_inv_def)
  have time: "time_ticks (sys m2) = time_ticks (sys m)" using m1 by (simp add: m2_def)
  have s: "sched_ok (sys (stop_system_timer True m2)) \<and> time_ticks (sys (stop_system_timer True m2)) = time_ticks (sys m2)"
    using m2 by (intro stop_system_timer_kept) (simp_all add: state_inv_def)
  have pos: "max 1 x \<noteq> (0 :: Bit64u)" for x by (auto simp: max_def)
  have sys: "sched_ok (sys (system_timer h True (max 1 x) (stop_system_timer True m2))) \<and>
      time_ticks (sys (system_timer h True (max 1 x) (stop_system_timer True m2))) = time_ticks (sys m2)" for x
    using system_timer_kept [OF host _ pos, where m = "stop_system_timer True m2" and mode = True] s m2
    by (simp add: state_inv_def)
  have "state_inv h at_rest (system_timer h True (max 1 x) (stop_system_timer True m2))" for x
    using sys by (intro state_inv_virt [OF m2]) simp_all
  moreover have "timer_handler_1 h call m = system_timer h True
      (max 1 (V_TICKS_TO_USEC (virt m2) (virtual_next_event_time (mtimes True m2)))) (stop_system_timer True m2)"
    unfolding timer_handler_1_def Let_def m2_def m1_def u_def ..
  ultimately show ?thesis using sys time by simp
qed

end

section \<open>Devices\<close>

text \<open>
  The handlers of devices: \<open>prog\<close> gives the requests a handler makes and its effect on the rest of the machine.
\<close>

type_synonym ('f, 'g, 'w) device = "'g \<Rightarrow> ('f, 'g, 'w) machine \<Rightarrow> ('f, 'g) vrequest list \<times> 'w"

definition run_device :: "host \<Rightarrow> ('f, 'g, 'w) device \<Rightarrow> ('f, 'g, 'w) vhandler" where
  "run_device h prog g m = (case prog g m of (rs, w) \<Rightarrow> fold (run_vrequest h) rs (m\<lparr>rest := w\<rparr>))"

definition well_behaved :: "('f, 'g, 'w) device \<Rightarrow> bool" where
  "well_behaved prog \<longleftrightarrow> (\<forall>g m. list_all vrequest_ok (fst (prog g m)))"

lemma rest_inv [simp]: "state_inv h k (m\<lparr>rest := w\<rparr>) = state_inv h k m"
  by (simp add: state_inv_def emulated_usec_def)

lemma vrequests_fold:
  "state_inv h k m \<Longrightarrow> host_ok h \<Longrightarrow> list_all vrequest_ok rs \<Longrightarrow>
    state_inv h k (fold (run_vrequest h) rs m) \<and> same_clocks m (fold (run_vrequest h) rs m)"
proof (induction rs arbitrary: m)
  case (Cons r rs)
  then show ?case
    using vrequest_keeps [of h k m r] vrequest_clocks [of h k m r] same_clocks_trans [of m "run_vrequest h r m"] by simp
qed simp

locale virtual_devices =
  fixes h :: host and prog :: "('f, 'g, 'w) device"
  assumes device_host: "host_ok h" and well_behaved: "well_behaved prog"

lemma device_handlers:
  fixes prog :: "('f, 'g, 'w) device"
  assumes "host_ok h" "well_behaved prog"
  shows "virtual_handlers h (run_device h prog)"
proof
  fix k g and m :: "('f, 'g, 'w) machine"
  assume ok: "state_inv h k m"
  obtain rs w where r: "prog g m = (rs, w)" by fastforce
  have "list_all vrequest_ok rs" using assms(2) r by (metis fst_conv well_behaved_def)
  then show "state_inv h k (run_device h prog g m)" "same_clocks m (run_device h prog g m)"
    using vrequests_fold [of h k "m\<lparr>rest := w\<rparr>" rs] ok assms(1)
    by (simp_all add: run_device_def r same_clocks_def)
qed (rule assms(1))

sublocale virtual_devices \<subseteq> virtual_handlers h "run_device h prog"
  by (rule device_handlers [OF device_host well_behaved])

section \<open>Reachable machines\<close>

definition v_boot :: "host \<Rightarrow> 'g \<Rightarrow> (bool \<Rightarrow> 'f) \<Rightarrow> 'f \<Rightarrow> Bit64u \<Rightarrow> 'g virt_timer \<Rightarrow> 'w \<Rightarrow> ('f, 'g, 'w) machine" where
  "v_boot h nullTimer handler sysNull ips v w = v_init h nullTimer handler ips \<lparr>virt = v_setup v, sys = power_up sysNull, rest = w\<rparr>"

text \<open>
  The machine at work: devices make requests and register timers, the emulated time
  passes in the timer service, and the service calls the two handlers. The host's clock may show anything.
\<close>

inductive v_reachable :: "host \<Rightarrow> ('f, 'g, 'w) device \<Rightarrow> ('f, 'g, 'w) machine \<Rightarrow> bool" for h prog where
  boot: "v_reachable h prog (v_boot h nullTimer handler sysNull ips v w)"
| device: "v_reachable h prog m \<Longrightarrow> vrequest_ok r \<Longrightarrow> v_reachable h prog ((run_vrequest h r m)\<lparr>rest := w\<rparr>)"
| register: "v_reachable h prog m \<Longrightarrow> useconds \<noteq> 0 \<Longrightarrow> v_numTimers (virt m) < BX_MAX_VIRTUAL_TIMERS \<Longrightarrow>
    v_reachable h prog (snd (v_register_timer h handler useconds cont act realtime ident m))"
| time: "v_reachable h prog m \<Longrightarrow> sched_ok s \<Longrightarrow> time_ticks (sys m) \<le> time_ticks s \<Longrightarrow> v_reachable h prog (m\<lparr>sys := s\<rparr>)"
| handler_0: "v_reachable h prog m \<Longrightarrow> emulated_usec h m < 2 ^ 62 \<Longrightarrow>
    timer_handler_0 h (run_device h prog) m = Some m' \<Longrightarrow> v_reachable h prog m'"
| handler_1: "v_reachable h prog m \<Longrightarrow>
    unat (current_virtual_time (mtimes True m)) + unat (virtual_next_event_time (mtimes True m)) < 2 ^ 62 \<Longrightarrow>
    h' = h\<lparr>realtime_usec := t\<rparr> \<Longrightarrow> v_reachable h prog (timer_handler_1 h' (run_device h' prog) m)"

lemma host_realtime [simp]:
  "host_ok (h\<lparr>realtime_usec := t\<rparr>) = host_ok h" "state_inv (h\<lparr>realtime_usec := t\<rparr>) = state_inv h"
  "emulated_usec (h\<lparr>realtime_usec := t\<rparr>) = emulated_usec h"
  by (simp_all add: host_ok_def state_inv_def emulated_usec_def fun_eq_iff)

lemma register_timer_ids:
  assumes "sched_ok s" "numTimers s < BX_MAX_TIMERS" "\<forall>x. conv x \<le> 2 ^ 62" "register_timer conv f u cont act ident s = (i, s')"
  shows "0 < i" "sched_ok s'" "time_ticks s' = time_ticks s" "numTimers s' \<le> numTimers s + 1"
proof -
  have "1 \<le> numTimers s" using assms(1) by (simp add: sched_ok_def sched_inv_def table_ok_def)
  from free_slot_bounds [OF this] show "0 < i"
    using assms by (auto simp: register_timer_def register_timer_ticks_def Let_def)
  show "sched_ok s'" "time_ticks s' = time_ticks s"
    using register_ok [OF assms(1), of "conv u" f cont act ident] assms(3,4) by (simp_all add: register_timer_def)
  show "numTimers s' \<le> numTimers s + 1"
    using assms(2,4) by (auto simp: register_timer_def register_timer_ticks_def Let_def upd_timer_def skew_countdown_def)
qed

lemma sooner_not:
  "\<not> ucast u < timers_next_event_time (mtimes mode m) \<Longrightarrow> sooner_event h mode u m = m"
  by (simp add: sooner_event_def)

lemma power_up_time: "time_ticks (power_up f) = 0"
  by (simp add: power_up_def pc_initialize_def pc_construct_def upd_timer_def time_ticks_def)

lemma boot_inv:
  fixes v :: "'g virt_timer"
  assumes host: "host_ok h"
  assumes m0: "m0 = v_boot h nullTimer handler sysNull ips v w"
  shows "state_inv h at_rest m0 \<and> v_numTimers (virt m0) = 2 \<and> \<not> in_timer_handler (virt m0) \<and> v_last_usec (virt m0) = 0 \<and>
    rest m0 = w \<and> pc_time_usec (ticks_usec h) (sys m0) = 0 \<and>
    current_virtual_time (mtimes mode m0) = 0 \<and> current_timers_time (mtimes mode m0) = 0"
proof -
  let ?m0 = "\<lparr>virt = v_setup v, sys = power_up sysNull, rest = w\<rparr>"
  define x where "x = (\<lambda>(t :: 'g virtual_timer) mode ident. t\<lparr>v_inUse := True, v_period := 0x7fffffff, v_timeToFire := 0x7fffffff,
    v_active := True, v_realtime := mode, v_continuous := True, v_funct := nullTimer, v_id := take (BxMaxTimerIDLen - 1) ident\<rparr>)"
  define v2 where "v2 = (v_setup v)\<lparr>v_ips := ips, v_numTimers := 2,
    v_timer := (v_timer v)(0 := x (v_timer v 0) False ''Null Timer #1'', 1 := x (v_timer v 1) True ''Null Timer #2'')\<rparr>"
  have regs: "snd (v_register_timer h nullTimer BX_MAX_VIRTUAL_TIME True True True ''Null Timer #2''
      (snd (v_register_timer h nullTimer BX_MAX_VIRTUAL_TIME True True False ''Null Timer #1'' (on_virt (\<lambda>v. v\<lparr>v_ips := ips\<rparr>) ?m0)))) =
      ?m0\<lparr>virt := v2\<rparr>"
  proof -
    have slot0: "v_free_slot ((v_setup v)\<lparr>v_ips := ips\<rparr>) 0 = 0"
      by (subst v_free_slot.simps) (simp add: v_setup_def)
    have slot1: "v_free_slot u 0 = 1" if "v_numTimers u = 1" "v_inUse (v_timer u 0)" for u :: "'g virt_timer"
      using that by (subst v_free_slot.simps, simp, subst v_free_slot.simps) simp
    have "v_register_timer h nullTimer BX_MAX_VIRTUAL_TIME True True False ''Null Timer #1'' (on_virt (\<lambda>v. v\<lparr>v_ips := ips\<rparr>) ?m0) =
      (0, ?m0\<lparr>virt := (v_setup v)\<lparr>v_ips := ips, v_numTimers := 1, v_timer := (v_timer v)(0 := x (v_timer v 0) False ''Null Timer #1'')\<rparr>\<rparr>)"
      by (simp add: v_register_timer_def slot0 Let_def sooner_event_def upd_vtimer_def on_virt_def)
        (simp add: v_setup_def BX_MAX_VIRTUAL_TIME_def x_def)
    moreover have "v_register_timer h nullTimer BX_MAX_VIRTUAL_TIME True True True ''Null Timer #2''
      (?m0\<lparr>virt := (v_setup v)\<lparr>v_ips := ips, v_numTimers := 1, v_timer := (v_timer v)(0 := x (v_timer v 0) False ''Null Timer #1'')\<rparr>\<rparr>) =
      (1, ?m0\<lparr>virt := v2\<rparr>)"
      by (simp add: v_register_timer_def slot1 x_def Let_def sooner_event_def upd_vtimer_def on_virt_def)
        (simp add: v_setup_def BX_MAX_VIRTUAL_TIME_def v2_def x_def)
    ultimately show ?thesis by simp
  qed
  obtain id0 s0 where r0: "register_timer (usec_ticks h) (Some (handler False)) (ucast (virtual_next_event_time (times v2 False)))
      False True ''Virtual Timer #0'' (power_up sysNull) = (id0, s0)" by fastforce
  obtain id1 s1 where r1: "register_timer (usec_ticks h) (Some (handler True)) (ucast (virtual_next_event_time (times v2 True)))
      False True ''Virtual Timer #1'' s0 = (id1, s1)" by fastforce
  have n: "numTimers (power_up sysNull) = 1" by (simp add: power_up_def pc_initialize_def pc_construct_def upd_timer_def)
  have conv: "\<forall>x. usec_ticks h x \<le> 2 ^ 62" using host by (simp add: host_ok_def)
  note i0 = register_timer_ids [OF power_up_ok _ conv r0]
  note i1 = register_timer_ids [OF i0(2) _ conv r1]
  have ids: "0 < id0" "0 < id1" "sched_ok s1" "time_ticks s1 = 0"
    using i0 i1 n power_up_time [of sysNull] by (simp_all add: BX_MAX_TIMERS_def)
  let ?m = "v_boot h nullTimer handler sysNull ips v w"
  have m: "sys ?m = s1" "v_timer (virt ?m) = v_timer v2" "v_numTimers (virt ?m) = 2"
    "mtimes mode ?m = (times v2 mode)\<lparr>system_timer_id := if mode then id1 else id0\<rparr>" for mode
    using r0 r1 by (simp_all add: v_boot_def v_init_def Let_def regs split_def) (simp_all add: v2_def)
  have "mode_inv None (virt ?m) mode" for mode
  proof -
    have two: "i = 0 \<or> i = 1" if "i < (2 :: nat)" for i using that by auto
    show ?thesis
      by (auto simp: mode_inv_def m Let_def v2_def v_setup_def BX_MAX_VIRTUAL_TIME_def x_def vt_ok_def dest!: two)
  qed
  then have "state_inv h at_rest ?m"
    using ids by (simp add: state_inv_def m BX_MAX_VIRTUAL_TIMERS_def) (simp add: v2_def v_setup_def)
  moreover have "\<not> in_timer_handler (virt ?m)" "v_last_usec (virt ?m) = 0" "rest ?m = w"
    using r0 r1 by (simp_all add: v_boot_def v_init_def Let_def regs split_def) (simp add: v2_def v_setup_def)
  moreover have "pc_time_usec (ticks_usec h) (sys ?m) = 0"
    using host ids(4) by (simp add: pc_time_usec_def host_ok_def m)
  moreover have "current_virtual_time (mtimes mode ?m) = 0" "current_timers_time (mtimes mode ?m) = 0" by (simp_all add: m) (simp_all add: v2_def v_setup_def)
  ultimately show ?thesis unfolding m0 using m(3) by blast
qed

lemma v_reachable_inv:
  assumes host: "host_ok h" and prog: "well_behaved prog"
  shows "v_reachable h prog m \<Longrightarrow> state_inv h at_rest m"
proof (induction rule: v_reachable.induct)
  case (boot nullTimer handler sysNull ips v w)
  show ?case by (rule boot_inv [OF host refl, THEN conjunct1])
next
  case (device m r w)
  then show ?case using vrequest_keeps host by simp
next
  case (register m useconds handler cont act realtime ident)
  then show ?case by (intro v_register_ok host)
next
  case (time m s)
  have "unat (pc_time_usec (ticks_usec h) (sys m)) \<le> unat (pc_time_usec (ticks_usec h) s)"
    using time host by (simp add: host_ok_def pc_time_usec_def word_le_nat_alt)
  then show ?case using time by (simp add: state_inv_def emulated_usec_def)
next
  case (handler_0 m m')
  then show ?case
    using virtual_handlers.handler_catches_up [OF device_handlers [OF host prog]] by fastforce
next
  case (handler_1 m h' t)
  then show ?case
    using virtual_handlers.handler_1_inv [OF device_handlers [OF _ prog, of h'], of m] host by simp
qed

section \<open>The schedule of mode \<open>False\<close>\<close>

text \<open>A handler that only notes which handler was called, and the virtual time.\<close>

definition v_recorder :: "('f, 'g, ('g \<times> nat) list) vhandler" where
  "v_recorder g m = m\<lparr>rest := rest m @ [(g, unat (current_timers_time (mtimes False m)))]\<rparr>"

lemma recorder_handlers: "host_ok h \<Longrightarrow> virtual_handlers h v_recorder"
  by unfold_locales (simp_all add: v_recorder_def same_clocks_def)

definition v_fires_at :: "'g virtual_timer \<Rightarrow> nat \<Rightarrow> bool" where
  "v_fires_at x t \<longleftrightarrow> live False x \<and>
    (if v_continuous x then unat (v_timeToFire x) \<le> t \<and> unat (v_period x) dvd (t - unat (v_timeToFire x))
     else t = unat (v_timeToFire x))"

definition v_fired_at :: "'g virt_timer \<Rightarrow> nat \<Rightarrow> ('g \<times> nat) list" where
  "v_fired_at v t = map (\<lambda>i. (v_funct (v_timer v i), t)) (filter (\<lambda>i. v_fires_at (v_timer v i) t) [0..<v_numTimers v])"

definition v_schedule :: "'g virt_timer \<Rightarrow> nat \<Rightarrow> nat \<Rightarrow> ('g \<times> nat) list" where
  "v_schedule v a b = concat (map (v_fired_at v) [a + 1..<b + 1])"

definition v_scanned :: "Bit64u \<Rightarrow> 'g virtual_timer \<Rightarrow> 'g virtual_timer" where
  "v_scanned c t =
    (if live False t \<and> v_timeToFire t = c then
       (if v_continuous t then t\<lparr>v_timeToFire := v_timeToFire t + v_period t\<rparr> else t\<lparr>v_active := False\<rparr>)
     else t)"

text \<open>Same handlers and same future, from time \<open>n\<close> on.\<close>

definition same_future :: "nat \<Rightarrow> 'g virt_timer \<Rightarrow> 'g virt_timer \<Rightarrow> bool" where
  "same_future n v v' \<longleftrightarrow> v_numTimers v' = v_numTimers v \<and>
    (\<forall>i<v_numTimers v. v_funct (v_timer v' i) = v_funct (v_timer v i) \<and>
       (\<forall>u>n. v_fires_at (v_timer v' i) u = v_fires_at (v_timer v i) u))"

lemma same_future_fired:
  assumes "same_future n v v'" "n < u"
  shows "v_fired_at v' u = v_fired_at v u"
proof -
  have "filter (\<lambda>i. v_fires_at (v_timer v' i) u) [0..<v_numTimers v] = filter (\<lambda>i. v_fires_at (v_timer v i) u) [0..<v_numTimers v]"
    using assms by (intro filter_cong) (simp_all add: same_future_def)
  then show ?thesis
    using assms by (auto simp: v_fired_at_def same_future_def)
qed

lemma same_future_trans: "same_future n v v' \<Longrightarrow> same_future n' v' v'' \<Longrightarrow> n \<le> n' \<Longrightarrow> same_future n' v v''"
  by (simp add: same_future_def)

lemma v_schedule_split:
  assumes "same_future b v v'" "a \<le> b" "b \<le> c"
  shows "v_schedule v a b @ v_schedule v' b c = v_schedule v a c"
proof -
  have "map (v_fired_at v') [b + 1..<c + 1] = map (v_fired_at v) [b + 1..<c + 1]"
    using assms(1) by (intro map_cong same_future_fired) (auto simp del: upt_Suc)
  moreover have "[a + 1..<c + 1] = [a + 1..<b + 1] @ [b + 1..<c + 1]"
    using assms(2,3) upt_add_eq_append [of "a + 1" "b + 1" "c - b"] by simp
  ultimately show ?thesis by (simp only: v_schedule_def map_append concat_append)
qed

lemma v_fires_scanned:
  assumes ok: "live False x \<longrightarrow> vt_ok n n x" and T: "unat c = n" "n < 2 ^ 62" and u: "n < u"
  shows "v_fires_at (v_scanned c x) u = v_fires_at x u"
proof (cases "live False x \<and> v_timeToFire x = c")
  case False
  then show ?thesis by (auto simp: v_scanned_def)
next
  case True
  then have x: "unat (v_timeToFire x) = n" "0 < unat (v_period x)" "unat (v_period x) < 2 ^ 32"
    using ok T by (auto simp: vt_ok_def)
  then have "unat (v_timeToFire x + v_period x) = n + unat (v_period x)"
    using T by (subst unat_sum) simp_all
  then show ?thesis
    using True x u periodic_next [of "unat (v_period x)" n u]
    by (simp add: v_fires_at_def v_scanned_def live_def)
qed

lemma record_fires:
  fixes m :: "('f, 'g, ('g \<times> nat) list) machine"
  defines "c \<equiv> current_timers_time (mtimes False m)"
  shows "fold (fire_virtual v_recorder False) [0..<k] m =
    m\<lparr>virt := (virt m)\<lparr>v_timer := \<lambda>i. if i < k \<and> i < v_numTimers (virt m) then v_scanned c (vtimer i m) else vtimer i m\<rparr>,
      rest := rest m @ map (\<lambda>i. (v_funct (vtimer i m), unat c))
        (filter (\<lambda>i. i < v_numTimers (virt m) \<and> live False (vtimer i m) \<and> v_timeToFire (vtimer i m) = c) [0..<k])\<rparr>"
    (is "?l k = ?r k")
proof (induction k)
  case 0
  then show ?case by simp
next
  case (Suc k)
  define f where "f = (\<lambda>k i. if i < k \<and> i < v_numTimers (virt m) then v_scanned c (vtimer i m) else vtimer i m)"
  let ?x = "vtimer k m" and ?n = "v_numTimers (virt m)"
  let ?y = "if v_continuous ?x then ?x\<lparr>v_timeToFire := v_timeToFire ?x + v_period ?x\<rparr> else ?x\<lparr>v_active := False\<rparr>"
  have fold_f: "(\<lambda>i. if i < j \<and> i < v_numTimers (virt m) then v_scanned c (vtimer i m) else vtimer i m) = f j" for j
    by (simp add: f_def)
  have fk: "f k k = ?x" by (simp add: f_def)
  have step: "f (Suc k) = (if k < ?n \<and> live False ?x \<and> v_timeToFire ?x = c then (f k)(k := ?y) else f k)"
    by (auto simp: f_def fun_eq_iff less_Suc_eq v_scanned_def)
  have "fire_virtual v_recorder False k (?r k) = ?r (Suc k)"
    unfolding fold_f
    by (auto simp: fire_virtual_def Let_def fk step live_def upd_vtimer_def on_virt_def v_recorder_def c_def)
  then show ?case using Suc by simp
qed

lemma v_fires_from:
  assumes "vt_ok e c x" "u \<le> e"
  shows "v_fires_at x u \<longleftrightarrow> live False x \<and> unat (v_timeToFire x) = u"
  using assms by (auto simp: v_fires_at_def vt_ok_def)

lemma record_events:
  fixes m :: "('f, 'g, ('g \<times> nat) list) machine"
  assumes ok: "state_inv h (at_rest(False := Some 0)) m"
  defines "m' \<equiv> virtual_events h v_recorder False m" and "c \<equiv> unat (current_timers_time (mtimes False m))"
  shows "rest m' = rest m @ v_fired_at (virt m) c \<and> same_future c (virt m) (virt m')"
proof -
  let ?C = "current_timers_time (mtimes False m)" and ?n = "v_numTimers (virt m)"
  have mode: "mode_inv (Some 0) (virt m) False" using ok by (auto simp: state_inv_def dest: spec [of _ False])
  then have c: "c < 2 ^ 62" by (simp add: mode_inv_def Let_def c_def)
  have n: "?n \<le> BX_MAX_VIRTUAL_TIMERS" using ok by (simp add: state_inv_def)
  have vt: "vt_ok c c (vtimer i m)" if "i < ?n" "live False (vtimer i m)" for i
    using mode that by (simp add: mode_inv_def Let_def c_def)
  have due: "i < ?n \<and> live False (vtimer i m) \<and> v_timeToFire (vtimer i m) = ?C \<longleftrightarrow> i < ?n \<and> v_fires_at (vtimer i m) c" for i
  proof -
    have "v_timeToFire (vtimer i m) = ?C \<longleftrightarrow> unat (v_timeToFire (vtimer i m)) = c"
      by (simp add: c_def word_unat_eq_iff)
    then show ?thesis
      using vt [of i] v_fires_from [of c c "vtimer i m" c] by (auto simp: v_fires_at_def)
  qed
  have split: "[0..<BX_MAX_VIRTUAL_TIMERS] = [0..<?n] @ [?n..<BX_MAX_VIRTUAL_TIMERS]"
    using n upt_add_eq_append [of 0 ?n "BX_MAX_VIRTUAL_TIMERS - ?n"] by simp
  have "filter (\<lambda>i. i < ?n \<and> v_fires_at (vtimer i m) c) [?n..<BX_MAX_VIRTUAL_TIMERS] = []"
    by (simp add: filter_empty_conv)
  note none = this
  have fs: "filter (\<lambda>i. i < ?n \<and> v_fires_at (vtimer i m) c) [0..<BX_MAX_VIRTUAL_TIMERS] =
      filter (\<lambda>i. v_fires_at (vtimer i m) c) [0..<?n]"
  proof -
    have "filter (\<lambda>i. i < ?n \<and> v_fires_at (vtimer i m) c) [0..<?n] = filter (\<lambda>i. v_fires_at (vtimer i m) c) [0..<?n]"
      by (intro filter_cong) simp_all
    then show ?thesis using none unfolding split by simp
  qed
  have "rest m' = rest m @ v_fired_at (virt m) c"
    by (simp add: m'_def virtual_events_def Let_def record_fires next_event_time_update_virt due fs [unfolded c_def] v_fired_at_def c_def)
  moreover have "v_timer (virt m') = (\<lambda>i. if i < BX_MAX_VIRTUAL_TIMERS \<and> i < ?n then v_scanned ?C (vtimer i m) else vtimer i m)"
    "v_numTimers (virt m') = ?n"
    by (simp_all add: m'_def virtual_events_def Let_def record_fires next_event_time_update_virt fun_eq_iff)
  note after = this
  have "same_future c (virt m) (virt m')"
    unfolding same_future_def
  proof (intro conjI allI impI)
    show "v_numTimers (virt m') = ?n" by (rule after(2))
    fix i assume i: "i < ?n"
    then have x: "vtimer i m' = v_scanned ?C (vtimer i m)" using n by (simp add: after(1))
    show "v_funct (vtimer i m') = v_funct (vtimer i m)" by (simp add: x v_scanned_def)
    show "v_fires_at (vtimer i m') u = v_fires_at (vtimer i m) u" if "c < u" for u
      unfolding x by (rule v_fires_scanned [OF _ _ c that]) (use vt i in \<open>simp_all add: c_def\<close>)
  qed
  ultimately show ?thesis ..
qed

lemma quiet_schedule:
  assumes "\<And>i. i < v_numTimers v \<Longrightarrow> live False (v_timer v i) \<Longrightarrow> b < unat (v_timeToFire (v_timer v i))"
  shows "v_schedule v a b = []"
proof -
  have "v_fired_at v u = []" if "u \<le> b" for u
    using assms that by (fastforce simp: v_fired_at_def v_fires_at_def filter_empty_conv split: if_splits)
  then show ?thesis by (auto simp: v_schedule_def simp del: upt_Suc)
qed

lemma record_advance:
  fixes m :: "('f, 'g, ('g \<times> nat) list) machine"
  assumes host: "host_ok h" and ok: "state_inv h at_rest m" and t: "t \<le> virtual_next_event_time (mtimes False m)"
    and lim: "unat (current_virtual_time (mtimes False m)) + unat t \<le> emulated_usec h m" "emulated_usec h m < 2 ^ 62"
  defines "m' \<equiv> advance_virtual_time h v_recorder t False m"
    and "c \<equiv> unat (current_timers_time (mtimes False m))"
  shows "rest m' = rest m @ v_schedule (virt m) c (unat (current_timers_time (mtimes False m')))"
    and "same_future (unat (current_timers_time (mtimes False m'))) (virt m) (virt m')"
    and "c \<le> unat (current_timers_time (mtimes False m'))"
    and "unat (current_timers_time (mtimes False m')) = c \<or> unat (current_timers_time (mtimes False m')) \<le> emulated_usec h m"
proof -
  let ?c = "\<lambda>m. unat (current_timers_time (mtimes False m))" and ?n = "unat (timers_next_event_time (mtimes False m))"
  have mode: "mode_inv None (virt m) False" using ok by (simp add: state_inv_def)
  have vt: "c + ?n \<le> unat (v_timeToFire (vtimer i m))" if "i < v_numTimers (virt m)" "live False (vtimer i m)" for i
    using mode that by (simp add: mode_inv_def Let_def c_def vt_ok_def)
  have lim1: "unat (current_virtual_time (mtimes False m)) + unat t < 2 ^ 62" using lim by simp
  note adv = virtual_handlers.advance_cases [OF recorder_handlers [OF host] ok t lim1 lim(1), folded m'_def c_def]
  obtain m2 where m2:
    "sys m2 = sys m" "v_timer (virt m2) = v_timer (virt m)" "v_numTimers (virt m2) = v_numTimers (virt m)" "rest m2 = rest m"
    "current_virtual_time (mtimes False m2) = current_virtual_time (mtimes False m) + t"
    "c \<le> ?c m2" "current_timers_time (mtimes False m2) = current_timers_time (mtimes False m) \<or>
      current_timers_time (mtimes False m2) = current_virtual_time (mtimes False m2)"
    "m' = m2 \<and> state_inv h at_rest m2 \<and> ?c m2 < c + ?n \<or>
     m' = virtual_events h v_recorder False m2 \<and> state_inv h (at_rest(False := Some 0)) m2 \<and> c < ?c m2 \<and> ?c m2 \<le> c + ?n"
    by (rule adv) (blast intro: that)+
  have fired: "v_fired_at (virt m2) u = v_fired_at (virt m) u" for u
    by (simp add: v_fired_at_def m2)
  have same: "same_future k (virt m) (virt m2)" for k by (simp add: same_future_def m2)
  have c2: "?c m2 = c \<or> ?c m2 \<le> emulated_usec h m"
    using m2(5,7) lim by (auto simp: c_def unat_sum)
  have "rest m' = rest m @ v_schedule (virt m) c (?c m') \<and> same_future (?c m') (virt m) (virt m') \<and> ?c m' = ?c m2"
    using m2(8)
  proof (elim disjE conjE)
    assume *: "m' = m2" "?c m2 < c + ?n"
    have "v_schedule (virt m) c (?c m2) = []"
      using vt *(2) by (intro quiet_schedule) fastforce
    then show ?thesis using * m2 same by simp
  next
    assume *: "m' = virtual_events h v_recorder False m2" "state_inv h (at_rest(False := Some 0)) m2" "c < ?c m2" "?c m2 \<le> c + ?n"
    note ev = record_events [OF *(2), folded *(1)]
    have clocks: "?c m' = ?c m2"
      using virtual_handlers.events_inv [OF recorder_handlers [OF host] *(2)] by (simp add: *(1) same_clocks_def)
    have "v_schedule (virt m) c (?c m2) = v_schedule (virt m) c (?c m2 - 1) @ v_fired_at (virt m) (?c m2)"
      using *(3) by (simp add: v_schedule_def)
    moreover have "v_schedule (virt m) c (?c m2 - 1) = []"
      using vt *(3,4) by (intro quiet_schedule) fastforce
    ultimately show ?thesis
      using ev clocks m2(4) fired same_future_trans [OF same [of "?c m2"]] by simp
  qed
  then show "rest m' = rest m @ v_schedule (virt m) c (?c m')" "same_future (?c m') (virt m) (virt m')"
    "c \<le> ?c m'" "?c m' = c \<or> ?c m' \<le> emulated_usec h m"
    using m2(6) c2 by auto
qed

lemma record_catch_up:
  fixes m :: "('f, 'g, ('g \<times> nat) list) machine"
  assumes host: "host_ok h" and ok: "state_inv h at_rest m"
    and lim: "unat (current_virtual_time (mtimes False m)) + unat t = emulated_usec h m" "emulated_usec h m < 2 ^ 62"
    and up: "catch_up h v_recorder t m = Some m'"
  shows "rest m' = rest m @ v_schedule (virt m) (unat (current_timers_time (mtimes False m))) (unat (current_timers_time (mtimes False m'))) \<and>
    (unat (current_timers_time (mtimes False m')) = unat (current_timers_time (mtimes False m)) \<or>
     unat (current_timers_time (mtimes False m')) \<le> emulated_usec h m) \<and>
    unat (current_timers_time (mtimes False m)) \<le> unat (current_timers_time (mtimes False m'))"
  using ok lim up
proof (induction "unat t" arbitrary: t m rule: less_induct)
  case less
  let ?vn = "virtual_next_event_time (mtimes False m)" and ?v = "current_virtual_time (mtimes False m)"
  let ?c = "\<lambda>m. unat (current_timers_time (mtimes False m))"
  consider "t = 0" | "t > ?vn" "t \<noteq> 0" | "t \<le> ?vn" "t \<noteq> 0" by fastforce
  then show ?case
  proof cases
    case 1
    then have "m' = m" using less.prems(4) by (subst (asm) catch_up.simps) simp
    then show ?thesis by (simp add: v_schedule_def)
  next
    case 2
    let ?m1 = "advance_virtual_time h v_recorder ?vn False m"
    have gt: "unat ?vn < unat t" using 2 by (simp add: word_less_nat_alt)
    have up1: "catch_up h v_recorder (t - ?vn) ?m1 = Some m'"
      using less.prems(4) 2 by (subst (asm) catch_up.simps) simp
    have b: "unat ?v + unat ?vn \<le> emulated_usec h m" "unat ?v + unat ?vn < 2 ^ 62" using less.prems gt by simp_all
    note adv = virtual_handlers.advance_inv [OF recorder_handlers [OF host] less.prems(1) order_refl b(2) b(1)]
    note rec = record_advance [OF host less.prems(1) order_refl b(1) less.prems(3)]
    have pos: "0 < unat ?vn"
      using less.prems(1) by (auto simp: state_inv_def mode_inv_parts clock_inv_def word_less_nat_alt dest: spec [of _ False])
    have U: "emulated_usec h ?m1 = emulated_usec h m"
      by (simp add: emulated_usec_def pc_time_usec_def adv(2))
    have t': "unat (t - ?vn) = unat t - unat ?vn" using gt by (simp add: unat_diff word_le_nat_alt)
    have v': "unat (?v + ?vn) = unat ?v + unat ?vn" using b by (simp add: unat_sum)
    have "rest m' = rest ?m1 @ v_schedule (virt ?m1) (?c ?m1) (?c m') \<and> (?c m' = ?c ?m1 \<or> ?c m' \<le> emulated_usec h ?m1) \<and>
        ?c ?m1 \<le> ?c m'"
      using less.prems(2,3) adv(1,3) U t' v' gt pos up1 by (intro less.hyps [of "t - ?vn"]) simp_all
    then show ?thesis
      using rec U v_schedule_split [OF rec(2,3), of "?c m'"] by auto
  next
    case 3
    then have "m' = advance_virtual_time h v_recorder t False m"
      using less.prems(4) by (subst (asm) catch_up.simps) (simp add: not_less [symmetric])
    then show ?thesis
      using record_advance [OF host less.prems(1) 3(1) _ less.prems(3)] less.prems(2) by auto
  qed
qed

lemma record_handler:
  fixes m :: "('f, 'g, ('g \<times> nat) list) machine"
  assumes host: "host_ok h" and ok: "state_inv h at_rest m" and lim: "emulated_usec h m < 2 ^ 62"
  shows "map_option rest (timer_handler_0 h v_recorder m) =
    Some (rest m @ v_schedule (virt m) (unat (current_timers_time (mtimes False m))) (emulated_usec h m))"
proof -
  let ?t = "pc_time_usec (ticks_usec h) (sys m) - current_virtual_time (mtimes False m)"
  let ?c = "\<lambda>m. unat (current_timers_time (mtimes False m))"
  obtain m' where m': "catch_up h v_recorder ?t m = Some m'" "timer_handler_0 h v_recorder m = Some (rearm_system_timer h m')"
    "state_inv h at_rest m'" "current_virtual_time (mtimes False m') = pc_time_usec (ticks_usec h) (sys m)"
    using virtual_handlers.caught_up [OF recorder_handlers [OF host] ok lim] by blast
  have "unat (current_virtual_time (mtimes False m)) \<le> emulated_usec h m" using ok by (simp add: state_inv_def)
  then have t: "unat (current_virtual_time (mtimes False m)) + unat ?t = emulated_usec h m"
    by (simp add: emulated_usec_def unat_diff word_le_nat_alt)
  have "mode_inv None (virt m') False" using m'(3) by (simp add: state_inv_def)
  then have "emulated_usec h m \<le> ?c m'" by (simp add: mode_inv_def Let_def m'(4) emulated_usec_def)
  with record_catch_up [OF host ok t lim m'(1)]
  have "rest m' = rest m @ v_schedule (virt m) (?c m) (?c m')" and "?c m' = emulated_usec h m \<or> ?c m' = ?c m \<and> emulated_usec h m \<le> ?c m"
    by auto
  moreover have "rest (rearm_system_timer h m') = rest m'" by (simp add: rearm_system_timer_def Let_def)
  ultimately show ?thesis by (auto simp: m'(2) v_schedule_def)
qed

lemma system_timer_set:
  assumes "u \<noteq> 0"
  shows "active (timer (sys (system_timer h mode u m)) (nat (system_timer_id (mtimes mode m))))"
    and "\<not> continuous (timer (sys (system_timer h mode u m)) (nat (system_timer_id (mtimes mode m))))"
    and "timeToFire (timer (sys (system_timer h mode u m)) (nat (system_timer_id (mtimes mode m)))) =
      time_ticks (sys m) + clamp_period (usec_ticks h (ucast (min 0x7FFFFFFF u)))"
  by (simp_all only: system_timer_def on_sys_def activate_timer_eq [OF delay_nonzero [OF assms]])
    (simp_all add: activate_timer_ticks_def skew_countdown_def upd_timer_def Let_def)

lemma rearmed:
  fixes h :: host
  defines "u m \<equiv> if virtual_next_event_time (mtimes False m) > 2 then virtual_next_event_time (mtimes False m) - 2 else 1"
    and "t m \<equiv> timer (sys (rearm_system_timer h m)) (nat (system_timer_id (mtimes False m)))"
  shows "virt (rearm_system_timer h m) = virt m" and "active (t m)" and "\<not> continuous (t m)"
    and "timeToFire (t m) = time_ticks (sys m) + clamp_period (usec_ticks h (ucast (min 0x7FFFFFFF (u m))))"
proof -
  have r: "rearm_system_timer h m = system_timer h False (u m) m" by (simp add: rearm_system_timer_def u_def Let_def)
  have u: "u m \<noteq> 0" by (auto simp: u_def)
  show "virt (rearm_system_timer h m) = virt m" by (simp add: r)
  show "active (t m)" "\<not> continuous (t m)"
    "timeToFire (t m) = time_ticks (sys m) + clamp_period (usec_ticks h (ucast (min 0x7FFFFFFF (u m))))"
    unfolding t_def r by (rule system_timer_set [OF u])+
qed

section \<open>A registration that stalls the virtual time\<close>

lemma advance_zero:
  assumes "current_virtual_time (mtimes False m) \<le> current_timers_time (mtimes False m)"
  shows "advance_virtual_time h call 0 False m = m"
proof -
  have "upd_times False (\<lambda>t. t\<lparr>current_virtual_time := current_virtual_time t + 0,
      virtual_next_event_time := virtual_next_event_time t - 0\<rparr>) m = m"
    by (simp add: upd_times_def on_virt_def)
  then show ?thesis using assms by (simp add: advance_virtual_time_def Let_def not_less [symmetric])
qed

lemma catch_up_stalls:
  assumes "virtual_next_event_time (mtimes False m) = 0" "t \<noteq> 0"
    "current_virtual_time (mtimes False m) \<le> current_timers_time (mtimes False m)"
  shows "catch_up h call t m = None"
proof -
  let ?P = "\<lambda>h call t m r. \<not> (virtual_next_event_time (mtimes False m) = 0 \<and> t \<noteq> 0 \<and>
      current_virtual_time (mtimes False m) \<le> current_timers_time (mtimes False m))"
  have "?P h call t m r" if up: "catch_up h call t m = Some r" for r
  proof (rule catch_up.raw_induct [where P = ?P, OF _ up])
    fix f h call t m r
    assume "\<And>h call t m r. f h call t m = Some r \<Longrightarrow> ?P h call t m r"
      and "(if t = 0 then Some m
       else if t > virtual_next_event_time (mtimes False m)
       then f h call (t - virtual_next_event_time (mtimes False m))
              (advance_virtual_time h call (virtual_next_event_time (mtimes False m)) False m)
       else Some (advance_virtual_time h call t False m)) = Some r"
    then show "?P h call t m r" by (fastforce simp: advance_zero word_gt_0 split: if_splits)
  qed
  then show ?thesis using assms by (cases "catch_up h call t m") auto
qed

lemma unat_plus_le: "unat (a + b) \<le> unat a + unat (b :: 'a::len word)"
  by (simp add: unat_word_ariths)

lemma advance_within:
  assumes "unat (current_virtual_time (mtimes False m)) + unat t \<le> unat (current_timers_time (mtimes False m))"
  shows "advance_virtual_time h call t False m =
    upd_times False (\<lambda>x. x\<lparr>current_virtual_time := current_virtual_time x + t,
      virtual_next_event_time := virtual_next_event_time x - t\<rparr>) m"
proof -
  have "unat (current_virtual_time (mtimes False m) + t) \<le> unat (current_timers_time (mtimes False m))"
    using assms unat_plus_le [of "current_virtual_time (mtimes False m)" t] by simp
  then show ?thesis by (simp add: advance_virtual_time_def Let_def word_less_nat_alt)
qed

lemma zero_registration:
  fixes h :: host and ident :: string
  assumes "state_inv h at_rest m" "host_ok h"
  assumes m': "m' = snd (v_register_timer h handler 0 cont act False ident m)"
  shows "virtual_next_event_time (mtimes False m') = current_timers_time (mtimes False m) - current_virtual_time (mtimes False m)"
    and "current_timers_time (mtimes False m') = current_timers_time (mtimes False m)"
    and "current_virtual_time (mtimes False m') = current_virtual_time (mtimes False m)"
    and "time_ticks (sys m') = time_ticks (sys m)"
proof -
  obtain m1 where m1: "m' = sooner_event h False 0 m1" "times (virt m1) = times (virt m)" "sys m1 = sys m"
    by (auto simp: m' v_register_timer_def Let_def)
  have "mode_inv None (virt m) False" using assms(1) by (simp add: state_inv_def)
  then have "0 < timers_next_event_time (mtimes False m)"
    by (simp add: mode_inv_def Let_def word_less_nat_alt)
  then show "virtual_next_event_time (mtimes False m') = current_timers_time (mtimes False m) - current_virtual_time (mtimes False m)"
    "current_timers_time (mtimes False m') = current_timers_time (mtimes False m)"
    "current_virtual_time (mtimes False m') = current_virtual_time (mtimes False m)"
    by (simp_all add: m1 sooner_event_def next_event_time_update_virt)
  show "time_ticks (sys m') = time_ticks (sys m)"
    using sooner_clocks [OF assms(2), of m1 False 0] assms(1) by (simp add: m1 same_clocks_def state_inv_def)
qed

lemma stalls:
  assumes ok: "state_inv h at_rest m" and host: "host_ok h"
    and late: "unat (current_timers_time (mtimes False m)) < emulated_usec h m"
  shows "timer_handler_0 h call (snd (v_register_timer h handler 0 cont act False ident m)) = None"
proof -
  define m' where "m' = snd (v_register_timer h handler 0 cont act False ident m)"
  note z = zero_registration [OF ok host m'_def]
  let ?c = "current_timers_time (mtimes False m)" and ?v = "current_virtual_time (mtimes False m)"
  let ?t = "pc_time_usec (ticks_usec h) (sys m') - ?v"
  have le: "?v \<le> ?c"
    using ok by (auto simp: state_inv_def mode_inv_def Let_def word_le_nat_alt dest: spec [of _ False])
  have U: "unat (pc_time_usec (ticks_usec h) (sys m')) = emulated_usec h m"
    by (simp add: emulated_usec_def pc_time_usec_def z)
  have t: "unat ?t = emulated_usec h m - unat ?v"
    using le late by (simp add: unat_diff word_le_nat_alt U)
  have d: "unat (?c - ?v) = unat ?c - unat ?v" using le by (rule unat_diff)
  have gt: "?c - ?v < ?t" using le late by (simp add: word_less_nat_alt word_le_nat_alt t d)
  have "catch_up h call ?t m' = None"
  proof (cases "?c = ?v")
    case True
    then show ?thesis using gt by (intro catch_up_stalls) (auto simp: z)
  next
    case False
    have "advance_virtual_time h call (?c - ?v) False m' =
      upd_times False (\<lambda>x. x\<lparr>current_virtual_time := current_virtual_time x + (?c - ?v),
        virtual_next_event_time := virtual_next_event_time x - (?c - ?v)\<rparr>) m'"
      using le by (intro advance_within) (simp add: z d word_le_nat_alt)
    moreover have "?t - (?c - ?v) \<noteq> 0" using gt by auto
    ultimately have "catch_up h call (?t - (?c - ?v)) (advance_virtual_time h call (?c - ?v) False m') = None"
      by (intro catch_up_stalls) (simp_all add: z)
    then show ?thesis using gt by (subst catch_up.simps) (auto simp: z)
  qed
  then show ?thesis by (simp add: timer_handler_0_def z m'_def [symmetric])
qed

section \<open>A sample machine\<close>

text \<open>
  Ten million instructions per second, as in src/bochsrc; the products and quotients of the code in exact arithmetic.
\<close>

definition nominal_host :: host where
  "nominal_host = \<lparr>usec_ticks = \<lambda>u. 10 * ucast u, ticks_usec = \<lambda>t. t div 10, max_mult = \<lambda>x. x + x div 4,
    alpha_lower = \<lambda>a b. if a < b then (4 * a + b) div 5 else (a + b) div 2, realtime_usec = 0\<rparr>"

lemma nominal_ok: "host_ok nominal_host"
proof -
  have "10 * ucast (u :: Bit32u) \<le> (2 ^ 62 :: Bit64u)" for u
  proof -
    have "10 * unat u < 2 ^ 40" using unsigned_less [of u, where 'a = nat] by simp
    then show ?thesis by (simp add: word_le_nat_alt unat_word_ariths)
  qed
  moreover have "x div 10 \<le> y div (10 :: Bit64u)" if "x \<le> y" for x y
    using that by (simp add: word_le_nat_alt unat_div div_le_mono)
  ultimately show ?thesis by (simp add: host_ok_def nominal_host_def)
qed

definition zero_virt :: "'g \<Rightarrow> 'g virt_timer" where
  "zero_virt g = \<lparr>v_timer = \<lambda>_. \<lparr>v_inUse = False, v_period = 0, v_timeToFire = 0, v_active = False, v_continuous = False,
      v_realtime = False, v_funct = g, v_id = []\<rparr>, v_numTimers = 0,
    times = \<lambda>_. \<lparr>current_timers_time = 0, timers_next_event_time = 0, last_sequential_time = 0, virtual_next_event_time = 0,
      current_virtual_time = 0, system_timer_id = 0\<rparr>,
    in_timer_handler = False, v_ips = 0, init_done = False, last_real_time = 0, total_real_usec = 0, last_realtime_delta = 0,
    real_time_delay = 0, v_last_usec = 0, usec_per_second = 0, stored_delta = 0, last_system_usec = 0, em_last_realtime = 0,
    v_total_ticks = 0, last_realtime_ticks = 0, ticks_per_second = 0, v_panics = []\<rparr>"

definition idle_device :: "(nat, nat, nat) device" where
  "idle_device g m = ([], rest m + 1)"

text \<open>A device's timer of 3 microseconds, and 60 emulated instructions later.\<close>

definition sample_start :: "(nat, nat, nat) machine" where
  "sample_start = snd (v_register_timer nominal_host 7 3 True True False ''pit''
    (v_boot nominal_host 0 (\<lambda>mode. if mode then 2 else 1) 0 10000000 (zero_virt 0) 0))"

definition quiet :: "nat \<Rightarrow> nat pc_system \<Rightarrow> nat \<Rightarrow> nat timer_request list \<times> nat" where
  "quiet f s w = ([], w)"

definition sample_machine :: "(nat, nat, nat) machine" where
  "sample_machine = sample_start\<lparr>sys := fst (the (tickn (request_handler quiet) 60 (sys sample_start, 0)))\<rparr>"

lemma sample_facts:
  "v_numTimers (virt sample_start) = 3"
  "time_ticks (sys sample_start) = 0"
  "time_ticks (sys sample_machine) = 60"
  "current_timers_time (mtimes False sample_machine) = 0"
  "pc_time_usec (ticks_usec nominal_host) (sys sample_machine) = 6"
  "current_virtual_time (mtimes False sample_start) = 0"
  "current_timers_time (mtimes False sample_start) = 0"
  "virtual_next_event_time (mtimes False sample_start) = 3"
  subgoal by code_simp
  subgoal by code_simp
  subgoal by code_simp
  subgoal by code_simp
  subgoal by code_simp
  subgoal by code_simp
  subgoal by code_simp
  subgoal by code_simp
  done

lemma sample_timers:
  "v_timer (virt sample_start) 0 = \<lparr>v_inUse = True, v_period = 0x7fffffff, v_timeToFire = 0x7fffffff, v_active = True,
    v_continuous = True, v_realtime = False, v_funct = 0, v_id = ''Null Timer #1''\<rparr>"
  "v_timer (virt sample_start) 1 = \<lparr>v_inUse = True, v_period = 0x7fffffff, v_timeToFire = 0x7fffffff, v_active = True,
    v_continuous = True, v_realtime = True, v_funct = 0, v_id = ''Null Timer #2''\<rparr>"
  "v_timer (virt sample_start) 2 = \<lparr>v_inUse = True, v_period = 3, v_timeToFire = 3, v_active = True,
    v_continuous = True, v_realtime = False, v_funct = 7, v_id = ''pit''\<rparr>"
  by code_simp+

lemma idle_ok: "well_behaved idle_device"
  by (simp add: well_behaved_def idle_device_def)

lemma sample_start_reachable: "v_reachable nominal_host idle_device sample_start"
proof -
  have "v_numTimers (virt (v_boot nominal_host 0 (\<lambda>mode. if mode then 2 else 1) (0 :: nat) 10000000 (zero_virt 0) (0 :: nat))) <
      BX_MAX_VIRTUAL_TIMERS" by code_simp
  then show ?thesis
    unfolding sample_start_def by (intro v_reachable.register v_reachable.boot) simp_all
qed

lemma sample_machine_reachable: "v_reachable nominal_host idle_device sample_machine"
proof -
  have ok: "sched_ok (sys sample_start)"
    using v_reachable_inv [OF nominal_ok idle_ok sample_start_reachable] by (rule state_inv_sched)
  have now: "now (sys sample_start) + unat (60 :: Bit32u) < 2 ^ 62"
    by (simp add: now_def sample_facts)
  have "orderly quiet" by (simp add: orderly_def quiet_def)
  from tickn_catches_up [OF this ok now, of 0] have "sched_ok (sys sample_machine)"
    by (auto simp: sample_machine_def)
  then have "v_reachable nominal_host idle_device (sample_start\<lparr>sys := sys sample_machine\<rparr>)"
    by (intro v_reachable.time sample_start_reachable) (simp_all add: sample_facts)
  moreover have "sample_start\<lparr>sys := sys sample_machine\<rparr> = sample_machine" by (simp add: sample_machine_def)
  ultimately show ?thesis by simp
qed

lemma sample_time: "emulated_usec nominal_host sample_machine = 6" "virt sample_machine = virt sample_start"
  by (simp_all add: emulated_usec_def sample_facts) (simp add: sample_machine_def)

section \<open>Properties\<close>

text \<open>
  C15. The two clocks of a mode stay together: in every state the virtual timers reach, with any host
  and any devices that ask for delays other than zero, the virtual time is not ahead of the time of
  the timers, the next event is ahead of both, both clocks agree on when it is, and
  no active timer of the mode is due before it.
\<close>

theorem virtual_clocks_agree:
  assumes "host_ok h" and "well_behaved prog" and "v_reachable h prog m"
  shows "let t = mtimes mode m; event = unat (current_timers_time t) + unat (timers_next_event_time t)
    in unat (current_virtual_time t) + unat (virtual_next_event_time t) = event \<and>
       unat (current_virtual_time t) \<le> unat (current_timers_time t) \<and> unat (current_timers_time t) < event \<and>
       list_all (\<lambda>i. live mode (vtimer i m) \<longrightarrow> event \<le> unat (v_timeToFire (vtimer i m))) [0..<v_numTimers (virt m)]"
proof -
  have "mode_inv None (virt m) mode"
    using v_reachable_inv [OF assms] by (simp add: state_inv_def)
  then show ?thesis by (auto simp: mode_inv_def Let_def vt_ok_def list_all_iff)
qed

theorem virtual_clocks_agree_witness:
  "unat (current_virtual_time (mtimes True sample_machine)) + unat (virtual_next_event_time (mtimes True sample_machine)) =
   unat (current_timers_time (mtimes True sample_machine)) + unat (timers_next_event_time (mtimes True sample_machine))"
  using virtual_clocks_agree [OF nominal_ok idle_ok sample_machine_reachable, of True] by (simp add: Let_def)

text \<open>
  C16. The handler of the service always catches up: from every reachable state it returns, the
  virtual time is then the emulated time, and the timer of the service is set again, for one call,
  two microseconds ahead of the next event.
\<close>

theorem virtual_time_catches_up:
  assumes "host_ok h" and "well_behaved prog" and "v_reachable h prog m" and "emulated_usec h m < 2 ^ 62"
  shows "\<exists>m'. timer_handler_0 h (run_device h prog) m = Some m' \<and>
    current_virtual_time (mtimes False m') = pc_time_usec (ticks_usec h) (sys m) \<and>
    (let t = timer (sys m') (nat (system_timer_id (mtimes False m'))); next = virtual_next_event_time (mtimes False m');
         delay = min 0x7FFFFFFF (if next > 2 then next - 2 else 1)
     in active t \<and> \<not> continuous t \<and> timeToFire t = time_ticks (sys m) + clamp_period (usec_ticks h (ucast delay)))"
proof -
  obtain m1 where m1: "timer_handler_0 h (run_device h prog) m = Some (rearm_system_timer h m1)"
    "state_inv h at_rest m1" "time_ticks (sys m1) = time_ticks (sys m)" "current_virtual_time (mtimes False m1) = pc_time_usec (ticks_usec h) (sys m)"
    using virtual_handlers.caught_up [OF device_handlers [OF assms(1,2)] v_reachable_inv [OF assms(1-3)] assms(4)] by blast
  then show ?thesis by (simp add: rearmed Let_def)
qed

theorem virtual_time_catches_up_witness:
  "\<exists>m'. timer_handler_0 nominal_host (run_device nominal_host idle_device) sample_machine = Some m' \<and>
    current_virtual_time (mtimes False m') = 6"
  using virtual_time_catches_up [OF nominal_ok idle_ok sample_machine_reachable] by (fastforce simp: sample_time sample_facts)



text \<open>
  C17. A registration can stall the emulator: the assertion of \<open>register_timer\<close> lets a timer with
  a period of zero pass when it is not active. It makes zero the time to the next event, and as
  soon as emulated time has passed the loop of the handler never ends.
\<close>

theorem zero_period_registration_stalls:
  assumes "host_ok h" and "well_behaved prog" and "v_reachable h prog m"
    and "unat (current_timers_time (mtimes False m)) < emulated_usec h m"
  shows "timer_handler_0 h (run_device h prog) (snd (v_register_timer h handler 0 cont False False ident m)) = None"
  by (rule stalls [OF v_reachable_inv [OF assms(1-3)] assms(1,4)])

theorem zero_period_registration_stalls_witness:
  "timer_handler_0 nominal_host (run_device nominal_host idle_device)
    (snd (v_register_timer nominal_host 9 0 True False False ''spare'' sample_machine)) = None"
  by (rule zero_period_registration_stalls [OF nominal_ok idle_ok sample_machine_reachable]) (simp add: sample_time sample_facts)

end
