(* ===== verification/Timer_System.thy ===== *)
theory Timer_System
  imports Timer_Irq Virt_Events
begin

text \<open>
  The timer device as a client of the virtual timers, and these as clients of the timer service: the
  three clocks of the emulator put together. The rest of the machine is the device with its timer handle; its
  requests are the calls that iodev/pit.cc makes of \<open>bx_virt_timer\<close>, in their order, and the emulated time it
  reads is the one \<open>time_usec\<close> returns.
\<close>

section \<open>The device as a client\<close>

datatype vfunction = Null_function | Pit_timer_handler
datatype sfunction = System_null | Virtual_handler bool

record pit_client =
  timer_handle :: nat
  is_realtime :: bool
  pit_dev :: bx_pit

type_synonym timer_machine = "(sfunction, vfunction, pit_client) machine"

definition BX_NULL_TIMER_HANDLE :: nat where "BX_NULL_TIMER_HANDLE = 10000"

fun virt_request :: "nat \<Rightarrow> virt_call \<Rightarrow> (sfunction, vfunction) vrequest" where
  "virt_request i Deactivate_timer = V_Deactivate i"
| "virt_request i (Activate_timer useconds) = V_Activate i useconds False"

text \<open>An operation of the device: its calls of the virtual timers, and the device after it.\<close>

definition on_pit :: "(bx_pit \<Rightarrow> bx_pit) \<Rightarrow> pit_client \<Rightarrow> (sfunction, vfunction) vrequest list \<times> pit_client" where
  "on_pit f c =
    (let s = f ((pit_dev c)\<lparr>virt_calls := []\<rparr>)
     in (map (virt_request (timer_handle c)) (virt_calls s), c\<lparr>pit_dev := s\<rparr>))"

text \<open>
  The handlers as the virtual timers call them. Inside a handler \<open>time_usec\<close> is the time of
  the timers.
\<close>

definition pit_device :: "(sfunction, vfunction, pit_client) device" where
  "pit_device g m =
    (case g of Null_function \<Rightarrow> ([], rest m)
     | Pit_timer_handler \<Rightarrow>
         on_pit (handle_timer (current_timers_time (mtimes (is_realtime (rest m)) m))) (rest m))"

definition run_pit :: "host \<Rightarrow> (bx_pit \<Rightarrow> bx_pit) \<Rightarrow> timer_machine \<Rightarrow> timer_machine" where
  "run_pit h f m = (case on_pit f (rest m) of (rs, c) \<Rightarrow> fold (run_vrequest h) rs (m\<lparr>rest := c\<rparr>))"

definition pit_time_usec :: "host \<Rightarrow> timer_machine \<Rightarrow> (Bit64u \<times> timer_machine) option" where
  "pit_time_usec h m = v_time_usec h (run_device h pit_device) (is_realtime (rest m)) m"

text \<open>\<open>init\<close> of the device: it registers its timer once, and sets it to the next event of the chip.\<close>

definition pit_start :: "host \<Rightarrow> bool \<Rightarrow> timer_machine \<Rightarrow> timer_machine option" where
  "pit_start h realtime m =
    map_option (\<lambda>(now, m).
      (let m = (if timer_handle (rest m) = BX_NULL_TIMER_HANDLE
                then (let (i, m) = v_register_timer h Pit_timer_handler 100 True True realtime ''pit'' m
                      in m\<lparr>rest := (rest m)\<lparr>timer_handle := i\<rparr>\<rparr>)
                else m)
       in run_pit h (init_pit now) m))
      (pit_time_usec h (m\<lparr>rest := (rest m)\<lparr>is_realtime := realtime\<rparr>\<rparr>))"

text \<open>
  The processor's accesses to the ports. The second call of \<open>time_usec\<close> in a read of port 61
  finds no time to pass; its value is the one of the first.
\<close>

definition pit_in :: "host \<Rightarrow> Bit32u \<Rightarrow> timer_machine \<Rightarrow> (Bit8u \<times> timer_machine) option" where
  "pit_in h address m =
    (case pit_time_usec h m of None \<Rightarrow> None
     | Some (my_time, m) \<Rightarrow>
         (let v = fst (pit_port_read address my_time (pit_dev (rest m)));
              m = run_pit h (\<lambda>s. snd (pit_port_read address my_time s)) m
          in if address = 0x61 then map_option (\<lambda>(_, m). (v, m)) (pit_time_usec h m) else Some (v, m)))"

definition pit_out :: "host \<Rightarrow> Bit32u \<Rightarrow> Bit32u \<Rightarrow> timer_machine \<Rightarrow> timer_machine option" where
  "pit_out h address dvalue m =
    map_option (\<lambda>(now, m). run_pit h (pit_port_write address dvalue now) m) (pit_time_usec h m)"

section \<open>The calls of the device ask for delays other than zero\<close>

definition asks_nonzero :: "bx_pit \<Rightarrow> bool" where
  "asks_nonzero s \<longleftrightarrow> Activate_timer 0 \<notin> set (virt_calls s)"

lemma max_nonzero: "0 \<noteq> max 1 (x :: Bit32u)"
  by (auto simp: max_def)

lemma handlers_calls:
  "virt_calls (fold irq_handler vs s) = virt_calls s" "virt_calls (fold speaker_handler vs s) = virt_calls s"
  by (induction vs arbitrary: s) (simp_all add: irq_handler_def speaker_handler_def)

lemma on_timer_calls [simp]: "virt_calls (on_timer f s) = virt_calls s"
  by (simp add: on_timer_def drain_def Let_def handlers_calls)

lemma run_ticks_calls [simp]: "virt_calls (run_ticks n s) = virt_calls s"
proof (induction n s rule: run_ticks.induct)
  case (1 n s)
  then show ?case by (subst run_ticks.simps) (simp add: Let_def)
qed

lemma pass_time_calls [simp]: "virt_calls (pass_time d s) = virt_calls s"
  by (simp add: pass_time_def periodic_def account_def Let_def split: prod.split)

lemma rearm_asks: "asks_nonzero s \<Longrightarrow> asks_nonzero (rearm b s)"
  by (simp add: asks_nonzero_def rearm_def Let_def max_nonzero)

lemma handle_timer_asks: "asks_nonzero s \<Longrightarrow> asks_nonzero (handle_timer u s)"
  unfolding handle_timer_def Let_def by (intro rearm_asks) (simp add: asks_nonzero_def)

lemma port_asks:
  assumes "asks_nonzero s"
  shows "asks_nonzero (snd (pit_port_read a u s))" "asks_nonzero (pit_port_write a v u s)" "asks_nonzero (init_pit u s)"
proof -
  have t: "virt_calls (snd (timer_read n s)) = virt_calls s" for n s
    by (simp add: timer_read_def split_beta)
  have b: "virt_calls (beep_on s) = virt_calls s" for s by (simp add: beep_on_def Let_def)
  have p: "virt_calls (write_port61 v s) = virt_calls s" for v s
    by (simp add: write_port61_def Let_def b)
  show "asks_nonzero (snd (pit_port_read a u s))"
    using handle_timer_asks [OF assms, of u] by (simp add: pit_port_read_def Let_def asks_nonzero_def t)
  show "asks_nonzero (pit_port_write a v u s)"
    unfolding pit_port_write_def Let_def using assms
    by (intro rearm_asks) (simp add: asks_nonzero_def b p)
  show "asks_nonzero (init_pit u s)"
    using assms by (simp add: init_pit_def Let_def asks_nonzero_def max_nonzero)
qed

lemma requests_ok: "asks_nonzero s \<Longrightarrow> list_all vrequest_ok (map (virt_request i) (virt_calls s))"
proof -
  have "vrequest_ok (virt_request i c)" if "c \<noteq> Activate_timer 0" for c using that by (cases c) auto
  then show "asks_nonzero s \<Longrightarrow> ?thesis"
    by (metis asks_nonzero_def imageE list.set_map list_all_iff)
qed

lemma on_pit_ok:
  "(\<And>s. asks_nonzero s \<Longrightarrow> asks_nonzero (f s)) \<Longrightarrow> list_all vrequest_ok (fst (on_pit f c))"
  by (simp add: on_pit_def Let_def requests_ok asks_nonzero_def [of "_\<lparr>virt_calls := []\<rparr>"])

lemma pit_well_behaved: "well_behaved pit_device"
  by (simp add: well_behaved_def pit_device_def on_pit_ok handle_timer_asks split: vfunction.split)

interpretation pit: virtual_devices nominal_host pit_device
  by unfold_locales (rule nominal_ok pit_well_behaved)+

section \<open>What the virtual timers leave of the rest\<close>

lemma run_vrequest_rest [simp]: "rest (run_vrequest h r m) = rest m"
  by (cases r) (simp_all add: v_activate_timer_def v_deactivate_timer_def v_unregisterTimer_def sooner_event_def
      next_event_time_update_virt on_sys_def Let_def)

lemma run_vrequests_rest [simp]: "rest (fold (run_vrequest h) rs m) = rest m"
  by (induction rs arbitrary: m) simp_all

lemma run_vrequest_flag [simp]: "in_timer_handler (virt (run_vrequest h r m)) = in_timer_handler (virt m)"
  by (cases r) (simp_all add: v_activate_timer_def v_deactivate_timer_def v_unregisterTimer_def sooner_event_def
      next_event_time_update_virt on_sys_def Let_def, simp_all add: upd_vtimer_def)

lemma run_vrequests_flag [simp]: "in_timer_handler (virt (fold (run_vrequest h) rs m)) = in_timer_handler (virt m)"
  by (induction rs arbitrary: m) simp_all

lemma run_vrequest_stamp [simp]: "v_last_usec (virt (run_vrequest h r m)) = v_last_usec (virt m)"
  by (cases r) (simp_all add: v_activate_timer_def v_deactivate_timer_def v_unregisterTimer_def sooner_event_def
      next_event_time_update_virt on_sys_def Let_def, simp_all add: upd_vtimer_def upd_times_def)

lemma run_vrequests_stamp [simp]: "v_last_usec (virt (fold (run_vrequest h) rs m)) = v_last_usec (virt m)"
  by (induction rs arbitrary: m) simp_all

text \<open>A property of the rest that every handler keeps, the timers keep; and the flag is down again.\<close>

locale kept =
  fixes h :: host and call :: "('f, 'g, 'w) vhandler" and P :: "'w \<Rightarrow> bool"
  assumes call: "P (rest m) \<Longrightarrow> P (rest (call g m))"
    and stamp: "v_last_usec (virt (call g m)) = v_last_usec (virt m)"
begin

definition idle :: "('f, 'g, 'w) machine \<Rightarrow> bool" where
  "idle m \<longleftrightarrow> P (rest m) \<and> \<not> in_timer_handler (virt m)"

lemma fires: "P (rest m) \<Longrightarrow> P (rest (fold (fire_virtual call md) xs m))"
proof (induction xs arbitrary: m)
  case (Cons i xs)
  then have "P (rest (fire_virtual call md i m))"
    by (simp add: fire_virtual_def Let_def call)
  then show ?case using Cons by simp
qed simp

lemma events: "P (rest m) \<Longrightarrow> idle (virtual_events h call md m)"
  using fires [of "on_virt (\<lambda>v. v\<lparr>in_timer_handler := True\<rparr>) m"]
  by (simp add: idle_def virtual_events_def Let_def next_event_time_update_virt next_event_def)

lemma idle_upd [simp]: "idle (upd_times md f m) = idle m"
  by (simp add: idle_def)

lemma advance: "idle m \<Longrightarrow> idle (advance_virtual_time h call t md m)"
proof -
  have "idle m \<Longrightarrow> idle (v_periodic h call u md m)" for u m
    using events [of "pass_timers_time u md m" md]
    by (simp add: v_periodic_def Let_def) (simp add: pass_timers_time_def idle_def)
  then show "idle m \<Longrightarrow> ?thesis" by (simp add: advance_virtual_time_def Let_def)
qed

lemma caught_up: "catch_up h call t m = Some m' \<Longrightarrow> idle m \<Longrightarrow> idle m'"
proof -
  let ?Q = "\<lambda>h' call' t m m'. h' = h \<longrightarrow> call' = call \<longrightarrow> idle m \<longrightarrow> idle m'"
  assume up: "catch_up h call t m = Some m'" and m: "idle m"
  have "?Q h call t m m'"
  proof (rule catch_up.raw_induct [where P = ?Q, OF _ up])
    fix f h' call' t m m'
    assume "\<And>h' call' t m m'. f h' call' t m = Some m' \<Longrightarrow> ?Q h' call' t m m'"
      and "(if t = 0 then Some m
       else if t > virtual_next_event_time (mtimes False m)
       then f h' call' (t - virtual_next_event_time (mtimes False m))
              (advance_virtual_time h' call' (virtual_next_event_time (mtimes False m)) False m)
       else Some (advance_virtual_time h' call' t False m)) = Some m'"
    then show "?Q h' call' t m m'" using advance by (fastforce split: if_splits)
  qed
  then show ?thesis using m by simp
qed

lemma handler: "timer_handler h call md m = Some m' \<Longrightarrow> idle m \<Longrightarrow> idle m'"
proof -
  have s: "idle (system_timer h md u m) = idle m" "idle (stop_system_timer md m) = idle m" for u md m
    by (simp_all add: idle_def)
  have flag: "in_timer_handler (measure_speed h d v) = in_timer_handler v" "in_timer_handler (account_ticks d e t v) = in_timer_handler v"
    "in_timer_handler (watch_realtime h d v) = in_timer_handler v" for d e t and v :: "'g virt_timer"
    by (simp_all add: measure_speed_def account_ticks_def watch_realtime_def Let_def)
  have "idle m \<Longrightarrow> idle (timer_handler_1 h call m)" for m
  proof -
    assume m: "idle m"
    obtain t v where v: "realtime_ticks h (pc_time_usec (ticks_usec h) (sys m) - v_last_usec (virt m)) (virt m) = (t, v)" by fastforce
    have "idle (m\<lparr>virt := v\<rparr>)"
      using v m flag by (auto simp: idle_def realtime_ticks_def Let_def)
    then show ?thesis
      using m advance by (simp add: timer_handler_1_def Let_def s v) (simp add: idle_def)
  qed
  moreover have "idle (rearm_system_timer h m) = idle m" for m by (simp add: rearm_system_timer_def Let_def s)
  ultimately show "timer_handler h call md m = Some m' \<Longrightarrow> idle m \<Longrightarrow> idle m'"
    using caught_up by (auto simp: timer_handler_def timer_handler_0_def split: if_splits)
qed

lemma fires_stamp: "v_last_usec (virt (fold (fire_virtual call md) xs m)) = v_last_usec (virt m)"
  by (induction xs arbitrary: m) (simp_all add: fire_virtual_def Let_def stamp, simp add: upd_vtimer_def)

lemma advance_stamp: "v_last_usec (virt (advance_virtual_time h call t md m)) = v_last_usec (virt m)"
  by (simp add: advance_virtual_time_def v_periodic_def pass_timers_time_def virtual_events_def next_event_def Let_def
      next_event_time_update_virt fires_stamp upd_times_def)

lemma handler_1_stamp: "v_last_usec (virt (timer_handler_1 h call m)) = pc_time_usec (ticks_usec h) (sys m)"
proof -
  obtain t v where v: "realtime_ticks h (pc_time_usec (ticks_usec h) (sys m) - v_last_usec (virt m)) (virt m) = (t, v)" by fastforce
  have "v_last_usec (measure_speed h d x) = v_last_usec x" "v_last_usec (account_ticks d e u x) = v_last_usec x"
    "v_last_usec (watch_realtime h d x) = v_last_usec x" for d e u and x :: "'g virt_timer"
    by (simp_all add: measure_speed_def account_ticks_def watch_realtime_def Let_def)
  then have "v_last_usec v = v_last_usec (virt m)" using v by (auto simp: realtime_ticks_def Let_def)
  then show ?thesis by (simp add: timer_handler_1_def Let_def v advance_stamp)
qed

end

section \<open>The machine at work\<close>

definition at_clock :: "Bit64u \<Rightarrow> host \<Rightarrow> host" where
  "at_clock t h = h\<lparr>realtime_usec := t\<rparr>"

definition fits :: "host \<Rightarrow> timer_machine \<Rightarrow> bool" where
  "fits h m \<longleftrightarrow> emulated_usec h m < 2 ^ 62 \<and> unat (current_timers_time (mtimes True m)) < 2 ^ 61"

text \<open>The processor accesses a port, the timer service calls one of the handlers, or emulated time passes.\<close>

inductive timer_step :: "host \<Rightarrow> timer_machine \<Rightarrow> timer_machine \<Rightarrow> bool" for h where
  port_in: "pit_in (at_clock t h) a m = Some (v, m') \<Longrightarrow> timer_step h m m'"
| port_out: "pit_out (at_clock t h) a d m = Some m' \<Longrightarrow> timer_step h m m'"
| handler: "timer_handler (at_clock t h) (run_device (at_clock t h) pit_device) md m = Some m' \<Longrightarrow> timer_step h m m'"
| time: "sched_ok s \<Longrightarrow> time_ticks (sys m) \<le> time_ticks s \<Longrightarrow> timer_step h m (m\<lparr>sys := s\<rparr>)"

inductive timer_system :: "host \<Rightarrow> timer_machine \<Rightarrow> bool" for h where
  start: "out_calls (counter (pit_timer (pit_dev w)) 0) = [] \<Longrightarrow>
    pit_start (at_clock t h) realtime (v_boot (at_clock t h) Null_function Virtual_handler System_null ips v w) = Some m \<Longrightarrow> timer_system h m"
| step: "timer_system h m \<Longrightarrow> fits h m \<Longrightarrow> timer_step h m m' \<Longrightarrow> timer_system h m'"

interpretation pit_line: kept h "run_device h pit_device" "\<lambda>c. follows k (pit_dev c) \<and> is_realtime c = r" for h k r
proof
  fix m :: timer_machine and g
  assume "follows k (pit_dev (rest m)) \<and> is_realtime (rest m) = r"
  then show "follows k (pit_dev (rest (run_device h pit_device g m))) \<and> is_realtime (rest (run_device h pit_device g m)) = r"
    by (cases g) (simp_all add: run_device_def pit_device_def on_pit_def Let_def follows_handle_timer)
qed (simp add: run_device_def split: prod.split)

definition system_inv :: "host \<Rightarrow> bool \<Rightarrow> timer_machine \<Rightarrow> bool" where
  "system_inv h k m \<longleftrightarrow> state_inv h at_rest m \<and> pit_line.idle k (is_realtime (rest m)) m"

lemma clock_inv_at [simp]:
  "host_ok (at_clock t h) = host_ok h" "state_inv (at_clock t h) = state_inv h"
  "emulated_usec (at_clock t h) = emulated_usec h" "fits (at_clock t h) = fits h" "ticks_usec (at_clock t h) = ticks_usec h"
  by (simp_all add: at_clock_def fits_def fun_eq_iff)

text \<open>No emulated time has passed since the virtual timers have caught up.\<close>

definition settled :: "host \<Rightarrow> bool \<Rightarrow> timer_machine \<Rightarrow> bool" where
  "settled h md m \<longleftrightarrow> pc_time_usec (ticks_usec h) (sys m) =
    (if md then v_last_usec (virt m) else current_virtual_time (mtimes False m))"

lemma handler_state:
  assumes "host_ok h" "state_inv h at_rest m" "fits h m"
  shows "\<exists>m'. timer_handler h (run_device h pit_device) md m = Some m' \<and> state_inv h at_rest m' \<and>
    settled h md m' \<and> (\<not> md \<longrightarrow> emulated_usec h m \<le> unat (current_timers_time (mtimes False m')))"
proof -
  note dev = device_handlers [OF assms(1) pit_well_behaved]
  show ?thesis
  proof (cases md)
    case True
    have "mode_inv None (virt m) True" using assms(2) by (simp add: state_inv_def)
    then have "unat (current_virtual_time (mtimes True m)) + unat (virtual_next_event_time (mtimes True m)) < 2 ^ 62"
      using assms(3) by (simp add: mode_inv_def Let_def fits_def)
    then show ?thesis
      using True virtual_handlers.handler_1_inv [OF dev, of m] assms(2) pit_line.handler_1_stamp [of h m]
      by (simp add: timer_handler_def settled_def pc_time_usec_def)
  next
    case False
    obtain m' where m': "timer_handler_0 h (run_device h pit_device) m = Some m'" "state_inv h at_rest m'"
      "current_virtual_time (mtimes False m') = pc_time_usec (ticks_usec h) (sys m)" "time_ticks (sys m') = time_ticks (sys m)"
      using virtual_handlers.handler_catches_up [OF dev, of m] assms(2,3) by (auto simp: fits_def)
    then have "mode_inv None (virt m') False" by (simp add: state_inv_def)
    then show ?thesis
      using False m' by (simp add: timer_handler_def mode_inv_def Let_def emulated_usec_def settled_def pc_time_usec_def)
  qed
qed

lemma handler_returns:
  assumes "host_ok h" "system_inv h k m" "fits h m"
  obtains m' where "timer_handler h (run_device h pit_device) md m = Some m'" "system_inv h k m'" "settled h md m'"
    "is_realtime (rest m') = is_realtime (rest m)" "\<not> md \<Longrightarrow> emulated_usec h m \<le> unat (current_timers_time (mtimes False m'))"
proof -
  obtain m' where m': "timer_handler h (run_device h pit_device) md m = Some m'" "state_inv h at_rest m'"
    "settled h md m'" "\<not> md \<longrightarrow> emulated_usec h m \<le> unat (current_timers_time (mtimes False m'))"
    using handler_state [OF assms(1) _ assms(3), of md] assms(2) unfolding system_inv_def by blast
  have "pit_line.idle k (is_realtime (rest m)) m'"
    using pit_line.handler [OF m'(1)] assms(2) by (simp add: system_inv_def)
  then show thesis using m' that by (simp add: system_inv_def pit_line.idle_def)
qed

lemma run_pit_state:
  assumes "host_ok h" "state_inv h at_rest m" "\<And>s. asks_nonzero s \<Longrightarrow> asks_nonzero (f s)"
  shows "state_inv h at_rest (run_pit h f m)" and "same_clocks m (run_pit h f m)"
    and "rest (run_pit h f m) = (rest m)\<lparr>pit_dev := f ((pit_dev (rest m))\<lparr>virt_calls := []\<rparr>)\<rparr>"
    and "in_timer_handler (virt (run_pit h f m)) = in_timer_handler (virt m)"
    and "v_last_usec (virt (run_pit h f m)) = v_last_usec (virt m)"
proof -
  obtain rs c where r: "on_pit f (rest m) = (rs, c)" by fastforce
  have "list_all vrequest_ok rs" using on_pit_ok [where f = f and c = "rest m", OF assms(3)] r by simp
  then show "state_inv h at_rest (run_pit h f m)" "same_clocks m (run_pit h f m)"
    using vrequests_fold [of h at_rest "m\<lparr>rest := c\<rparr>" rs] assms(1,2) by (simp_all add: run_pit_def r same_clocks_def)
  show "rest (run_pit h f m) = (rest m)\<lparr>pit_dev := f ((pit_dev (rest m))\<lparr>virt_calls := []\<rparr>)\<rparr>"
    using r by (auto simp: run_pit_def on_pit_def Let_def)
  show "in_timer_handler (virt (run_pit h f m)) = in_timer_handler (virt m)"
    "v_last_usec (virt (run_pit h f m)) = v_last_usec (virt m)" by (simp_all add: run_pit_def r)
qed

lemma run_pit_inv:
  assumes "host_ok h" "system_inv h k m" "\<And>s. asks_nonzero s \<Longrightarrow> asks_nonzero (f s)"
    "\<And>s. follows k s \<Longrightarrow> follows k (f s)"
  shows "system_inv h k (run_pit h f m)"
  using run_pit_state [OF assms(1) _ assms(3), where m = m] assms(2)
  by (simp add: system_inv_def pit_line.idle_def assms(4))

lemma pit_time_returns:
  assumes "host_ok h" "system_inv h k m" "fits h m"
  obtains u m' where "pit_time_usec h m = Some (u, m')" "system_inv h k m'" "settled h (is_realtime (rest m')) m'"
    "\<not> is_realtime (rest m) \<Longrightarrow> emulated_usec h m \<le> unat u"
proof -
  obtain m' where "timer_handler h (run_device h pit_device) (is_realtime (rest m)) m = Some m'" "system_inv h k m'"
    "settled h (is_realtime (rest m)) m'" "is_realtime (rest m') = is_realtime (rest m)"
    "\<not> is_realtime (rest m) \<Longrightarrow> emulated_usec h m \<le> unat (current_timers_time (mtimes False m'))"
    using handler_returns [OF assms] by metis
  moreover have "\<not> in_timer_handler (virt m)" using assms(2) by (simp add: system_inv_def pit_line.idle_def)
  ultimately show thesis
    using that [of "current_timers_time (mtimes (is_realtime (rest m)) m')" m']
    by (simp add: pit_time_usec_def v_time_usec_def)
qed

lemma usec_upd [simp]: "last_usec (on_timer f s) = last_usec s" "last_usec (rearm b s) = last_usec s"
proof -
  have "last_usec (fold irq_handler vs s) = last_usec s" "last_usec (fold speaker_handler vs s) = last_usec s" for vs s
    by (induction vs arbitrary: s) (simp_all add: irq_handler_def speaker_handler_def)
  then show "last_usec (on_timer f s) = last_usec s" by (simp add: on_timer_def drain_def Let_def)
  show "last_usec (rearm b s) = last_usec s" by (simp add: rearm_def Let_def)
qed

lemma usec_run_ticks [simp]: "last_usec (run_ticks n s) = last_usec s"
proof (induction n s rule: run_ticks.induct)
  case (1 n s)
  then show ?case by (subst run_ticks.simps) (simp add: Let_def)
qed

lemma usec_pass_time: "last_usec (pass_time (u - last_usec s) s) = u"
  by (simp add: pass_time_def periodic_def account_def Let_def split: prod.split)

lemma usec_ports:
  "last_usec (snd (pit_port_read a u s)) = u" "last_usec (pit_port_write a v u s) = u"
proof -
  have t: "last_usec (snd (timer_read n s)) = last_usec s" for n s by (simp add: timer_read_def split_beta)
  have b: "last_usec (beep_on s) = last_usec s" for s by (simp add: beep_on_def Let_def)
  have w: "last_usec (write_port61 x s) = last_usec s" for x s by (simp add: write_port61_def Let_def b)
  have h: "last_usec (handle_timer u s) = u" by (simp add: handle_timer_def Let_def usec_pass_time)
  show "last_usec (snd (pit_port_read a u s)) = u" by (simp add: pit_port_read_def Let_def t h)
  show "last_usec (pit_port_write a v u s) = u" by (simp add: pit_port_write_def Let_def b w usec_pass_time)
qed

text \<open>The start: no emulated time has passed, the handlers change nothing but the timer of the service.\<close>

lemma on_virt_id [simp]: "on_virt (\<lambda>v. v) m = m"
  by (simp add: on_virt_def)

lemma no_time:
  assumes settled: "settled h md m" and ok: "host_ok h" "state_inv h at_rest m"
  shows "\<exists>m'. timer_handler h call md m = Some m' \<and> virt m' = virt m \<and> rest m' = rest m \<and>
    time_ticks (sys m') = time_ticks (sys m) \<and> state_inv h at_rest m'"
proof -
  have k: "sched_ok (sys m)" "0 < system_timer_id (mtimes md m)" for md using ok(2) by (simp_all add: state_inv_def)
  have "\<exists>m'. timer_handler h call md m = Some m' \<and> virt m' = virt m \<and> rest m' = rest m \<and>
      time_ticks (sys m') = time_ticks (sys m) \<and> sched_ok (sys m')"
  proof (cases md)
    case True
    have "max 1 x \<noteq> (0 :: Bit64u)" for x by (auto simp: max_def)
    then show ?thesis
      using settled True stop_system_timer_kept [OF k(2) k(1), of True]
        system_timer_kept [OF ok(1), where m = "stop_system_timer True m" and mode = True] k(2) [of True]
      by (simp add: timer_handler_def timer_handler_1_def settled_def)
  next
    case False
    have "catch_up h call 0 m = Some m" by (subst catch_up.simps) simp
    moreover have "(if x > 2 then x - 2 else 1) \<noteq> (0 :: Bit64u)" for x by auto
    ultimately show ?thesis
      using settled False system_timer_kept [OF ok(1) k(2) [of False] _ k(1)]
      by (simp add: timer_handler_def timer_handler_0_def rearm_system_timer_def Let_def settled_def)
  qed
  then show ?thesis using state_inv_virt [OF ok(2)] by (metis order_refl)
qed

lemma pit_in_returns:
  assumes "host_ok h" "system_inv h k m" "fits h m"
  obtains u v m' where "pit_in h a m = Some (v, m')" "system_inv h k m'" "last_usec (pit_dev (rest m')) = u"
    "\<not> is_realtime (rest m) \<Longrightarrow> emulated_usec h m \<le> unat u"
proof -
  obtain u m1 where t: "pit_time_usec h m = Some (u, m1)" and inv: "system_inv h k m1" and "settled h (is_realtime (rest m1)) m1"
    and late: "\<not> is_realtime (rest m) \<Longrightarrow> emulated_usec h m \<le> unat u"
    using pit_time_returns [OF assms] by metis
  let ?v = "fst (pit_port_read a u (pit_dev (rest m1)))"
  define m2 where "m2 = run_pit h (\<lambda>s. snd (pit_port_read a u s)) m1"
  have inv2: "system_inv h k m2"
    unfolding m2_def by (rule run_pit_inv [OF assms(1) inv port_asks(1) follows_ports(1)])
  have "state_inv h at_rest m1" using inv by (simp add: system_inv_def)
  note run = run_pit_state [where f = "\<lambda>s. snd (pit_port_read a u s)", OF assms(1) this port_asks(1), folded m2_def]
  have s2: "settled h (is_realtime (rest m2)) m2"
    using run \<open>settled h (is_realtime (rest m1)) m1\<close> by (simp add: settled_def same_clocks_def pc_time_usec_def)
  have u: "last_usec (pit_dev (rest m2)) = u" by (simp add: run(3) usec_ports)
  show thesis
  proof (cases "a = 0x61")
    case True
    have "state_inv h at_rest m2" using inv2 by (simp add: system_inv_def)
    from no_time [OF s2 assms(1) this] obtain m3 where m3:
      "timer_handler h (run_device h pit_device) (is_realtime (rest m2)) m2 = Some m3"
      "virt m3 = virt m2" "rest m3 = rest m2" "state_inv h at_rest m3" by blast
    moreover have "\<not> in_timer_handler (virt m2)" using inv2 by (simp add: system_inv_def pit_line.idle_def)
    ultimately have "pit_time_usec h m2 = Some (current_timers_time (mtimes (is_realtime (rest m2)) m3), m3)"
      by (simp add: pit_time_usec_def v_time_usec_def)
    then have "pit_in h a m = Some (?v, m3)"
      using True t by (auto simp: pit_in_def Let_def m2_def)
    moreover have "system_inv h k m3" using inv2 m3(2,3,4) by (simp add: system_inv_def pit_line.idle_def)
    ultimately show thesis using that u late m3(3) by auto
  next
    case False
    then have "pit_in h a m = Some (?v, m2)" using t by (simp add: pit_in_def m2_def)
    then show thesis using that inv2 u late by blast
  qed
qed

lemma follows_init: "out_calls (counter (pit_timer s) 0) = [] \<Longrightarrow> follows False (init_pit u s)"
  by (simp add: follows_def init_pit_def Let_def pit_init_def init_counter_def set_OUT_handler_def)

lemma register_rest [simp]:
  "rest (snd (v_register_timer h g u cont act md ident m)) = rest m"
  "in_timer_handler (virt (snd (v_register_timer h g u cont act md ident m))) = in_timer_handler (virt m)"
  by (simp_all add: v_register_timer_def Let_def sooner_event_def next_event_time_update_virt) (simp_all add: upd_vtimer_def)

lemma register_clocks:
  assumes "host_ok h" "state_inv h k m"
  shows "same_clocks m (snd (v_register_timer h g useconds cont act md ident m))"
proof -
  obtain m1 where m1: "snd (v_register_timer h g useconds cont act md ident m) = sooner_event h md useconds m1"
    "times (virt m1) = times (virt m)" "sys m1 = sys m"
    by (auto simp: v_register_timer_def Let_def)
  then show ?thesis
    using sooner_clocks [OF assms(1), of m1 md useconds] assms(2) by (simp add: same_clocks_def state_inv_def)
qed

lemma start_inv:
  assumes host: "host_ok h" and log: "out_calls (counter (pit_timer (pit_dev w)) 0) = []"
  obtains m where "pit_start h realtime (v_boot h Null_function Virtual_handler System_null ips v w) = Some m"
    "system_inv h False m" "fits h m"
proof -
  define b where "b = v_boot h Null_function Virtual_handler System_null ips v w"
  note boot = boot_inv [OF host b_def]
  let ?b = "b\<lparr>rest := (rest b)\<lparr>is_realtime := realtime\<rparr>\<rparr>"
  have "settled h realtime ?b" using boot by (simp add: settled_def)
  moreover have "state_inv h at_rest ?b" using boot by simp
  ultimately obtain m1 where m1:
    "timer_handler h (run_device h pit_device) realtime ?b = Some m1" "virt m1 = virt b"
    "rest m1 = w\<lparr>is_realtime := realtime\<rparr>" "time_ticks (sys m1) = time_ticks (sys b)"
    using no_time [OF _ host, of realtime ?b "run_device h pit_device"] boot by auto
  have "fits h ?b" using boot [where mode = True] by (simp add: fits_def emulated_usec_def)
  then have s1: "state_inv h at_rest m1"
    using handler_state [OF host, of ?b realtime] m1(1) boot by simp
  define u where "u = current_timers_time (mtimes realtime m1)"
  have t: "pit_time_usec h ?b = Some (u, m1)"
    using boot m1(1) by (simp add: pit_time_usec_def v_time_usec_def u_def)
  define m2 where "m2 = (if timer_handle (rest m1) = BX_NULL_TIMER_HANDLE
      then (let (i, m) = v_register_timer h Pit_timer_handler 100 True True realtime ''pit'' m1
            in m\<lparr>rest := (rest m)\<lparr>timer_handle := i\<rparr>\<rparr>) else m1)"
  define m where "m = run_pit h (init_pit u) m2"
  have m: "pit_start h realtime (v_boot h Null_function Virtual_handler System_null ips v w) = Some m"
    using t by (simp add: pit_start_def b_def [symmetric] m2_def m_def)
  have "v_numTimers (virt m1) < BX_MAX_VIRTUAL_TIMERS" using boot m1(2) by (simp add: BX_MAX_VIRTUAL_TIMERS_def)
  from v_register_ok [OF s1 host _ this] have s2: "state_inv h at_rest m2"
    using s1 by (simp add: m2_def split_def Let_def)
  have r2: "pit_dev (rest m2) = pit_dev w" "\<not> in_timer_handler (virt m2)"
    using boot m1(2,3) by (simp_all add: m2_def split_def Let_def)
  note run = run_pit_state [where f = "init_pit u", OF host s2 port_asks(3), folded m_def]
  have "system_inv h False m"
    using run r2 follows_init log by (simp add: system_inv_def pit_line.idle_def)
  moreover have "same_clocks m1 m2"
    using register_clocks [OF host s1] by (simp add: m2_def split_def Let_def same_clocks_def)
  then have "same_clocks m1 m" using run(2) by (rule same_clocks_trans)
  then have "fits h m"
    using s1 boot [where mode = True] m1 by (simp add: fits_def same_clocks_def emulated_usec_def pc_time_usec_def)
  ultimately show thesis using that m by blast
qed

lemma step_inv:
  assumes host: "host_ok h" and inv: "system_inv h k m" and fits: "fits h m" and step: "timer_step h m m'"
  shows "system_inv h k m'"
proof -
  have at: "system_inv (at_clock t h) k m = system_inv h k m" for t m
    by (simp add: system_inv_def pit_line.idle_def)
  have ports: "system_inv h k (run_pit (at_clock t h) (\<lambda>s. snd (pit_port_read a u s)) m)"
    "system_inv h k (run_pit (at_clock t h) (pit_port_write a v u) m)" if "system_inv h k m" for t u m a v
  proof -
    have "host_ok (at_clock t h)" "system_inv (at_clock t h) k m" using that host at by simp_all
    then have "system_inv (at_clock t h) k (run_pit (at_clock t h) (\<lambda>s. snd (pit_port_read a u s)) m)"
      "system_inv (at_clock t h) k (run_pit (at_clock t h) (pit_port_write a v u) m)"
      by (intro run_pit_inv port_asks follows_ports; simp)+
    then show "system_inv h k (run_pit (at_clock t h) (\<lambda>s. snd (pit_port_read a u s)) m)"
      "system_inv h k (run_pit (at_clock t h) (pit_port_write a v u) m)" by (simp_all add: at)
  qed
  have time: "pit_time_usec (at_clock t h) m = Some (u, m1) \<Longrightarrow> system_inv h k m1" for t u m1
    using pit_time_returns [of "at_clock t h" k m] host inv fits at by (metis clock_inv_at(1,4) option.inject prod.inject)
  from step show ?thesis
  proof cases
    case (port_in t a v)
    have "host_ok (at_clock t h)" "system_inv (at_clock t h) k m" "fits (at_clock t h) m"
      using host inv fits at by simp_all
    from pit_in_returns [OF this, of a] port_in show ?thesis using at by (metis option.inject prod.inject)
  next
    case (port_out t a d)
    then show ?thesis using ports time by (auto simp: pit_out_def)
  next
    case (handler t md)
    then show ?thesis
      using handler_returns [of "at_clock t h" k m md] host inv fits at by (metis clock_inv_at(1,4) option.inject)
  next
    case (time s)
    have "unat (pc_time_usec (ticks_usec h) (sys m)) \<le> unat (pc_time_usec (ticks_usec h) s)"
      using time host by (simp add: host_ok_def pc_time_usec_def word_le_nat_alt)
    then show ?thesis
      using inv time by (simp add: system_inv_def pit_line.idle_def state_inv_def emulated_usec_def)
  qed
qed

lemma system_reaches_inv:
  assumes "host_ok h"
  shows "timer_system h m \<Longrightarrow> system_inv h False m"
proof (induction rule: timer_system.induct)
  case (start w t realtime ips v m)
  have "host_ok (at_clock t h)" by (simp add: assms)
  from start_inv [OF this start(1), of realtime ips v] start(2) show ?case
    by (auto simp: system_inv_def pit_line.idle_def)
next
  case (step m m')
  from step_inv [OF assms step.IH step.hyps(2,3)] show ?case .
qed

section \<open>A sample machine\<close>

definition sample_client :: pit_client where
  "sample_client = \<lparr>timer_handle = BX_NULL_TIMER_HANDLE, is_realtime = False, pit_dev = sample_device\<rparr>"

definition sample_system :: timer_machine where
  "sample_system = the (pit_start (at_clock 0 nominal_host) False
    (v_boot (at_clock 0 nominal_host) Null_function Virtual_handler System_null 10000000 (zero_virt Null_function) sample_client))"

lemma sample_system_reachable: "timer_system nominal_host sample_system" "fits nominal_host sample_system"
proof -
  have host: "host_ok (at_clock 0 nominal_host)" by (simp add: nominal_ok)
  have log: "out_calls (counter (pit_timer (pit_dev sample_client)) 0) = []"
    by (simp add: sample_client_def sample_device_def sample_pit_def sample_counter_def)
  obtain m where m: "pit_start (at_clock 0 nominal_host) False
      (v_boot (at_clock 0 nominal_host) Null_function Virtual_handler System_null 10000000 (zero_virt Null_function) sample_client) = Some m"
    "fits (at_clock 0 nominal_host) m"
    by (rule start_inv [OF host log])
  then show "timer_system nominal_host sample_system" "fits nominal_host sample_system"
    using timer_system.start [OF log m(1)] by (simp_all add: sample_system_def)
qed

section \<open>Properties\<close>

text \<open>
  C9. The timer interrupt in the whole machine: in every state that the timer device, the virtual timers and
  the timer service reach from power-up together, whatever the host's clock shows and however the
  port accesses, the calls of the handlers and the passing of time interleave, interrupt line 0 is never
  high while the output of counter 0 is low; and from the first agreement on they agree forever.
\<close>

theorem machine_line_follows_output:
  assumes "host_ok h" and "timer_system h m"
  shows "(bit (IRQ_in (master_pic (pit_pic (pit_dev (rest m))))) 0 \<longrightarrow> OUTpin (counter (pit_timer (pit_dev (rest m))) 0)) \<and>
    (fits h m \<longrightarrow> timer_step h m m' \<longrightarrow> follows True (pit_dev (rest m)) \<longrightarrow> follows True (pit_dev (rest m')))"
proof -
  note inv = system_reaches_inv [OF assms]
  have "follows True (pit_dev (rest m'))" if "fits h m" "timer_step h m m'" "follows True (pit_dev (rest m))"
  proof -
    have "system_inv h True m" using inv that(3) by (simp add: system_inv_def pit_line.idle_def)
    from step_inv [OF assms(1) this that(1,2)] show ?thesis by (simp add: system_inv_def pit_line.idle_def)
  qed
  moreover have "follows False (pit_dev (rest m))" using inv by (simp add: system_inv_def pit_line.idle_def)
  ultimately show ?thesis by (auto simp: follows_def [of False] line0_def)
qed

theorem machine_line_follows_output_witness:
  "\<exists>m. timer_step nominal_host sample_system m \<and>
    \<not> (bit (IRQ_in (master_pic (pit_pic (pit_dev (rest m))))) 0 \<and> \<not> OUTpin (counter (pit_timer (pit_dev (rest m))) 0))"
proof -
  have host: "host_ok (at_clock 0 nominal_host)" by (simp add: nominal_ok)
  have inv: "system_inv (at_clock 0 nominal_host) False sample_system"
    using system_reaches_inv [OF nominal_ok sample_system_reachable(1)] by (simp add: system_inv_def pit_line.idle_def)
  obtain u m' where "pit_time_usec (at_clock 0 nominal_host) sample_system = Some (u, m')"
    using pit_time_returns [OF host inv] sample_system_reachable(2) clock_inv_at(4) by metis
  then have "timer_step nominal_host sample_system (run_pit (at_clock 0 nominal_host) (pit_port_write 0x43 0x36 u) m')"
    by (intro timer_step.port_out [where t = 0 and a = "0x43" and d = "0x36"]) (simp add: pit_out_def)
  moreover from timer_system.step [OF sample_system_reachable this] machine_line_follows_output [OF nominal_ok]
  have "\<not> (bit (IRQ_in (master_pic (pit_pic (pit_dev (rest (run_pit (at_clock 0 nominal_host) (pit_port_write 0x43 0x36 u) m')))))) 0 \<and>
      \<not> OUTpin (counter (pit_timer (pit_dev (rest (run_pit (at_clock 0 nominal_host) (pit_port_write 0x43 0x36 u) m')))) 0))"
    by blast
  ultimately show ?thesis by blast
qed



end
