(* ===== verification/Spec2Isabelle.thy ===== *)
theory Spec2Isabelle
  imports Arith Logic Mult Bcd Shift Timer_System
begin

text \<open>
  The machine under the boot loader.

  The repository holds a boot loader in x86 assembly (src/sources) and the emulator it runs on,
  Bochs 2.6.11 in C++ (src/bochs-2.6.11). The theories model parts of the emulator that the
  boot loader depends on: the integer instructions of the processor, the interrupt
  controllers and the interval timer that the loader's third stage configures, and the timers
  of the emulator that drive them. The build
  is the one of config.h: 32-bit registers (BX_SUPPORT_X86_64 is 0), BX_CPU_LEVEL 6, an
  APIC, no handler chaining.

  Theories.

  Prelude. The machine integers of the code (Bit8u to Bit64u as words), shifts, sign and zero
  extension, and the facts on sums, products and carries at different widths that the
  instruction theories share.

  Lazy_Flags. cpu/lazy_flags.h: the arithmetic flags are kept as two words, result and
  auxbits, and computed on demand. Every accessor and the SET_FLAGS macro family at 8, 16 and
  32 bits; the locale flag_bank states what setting one flag leaves of the others, and the macros are shown to yield the flags of the reference addition,
  subtraction and logic operations.

  Cpu_State. The registers and their byte, word and dword views (cpu/cpu.h), the instruction
  operands (cpu/decoder/instr.h), and cpu/flag_ctrl.cc.

  Arith, Logic, Mult, Bcd, Shift. The register-operand handlers of cpu/arith8.cc to arith32.cc,
  logical8.cc to logical32.cc, mult8.cc to mult32.cc, bcd.cc and shift8.cc to shift32.cc, one
  definition for each handler under its own name. A handler maps the processor state to the
  new state; the divisions return a sum, with the divide error as its left value. The lemmas
  state result and flags of each handler against mathematical operations: sums and
  products as integers, rotations as rotations of the operand with its carry, shifts as
  multiplication and division by powers of two, the BCD adjusts as decimal arithmetic.

  Pic. iodev/pic.cc: both 8259 chips with their ports, lines and acknowledge cycle.
  A panic (BX_PANIC) is an entry of a log. The scans over the eight lines have fuel 8: the ring
  has eight lines and a scan stops when it is back at its start, so the fuel is
  never used up. The locale irq_chip is the interface of one chip; both chips
  interpret it.

  Pic_Safety. The invariant of the pair of chips under every sequence of port accesses,
  line changes and acknowledges (the step relation pic_step), delivery of requests in the
  order of priority, the configuration the loader writes (pic.asm), and one case in
  which the acknowledge returns a request that has been withdrawn.

  Pit. iodev/pit82c54.cc: the three counters with all their modes, ports and gates. The OUT
  callback is an installed flag and a list of the values it was called with. The loops of
  decrement_multiple and clock_multiple terminate for every argument, by the number of
  cycles left.

  Pit_Count, Pit_Clock, Pit_Waves, Pit_Ports. The two images of a count; the locale event_timer of
  a component that may skip cycles until an announced event, interpreted by the counters; the
  outputs over whole periods; the properties of the chip at its ports, and where
  skipping cycles is not counting them.

  Pit_Device. iodev/pit.cc: the ports 40 to 43 and 61, the passing of emulated time, the event
  loop, the OUT handlers and the interrupt line. The emulated time is an input of the
  operations; the requests to the virtual timer and to the speaker are lists of the state, which
  Timer_System carries out.

  Timer_Irq. The timer device and the interrupt controllers together: no tick is lost, the event
  loop is exact, line 0 follows the output of counter 0, and the interrupt wave of a
  counter programmed as the boot loader does it; the 32-bit overflow in the delay of the
  next event.

  Pc_System, Pc_Timers. pc_system.cc: the timer service, which counts emulated instructions down to the next
  event and calls the handlers of the timers that are due. A handler is a value, its effect an argument of the
  operations. The loop of tickn, which need not end, is a partial function; it is shown to return
  for all handlers that act by the service's own requests. The invariant of the table under every
  sequence of requests and ticks, the schedule of the calls, and one case in which a stopped timer's
  handler is called. The locale timer_handlers is the interface of the handlers.

  Virt_Timer, Virt_Events. iodev/virt_timer.cc: the virtual timers, in microseconds, in the standard mode and in the
  mode that follows the host's clock. The record host holds what the model cannot compute: the conversions in
  floating point and the host's clock; host_ok says that the conversions are monotone and bounded.
  The loop of the standard mode is a partial function, shown to return in every reachable state, with the
  virtual time equal to the emulated time; one registration that the assertions allow makes it run
  forever. Time is bounded by 2 to the 62 microseconds or ticks, so that no sum of the code wraps. The locales
  virtual_handlers and virtual_devices are the interfaces of handlers and devices.

  Timer_System. The timer device as a client of the virtual timers, and these as clients of the timer service:
  the port accesses, the two handlers and the passing of time as one step relation (timer_step), the
  interrupt line in every reachable state of it, and the return of every port access.

  Not modelled. Memory-operand forms of the instructions, which go through segmentation and
  paging; the instruction decoder; protection, tasks and exceptions beyond the divide error;
  the floating point, SIMD and virtualization units; host input and output, the user
  interfaces and the devices the boot loader does not touch. Logging (BX_DEBUG, BX_INFO,
  BX_ERROR) and the registration of state for save and restore have no effect on the machine
  and are left out.
\<close>

end
